(* ===== verification/Uds_Prelude.thy ===== *)
theory Uds_Prelude
  imports Main "HOL-Library.Word"
begin

text \<open>
  Shared vocabulary of the development: machine words and bytes, little-endian encoding,
  byte-addressed memory, the power-of-two rounding used for every shared-memory layout,
  decimal printing and parsing of the numbers that occur in file names, and the return
  codes of the rmw interface. The collections \<open>uds_defs\<close> (layout constants) and
  \<open>mem_simps\<close> (reads over writes) carry the component proofs.
\<close>

unbundle bit_operations_syntax

named_theorems uds_defs "layout constants and thin wrappers, unfolded on demand"
named_theorems mem_simps "reads of byte memory after writes"

section \<open>Words and bytes\<close>

type_synonym byte = "8 word"
type_synonym u8 = "8 word"
type_synonym u16 = "16 word"
type_synonym u32 = "32 word"
type_synonym u64 = "64 word"
type_synonym bytes = "byte list"

text \<open>
  Little-endian encoding of an unsigned number in \<open>n\<close> bytes (x86-64 is the only platform
  the program supports), and the reading of a byte run back as a number.
\<close>

fun le_bytes :: "nat \<Rightarrow> nat \<Rightarrow> bytes" where
  "le_bytes 0 v = []"
| "le_bytes (Suc n) v = of_nat v # le_bytes n (v div 256)"

fun le_nat :: "bytes \<Rightarrow> nat" where
  "le_nat [] = 0"
| "le_nat (b # bs) = unat b + 256 * le_nat bs"

lemma length_le_bytes [simp]: "length (le_bytes n v) = n"
  by (induction n arbitrary: v) auto

lemma unat_of_nat_byte [simp]: "unat (of_nat v :: byte) = v mod 256"
  by (simp add: unat_of_nat)

lemma le_nat_le_bytes: "le_nat (le_bytes n v) = v mod 256 ^ n"
proof (induction n arbitrary: v)
  case 0
  then show ?case by simp
next
  case (Suc n)
  then show ?case by (simp add: mod_mult2_eq)
qed

lemma le_bytes_le_nat: "le_bytes (length bs) (le_nat bs) = bs"
proof (induction bs)
  case Nil
  then show ?case by simp
next
  case (Cons b bs)
  have b: "unat b < 256" using unsigned_less[where ?'a=nat, of b] by simp
  have "of_nat (unat b + 256 * le_nat bs) = b"
    by (rule word_unat_eq_iff[THEN iffD2]) (simp only: unat_of_nat_byte mod_mult_self2 mod_less b)
  moreover have "(unat b + 256 * le_nat bs) div 256 = le_nat bs" using b by simp
  ultimately show ?case using Cons.IH by simp
qed

lemma le_nat_bound: "le_nat bs < 256 ^ length bs"
  by (metis le_bytes_le_nat le_nat_le_bytes mod_less_divisor zero_less_numeral zero_less_power)

definition enc16 :: "u16 \<Rightarrow> bytes" where "enc16 w = le_bytes 2 (unat w)"
definition enc32 :: "u32 \<Rightarrow> bytes" where "enc32 w = le_bytes 4 (unat w)"
definition enc64 :: "u64 \<Rightarrow> bytes" where "enc64 w = le_bytes 8 (unat w)"
definition dec32 :: "bytes \<Rightarrow> u32" where "dec32 bs = of_nat (le_nat bs)"
definition dec64 :: "bytes \<Rightarrow> u64" where "dec64 bs = of_nat (le_nat bs)"

lemma length_enc [simp]: "length (enc32 a) = 4" "length (enc64 b) = 8"
  by (simp_all add: enc32_def enc64_def)

lemma dec32_enc32 [simp]: "dec32 (enc32 w) = w"
proof -
  have "unat w < 256 ^ 4" using unsigned_less[where ?'a=nat, of w] by simp
  then show ?thesis by (simp add: dec32_def enc32_def le_nat_le_bytes)
qed

lemma dec64_enc64 [simp]: "dec64 (enc64 w) = w"
proof -
  have "unat w < 256 ^ 8" using unsigned_less[where ?'a=nat, of w] by simp
  then show ?thesis by (simp add: dec64_def enc64_def le_nat_le_bytes)
qed

lemma enc32_dec32: "length bs = 4 \<Longrightarrow> enc32 (dec32 bs) = bs"
proof -
  assume l: "length bs = 4"
  have "le_nat bs < 2 ^ 32" using le_nat_bound[of bs] l by simp
  then have "unat (dec32 bs) = le_nat bs"
    by (simp add: dec32_def unat_of_nat)
  then show ?thesis using le_bytes_le_nat[of bs] l by (simp add: enc32_def)
qed

lemma enc64_dec64: "length bs = 8 \<Longrightarrow> enc64 (dec64 bs) = bs"
proof -
  assume l: "length bs = 8"
  have "le_nat bs < 2 ^ 64" using le_nat_bound[of bs] l by simp
  then have "unat (dec64 bs) = le_nat bs"
    by (simp add: dec64_def unat_of_nat)
  then show ?thesis using le_bytes_le_nat[of bs] l by (simp add: enc64_def)
qed

lemma enc32_inject [simp]: "enc32 a = enc32 b \<longleftrightarrow> a = b"
  by (metis dec32_enc32)

lemma enc64_inject [simp]: "enc64 a = enc64 b \<longleftrightarrow> a = b"
  by (metis dec64_enc64)

section \<open>Byte-addressed memory\<close>

text \<open>
  The contents of one shared-memory object. A block write and a block read; bounds are the
  business of the code that computes the offsets, so they are not built in here.
\<close>

type_synonym mem = "nat \<Rightarrow> byte"

definition mem_write :: "mem \<Rightarrow> nat \<Rightarrow> bytes \<Rightarrow> mem" where
  "mem_write m off bs = (\<lambda>i. if off \<le> i \<and> i < off + length bs then bs ! (i - off) else m i)"

definition mem_read :: "mem \<Rightarrow> nat \<Rightarrow> nat \<Rightarrow> bytes" where
  "mem_read m off n = map m [off..<off + n]"

lemma length_mem_read [simp]: "length (mem_read m off n) = n"
  by (simp add: mem_read_def)

lemma nth_mem_read [simp]: "i < n \<Longrightarrow> mem_read m off n ! i = m (off + i)"
  by (simp add: mem_read_def)

lemma mem_read_write_same [mem_simps]:
  "mem_read (mem_write m off bs) off (length bs) = bs"
  by (rule nth_equalityI) (auto simp: mem_write_def)

lemma mem_read_write_same_n: "length bs = n \<Longrightarrow> mem_read (mem_write m off bs) off n = bs"
  using mem_read_write_same by blast

lemma mem_read_write_other [mem_simps]:
  "off + n \<le> off' \<or> off' + length bs \<le> off \<Longrightarrow>
     mem_read (mem_write m off' bs) off n = mem_read m off n"
  by (rule nth_equalityI) (auto simp: mem_write_def)

lemma mem_read_take: "k \<le> n \<Longrightarrow> take k (mem_read m off n) = mem_read m off k"
  by (rule nth_equalityI) auto

definition mem_read32 :: "mem \<Rightarrow> nat \<Rightarrow> u32" where
  "mem_read32 m off = dec32 (mem_read m off 4)"

definition mem_write32 :: "mem \<Rightarrow> nat \<Rightarrow> u32 \<Rightarrow> mem" where
  "mem_write32 m off w = mem_write m off (enc32 w)"

definition mem_read64 :: "mem \<Rightarrow> nat \<Rightarrow> u64" where
  "mem_read64 m off = dec64 (mem_read m off 8)"

definition mem_write64 :: "mem \<Rightarrow> nat \<Rightarrow> u64 \<Rightarrow> mem" where
  "mem_write64 m off w = mem_write m off (enc64 w)"

lemma mem_read32_write32 [mem_simps]: "mem_read32 (mem_write32 m off w) off = w"
  by (simp add: mem_read32_def mem_write32_def mem_read_write_same_n)

lemma mem_read64_write64 [mem_simps]: "mem_read64 (mem_write64 m off w) off = w"
  by (simp add: mem_read64_def mem_write64_def mem_read_write_same_n)

lemma mem_read32_write32_other [mem_simps]:
  "off + 4 \<le> off' \<or> off' + 4 \<le> off \<Longrightarrow>
     mem_read32 (mem_write32 m off' w) off = mem_read32 m off"
  by (simp add: mem_read32_def mem_write32_def mem_read_write_other)

lemma mem_read32_write64_other [mem_simps]:
  "off + 4 \<le> off' \<or> off' + 8 \<le> off \<Longrightarrow>
     mem_read32 (mem_write64 m off' w) off = mem_read32 m off"
  by (simp add: mem_read32_def mem_write64_def mem_read_write_other)

lemma mem_read64_write32_other [mem_simps]:
  "off + 8 \<le> off' \<or> off' + 4 \<le> off \<Longrightarrow>
     mem_read64 (mem_write32 m off' w) off = mem_read64 m off"
  by (simp add: mem_read64_def mem_write32_def mem_read_write_other)

lemma mem_read32_write_other [mem_simps]:
  "off + 4 \<le> off' \<or> off' + length bs \<le> off \<Longrightarrow>
     mem_read32 (mem_write m off' bs) off = mem_read32 m off"
  by (simp add: mem_read32_def mem_read_write_other)

lemma mem_read64_write_other [mem_simps]:
  "off + 8 \<le> off' \<or> off' + length bs \<le> off \<Longrightarrow>
     mem_read64 (mem_write m off' bs) off = mem_read64 m off"
  by (simp add: mem_read64_def mem_read_write_other)

lemma mem_read_write32_other [mem_simps]:
  "off + n \<le> off' \<or> off' + 4 \<le> off \<Longrightarrow>
     mem_read (mem_write32 m off' w) off n = mem_read m off n"
  by (simp add: mem_write32_def mem_read_write_other)

section \<open>Power-of-two rounding\<close>

text \<open>
  \<open>align_up\<close> of \<^verbatim>\<open>shm_transport.cpp\<close>: \<^verbatim>\<open>(v + a - 1) & ~(a - 1)\<close> on 64-bit
  \<^verbatim>\<open>size_t\<close>, with its wrap-around.
\<close>

definition align_up :: "u64 \<Rightarrow> u64 \<Rightarrow> u64" where
  "align_up v a = (v + a - 1) AND NOT (a - 1)"

lemma unat_and_not_mask: "unat ((w :: u64) AND NOT (mask k)) = unat w div 2 ^ k * 2 ^ k"
proof -
  have "w AND NOT (mask k) = push_bit k (drop_bit k w)"
    by (simp add: bit_eq_iff bit_simps) auto
  moreover have "unat (push_bit k (drop_bit k w)) = unat w div 2 ^ k * 2 ^ k"
  proof -
    have w: "unat w < 2 ^ 64" using unsigned_less[where ?'a=nat, of w] by simp
    have "unat (drop_bit k w) = unat w div 2 ^ k"
      by (simp only: unsigned_drop_bit_eq) (use w in \<open>simp add: drop_bit_eq_div take_bit_nat_eq_self\<close>)
    then have "unat (push_bit k (drop_bit k w)) = take_bit 64 (unat w div 2 ^ k * 2 ^ k)"
      by (simp only: unsigned_push_bit_eq) (simp add: push_bit_eq_mult)
    also have "\<dots> = unat w div 2 ^ k * 2 ^ k"
      using w by (simp add: take_bit_nat_eq_self_iff) (metis div_times_less_eq_dividend order_le_less_trans)
    finally show ?thesis .
  qed
  ultimately show ?thesis by simp
qed

lemma unat_align_up:
  assumes "k < 64" "unat v + 2 ^ k \<le> 2 ^ 64"
  shows "unat (align_up v (2 ^ k)) = (unat v + 2 ^ k - 1) div 2 ^ k * 2 ^ k"
proof -
  have pow_pos: "(0::nat) < 2 ^ k" by simp
  have m: "(2 ^ k :: u64) - 1 = mask k" by (simp add: mask_eq_exp_minus_1)
  have "unat (v + (2 ^ k - 1)) = unat v + (2 ^ k - 1)"
  proof -
    have "unat ((2 ^ k :: u64) - 1) = 2 ^ k - 1"
    proof -
      have "unat (mask k :: u64) = unat (of_nat (mask k) :: u64)" by (simp add: of_nat_mask_eq)
      also have "\<dots> = take_bit 64 (mask k)" by (simp only: unsigned_of_nat) simp
      also have "\<dots> = 2 ^ k - 1" proof -
        have "(2::nat) ^ k - 1 < 2 ^ 64"
          using assms(2) less_imp_diff_less[of "(2::nat) ^ k"] pow_pos by linarith
        then show ?thesis by (simp add: mask_eq_exp_minus_1 take_bit_nat_eq_self)
      qed
      finally show ?thesis unfolding m .
    qed
    moreover have "unat v + (2 ^ k - 1) < 2 ^ 64"
      using assms(2) pow_pos by linarith
    ultimately show ?thesis by (simp add: unat_word_ariths)
  qed
  then have "unat (v + 2 ^ k - 1) = unat v + 2 ^ k - 1"
    by (simp add: add_diff_eq)
  then show ?thesis by (simp add: align_up_def m unat_and_not_mask)
qed

section \<open>Invariants of step relations\<close>

text \<open>
  What each component with steps provides: a property that no step destroys. What it gets: the
  property holds in everything reachable.
\<close>

locale transition_invariant =
  fixes step :: "'s \<Rightarrow> 's \<Rightarrow> bool"
    and inv :: "'s \<Rightarrow> bool"
  assumes step_keeps: "step s s' \<Longrightarrow> inv s \<Longrightarrow> inv s'"
begin

lemma steps_keep: "step\<^sup>*\<^sup>* s s' \<Longrightarrow> inv s \<Longrightarrow> inv s'"
  by (induction rule: rtranclp_induct) (auto intro: step_keeps)

end

end
