(* ===== verification/Uds_Names.thy ===== *)
theory Uds_Names
  imports Uds_Prelude
begin

text \<open>
  Names of the kernel objects the middleware creates, and the start-up sweeps that parse
  them back: payload segments, latched-cache segments and socket files. The process id in
  a name is what a sweep uses to decide whether the object is an orphan, so the central
  facts are that printing and parsing agree and that distinct segments get distinct names.
\<close>

section \<open>Printing and parsing numbers (snprintf, strtol)\<close>

definition digit_char :: "nat \<Rightarrow> char" where
  "digit_char d = (if d < 10 then char_of (48 + d) else char_of (87 + d))"

definition is_digit :: "char \<Rightarrow> bool" where
  "is_digit c \<longleftrightarrow> 48 \<le> (of_char c :: nat) \<and> (of_char c :: nat) \<le> 57"

function show_base :: "nat \<Rightarrow> nat \<Rightarrow> string" where
  "show_base b n =
     (if b < 2 \<or> n < b then [digit_char n]
      else show_base b (n div b) @ [digit_char (n mod b)])"
  by pat_completeness auto
termination
  by (relation "measure snd") (auto simp: div_less_dividend)

declare show_base.simps [simp del]

abbreviation show_nat :: "nat \<Rightarrow> string" where "show_nat \<equiv> show_base 10"
abbreviation show_hex :: "nat \<Rightarrow> string" where "show_hex \<equiv> show_base 16"

definition show_int :: "int \<Rightarrow> string" where
  "show_int i = (if i < 0 then CHR ''-'' # show_nat (nat (- i)) else show_nat (nat i))"

text \<open>The digit loop of \<^verbatim>\<open>strtol(s, &end, 10)\<close>: value so far, rest of the input.\<close>

fun scan_digits :: "nat \<Rightarrow> string \<Rightarrow> nat \<times> string" where
  "scan_digits acc [] = (acc, [])"
| "scan_digits acc (c # cs) =
     (if is_digit c then scan_digits (10 * acc + (of_char c - 48)) cs else (acc, c # cs))"

definition is_c_space :: "char \<Rightarrow> bool" where
  "is_c_space c \<longleftrightarrow> (of_char c :: nat) = 32 \<or> (9 \<le> (of_char c :: nat) \<and> (of_char c :: nat) \<le> 13)"

text \<open>
  \<^verbatim>\<open>strtol\<close>, base 10: white space, an optional sign, digits; \<open>None\<close> when no digit was
  consumed (\<open>end == start\<close>), otherwise the value, clamped to the range of \<^verbatim>\<open>long\<close>, and
  the unconsumed rest.
\<close>

definition strtol :: "string \<Rightarrow> (int \<times> string) option" where
  "strtol s =
     (let s1 = dropWhile is_c_space s;
          neg = (case s1 of c # _ \<Rightarrow> c = CHR ''-'' | [] \<Rightarrow> False);
          s2 = (case s1 of c # cs \<Rightarrow> if c = CHR ''-'' \<or> c = CHR ''+'' then cs else s1 | [] \<Rightarrow> [])
      in case s2 of
           [] \<Rightarrow> None
         | c # cs \<Rightarrow>
             if is_digit c
             then (let (v, rest) = scan_digits 0 s2 in
                   Some (if neg then max (- (2 ^ 63)) (- int v) else min (2 ^ 63 - 1) (int v), rest))
             else None)"

lemma of_char_digit: "d < 10 \<Longrightarrow> (of_char (digit_char d) :: nat) = 48 + d"
  by (simp add: digit_char_def)

lemma is_digit_digit_char [simp]: "d < 10 \<Longrightarrow> is_digit (digit_char d)"
  by (simp add: is_digit_def of_char_digit)

lemma show_nat_digits: "\<forall>c \<in> set (show_nat n). is_digit c"
proof (induction n rule: less_induct)
  case (less n)
  show ?case
  proof (cases "n < 10")
    case True
    then show ?thesis by (subst show_base.simps) simp
  next
    case False
    then have "\<forall>c \<in> set (show_nat (n div 10)). is_digit c"
      using less[of "n div 10"] by (simp add: div_less_dividend)
    with False show ?thesis by (subst show_base.simps) auto
  qed
qed

lemma show_nat_nonempty [simp]: "show_base b n \<noteq> []"
  by (subst show_base.simps) simp

lemma scan_digits_append:
  "\<forall>c \<in> set xs. is_digit c \<Longrightarrow> scan_digits a (xs @ ys) = scan_digits (fst (scan_digits a xs)) ys"
  by (induction xs arbitrary: a) auto

lemma scan_digits_all:
  "\<forall>c \<in> set xs. is_digit c \<Longrightarrow> snd (scan_digits a xs) = []"
  by (induction xs arbitrary: a) auto

lemma scan_digits_show_nat: "scan_digits 0 (show_nat n) = (n, [])"
proof (induction n rule: less_induct)
  case (less n)
  show ?case
  proof (cases "n < 10")
    case True
    then show ?thesis by (subst show_base.simps) (simp add: of_char_digit)
  next
    case False
    then have IH: "scan_digits 0 (show_nat (n div 10)) = (n div 10, [])"
      using less[of "n div 10"] by (simp add: div_less_dividend)
    have "scan_digits 0 (show_nat n)
        = scan_digits (n div 10) [digit_char (n mod 10)]"
      using False IH show_nat_digits[of "n div 10"]
      by (subst show_base.simps) (simp add: scan_digits_append)
    then show ?thesis by (simp add: of_char_digit)
  qed
qed

lemma show_nat_inject [simp]: "show_nat m = show_nat n \<longleftrightarrow> m = n"
  by (metis scan_digits_show_nat fst_conv)

lemma scan_digits_stop:
  "rest = [] \<or> \<not> is_digit (hd rest) \<Longrightarrow> scan_digits a rest = (a, rest)"
  by (cases rest) auto

lemma scan_show_rest:
  assumes "rest = [] \<or> \<not> is_digit (hd rest)"
  shows "scan_digits 0 (show_nat n @ rest) = (n, rest)"
  using assms show_nat_digits[of n]
  by (simp add: scan_digits_append scan_digits_show_nat scan_digits_stop)

text \<open>Two printed numbers followed by a non-digit separator can be split uniquely.\<close>

lemma show_nat_sep_inject:
  assumes "show_nat m @ CHR ''_'' # xs = show_nat n @ CHR ''_'' # ys"
  shows "m = n \<and> xs = ys"
proof -
  have u: "\<not> is_digit (CHR ''_'')" by (simp add: is_digit_def)
  from assms have "scan_digits 0 (show_nat m @ CHR ''_'' # xs) = scan_digits 0 (show_nat n @ CHR ''_'' # ys)"
    by simp
  with u show ?thesis by (simp add: scan_show_rest)
qed

lemma digit_not_minus: "is_digit c \<Longrightarrow> c \<noteq> CHR ''-''"
  by (auto simp: is_digit_def)

lemma show_int_sep_inject:
  assumes "show_int m @ CHR ''_'' # xs = show_int n @ CHR ''_'' # ys"
  shows "m = n \<and> xs = ys"
proof -
  have hd: "hd (show_nat k @ zs) \<noteq> CHR ''-''" for k zs
    using show_nat_digits[of k] digit_not_minus[of "hd (show_nat k)"]
    by (simp add: hd_append hd_in_set)
  have ne: "show_nat k @ zs \<noteq> CHR ''-'' # ws" for k zs ws
    using hd[of k zs] by (metis list.sel(1))
  show ?thesis
  proof (cases "m < 0"; cases "n < 0")
    assume "m < 0" "n < 0"
    then show ?thesis using assms by (auto simp: show_int_def dest: show_nat_sep_inject)
  next
    assume "m < 0" "\<not> n < 0"
    then show ?thesis using assms ne[of "nat n" "CHR ''_'' # ys"]
      by (simp add: show_int_def) (metis)
  next
    assume "\<not> m < 0" "n < 0"
    then show ?thesis using assms ne[of "nat m" "CHR ''_'' # xs"] by (simp add: show_int_def)
  next
    assume "\<not> m < 0" "\<not> n < 0"
    then show ?thesis using assms by (auto simp: show_int_def dest: show_nat_sep_inject)
  qed
qed

lemma strtol_show:
  assumes "rest = [] \<or> \<not> is_digit (hd rest)" "n < 2 ^ 63"
  shows "strtol (show_nat n @ rest) = Some (int n, rest)"
proof -
  obtain c cs where c: "show_nat n = c # cs" by (meson neq_Nil_conv show_nat_nonempty)
  have d: "is_digit c" using show_nat_digits[of n] c by simp
  then have sp: "\<not> is_c_space c" "c \<noteq> CHR ''-''" "c \<noteq> CHR ''+''"
    by (auto simp: is_digit_def is_c_space_def)
  have "scan_digits 0 (c # cs @ rest) = (n, rest)"
    using scan_show_rest[OF assms(1), of n] by (simp add: c)
  then show ?thesis using d sp assms(2) by (simp add: strtol_def c)
qed

section \<open>Names of segments and sockets\<close>

text \<open>\<^verbatim>\<open>snprintf(buf, n, ...)\<close> keeps at most \<open>n - 1\<close> characters.\<close>

definition snprintf :: "nat \<Rightarrow> string \<Rightarrow> string" where
  "snprintf n s = take (n - 1) s"

lemma snprintf_id: "length s < n \<Longrightarrow> snprintf n s = s"
  by (simp add: snprintf_def)

definition make_segment_name :: "u64 \<Rightarrow> int \<Rightarrow> u32 \<Rightarrow> u64 \<Rightarrow> string" where
  "make_segment_name domain_id pid owner_id segment_id =
     snprintf 96 (''/ros2_uds_data_'' @ show_nat (unat domain_id) @ ''_'' @ show_int pid @ ''_'' @
       show_nat (unat owner_id) @ ''_'' @ show_nat (unat segment_id))"

definition tl_segment_name :: "u64 \<Rightarrow> int \<Rightarrow> u32 \<Rightarrow> u32 \<Rightarrow> string" where
  "tl_segment_name domain_id pid owner_counter time_component =
     snprintf 96 (''/ros2_uds_tl_'' @ show_nat (unat domain_id) @ ''_'' @ show_int pid @ ''_'' @
       show_nat (unat owner_counter) @ ''_'' @ show_hex (unat time_component))"

text \<open>
  The id recipe shared by segments and sockets: a process-wide counter in the upper half,
  16 bits of the steady clock (microseconds) in the lower half.
\<close>

definition time_component :: "u64 \<Rightarrow> u32" where
  "time_component now_us = ucast (now_us AND 0xFFFF)"

definition mix_owner_id :: "u32 \<Rightarrow> u64 \<Rightarrow> u32" where
  "mix_owner_id counter now_us = push_bit 16 counter OR time_component now_us"

definition make_socket_path :: "u64 \<Rightarrow> string \<Rightarrow> int \<Rightarrow> u32 \<Rightarrow> u64 \<Rightarrow> string" where
  "make_socket_path domain_id pfx pid counter now_us =
     snprintf 128 (''/tmp/ros2_uds/'' @ show_nat (unat domain_id) @ ''/'' @ pfx @ ''_'' @ show_int pid @
       ''_'' @ show_hex (unat (mix_owner_id counter now_us)) @ ''.sock'')"

lemma length_show_base: "2 \<le> b \<Longrightarrow> 0 < k \<Longrightarrow> n < b ^ k \<Longrightarrow> length (show_base b n) \<le> k"
proof (induction k arbitrary: n)
  case 0
  then show ?case by simp
next
  case (Suc k)
  show ?case
  proof (cases "n < b")
    case True
    then show ?thesis by (subst show_base.simps) simp
  next
    case False
    with Suc.prems have "0 < k" by (cases k) auto
    moreover have "n div b < b ^ k" using Suc.prems by (simp add: less_mult_imp_div_less mult.commute)
    ultimately have "length (show_base b (n div b)) \<le> k" using Suc.IH Suc.prems(1) by blast
    with False show ?thesis by (subst show_base.simps) simp
  qed
qed

lemmas length_show_nat = length_show_base[of 10, simplified]

lemma length_show_u64: "length (show_nat (unat (w :: u64))) \<le> 20"
proof (rule length_show_nat)
  show "unat w < 10 ^ 20" using unsigned_less[where ?'a=nat, of w] by simp
qed simp

lemma length_show_u32: "length (show_nat (unat (w :: u32))) \<le> 10"
proof (rule length_show_nat)
  show "unat w < 10 ^ 10" using unsigned_less[where ?'a=nat, of w] by simp
qed simp

lemma length_show_pid: "\<bar>pid\<bar> \<le> 2 ^ 31 \<Longrightarrow> length (show_int pid) \<le> 11"
proof -
  assume "\<bar>pid\<bar> \<le> 2 ^ 31"
  then have "nat pid < 10 ^ 10" "nat (- pid) < 10 ^ 10" by auto
  then have "length (show_nat (nat pid)) \<le> 10" "length (show_nat (nat (- pid))) \<le> 10"
    by (auto intro!: length_show_nat)
  then show ?thesis by (auto simp: show_int_def)
qed

text \<open>The 96-byte buffer never truncates a segment name.\<close>

lemma make_socket_path_short:
  assumes "\<bar>pid\<bar> \<le> 2 ^ 31" "length pfx \<le> 3"
  shows "length (make_socket_path d pfx pid c t) \<le> 107"
proof -
  have "length (show_hex (unat (mix_owner_id c t))) \<le> 8"
    by (rule length_show_base) (use unsigned_less[where ?'a=nat, of "mix_owner_id c t"] in simp_all)
  then show ?thesis
    using length_show_pid[OF assms(1)] length_show_u64[of d] assms(2) by (simp add: make_socket_path_def snprintf_def)
qed

lemma make_segment_name_full:
  assumes "\<bar>pid\<bar> \<le> 2 ^ 31"
  shows "make_segment_name d pid w s = ''/ros2_uds_data_'' @ show_nat (unat d) @ ''_'' @ show_int pid @
    ''_'' @ show_nat (unat w) @ ''_'' @ show_nat (unat s)"
  unfolding make_segment_name_def
  by (rule snprintf_id)
    (use length_show_pid[OF assms] length_show_u64[of d] length_show_u64[of s] length_show_u32[of w] in simp)

lemma make_segment_name_inject:
  assumes "\<bar>p\<bar> \<le> 2 ^ 31" "\<bar>p'\<bar> \<le> 2 ^ 31"
    and "make_segment_name d p w s = make_segment_name d' p' w' s'"
  shows "d = d' \<and> p = p' \<and> w = w' \<and> s = s'"
proof -
  have "show_nat (unat d) @ CHR ''_'' # (show_int p @ CHR ''_'' # (show_nat (unat w) @ CHR ''_'' # show_nat (unat s)))
      = show_nat (unat d') @ CHR ''_'' # (show_int p' @ CHR ''_'' # (show_nat (unat w') @ CHR ''_'' # show_nat (unat s')))"
    using assms(3) by (simp add: make_segment_name_full[OF assms(1)] make_segment_name_full[OF assms(2)])
  then have "unat d = unat d'"
    and r: "show_int p @ CHR ''_'' # (show_nat (unat w) @ CHR ''_'' # show_nat (unat s))
      = show_int p' @ CHR ''_'' # (show_nat (unat w') @ CHR ''_'' # show_nat (unat s'))"
    using show_nat_sep_inject by blast+
  moreover from r have "p = p'"
    and "show_nat (unat w) @ CHR ''_'' # show_nat (unat s) = show_nat (unat w') @ CHR ''_'' # show_nat (unat s')"
    using show_int_sep_inject by blast+
  moreover from this(2) have "unat w = unat w'" "show_nat (unat s) = show_nat (unat s')"
    using show_nat_sep_inject by blast+
  ultimately show ?thesis by (simp add: word_unat_eq_iff)
qed

section \<open>Start-up sweeps\<close>

text \<open>
  What \<^verbatim>\<open>stat("/proc/<pid>")\<close> can answer. The sweeps take the answer as a parameter; only
  \<^verbatim>\<open>ENOENT\<close> counts as dead.
\<close>

datatype proc_stat = Proc_present | Proc_enoent | Proc_other_error

definition pid_is_alive_or_unreachable :: "(int \<Rightarrow> proc_stat) \<Rightarrow> int \<Rightarrow> bool" where
  "pid_is_alive_or_unreachable proc pid =
     (if pid \<le> 0 then False
      else if proc pid = Proc_present then True
      else proc pid \<noteq> Proc_enoent)"

text \<open>The process id parsed at a name position: digits followed by an underscore, positive.\<close>

definition parse_owner_pid :: "string \<Rightarrow> int option" where
  "parse_owner_pid s =
     (case strtol s of
        None \<Rightarrow> None
      | Some (pid, rest) \<Rightarrow>
          if rest = [] \<or> hd rest \<noteq> CHR ''_'' \<or> pid \<le> 0 then None else Some pid)"

definition has_prefix :: "string \<Rightarrow> string \<Rightarrow> bool" where
  "has_prefix p s \<longleftrightarrow> take (length p) s = p"

definition segment_prefix_len :: "u64 \<Rightarrow> string \<Rightarrow> nat option" where
  "segment_prefix_len domain_id d_name =
     (let data_prefix = snprintf 64 (''ros2_uds_data_'' @ show_nat (unat domain_id) @ ''_'');
          tl_prefix = snprintf 64 (''ros2_uds_tl_'' @ show_nat (unat domain_id) @ ''_'')
      in if has_prefix data_prefix d_name then Some (length data_prefix)
         else if has_prefix tl_prefix d_name then Some (length tl_prefix)
         else None)"

text \<open>
  \<open>shm_cleanup_orphan_segments\<close>: given the entries of \<^verbatim>\<open>/dev/shm\<close> in directory order, the
  names passed to \<^verbatim>\<open>shm_unlink\<close>, in that order. \<open>None\<close> is a failed \<^verbatim>\<open>opendir\<close>.
\<close>

definition segment_orphan :: "u64 \<Rightarrow> (int \<Rightarrow> proc_stat) \<Rightarrow> string \<Rightarrow> bool" where
  "segment_orphan domain_id proc d_name =
     (case segment_prefix_len domain_id d_name of
        None \<Rightarrow> False
      | Some prefix_len \<Rightarrow>
          (case parse_owner_pid (drop prefix_len d_name) of
             None \<Rightarrow> False
           | Some pid \<Rightarrow> proc pid = Proc_enoent))"

definition shm_cleanup_orphan_segments ::
    "u64 \<Rightarrow> (int \<Rightarrow> proc_stat) \<Rightarrow> string list option \<Rightarrow> string list" where
  "shm_cleanup_orphan_segments domain_id proc dir =
     (case dir of
        None \<Rightarrow> []
      | Some entries \<Rightarrow> map (\<lambda>n. CHR ''/'' # n) (filter (segment_orphan domain_id proc) entries))"

definition socket_orphan :: "(int \<Rightarrow> proc_stat) \<Rightarrow> string \<Rightarrow> bool" where
  "socket_orphan proc d_name =
     (if d_name \<noteq> [] \<and> hd d_name = CHR ''.'' then False
      else case dropWhile (\<lambda>c. c \<noteq> CHR ''_'') d_name of
             [] \<Rightarrow> False
           | _ # pid_start \<Rightarrow>
               (case parse_owner_pid pid_start of
                  None \<Rightarrow> False
                | Some pid \<Rightarrow> proc pid = Proc_enoent))"

definition cleanup_orphan_socket_files ::
    "u64 \<Rightarrow> (int \<Rightarrow> proc_stat) \<Rightarrow> string list option \<Rightarrow> string list" where
  "cleanup_orphan_socket_files domain_id proc dir =
     (let dir_path = snprintf 128 (''/tmp/ros2_uds/'' @ show_nat (unat domain_id)) in
      case dir of
        None \<Rightarrow> []
      | Some entries \<Rightarrow>
          map (\<lambda>n. dir_path @ ''/'' @ n) (filter (socket_orphan proc) entries))"

lemma parse_owner_pid_show:
  assumes "0 < pid" "pid < 2 ^ 63"
  shows "parse_owner_pid (show_int pid @ CHR ''_'' # rest) = Some pid"
proof -
  have "strtol (show_nat (nat pid) @ CHR ''_'' # rest) = Some (int (nat pid), CHR ''_'' # rest)"
    by (rule strtol_show) (use assms in \<open>auto simp: is_digit_def\<close>)
  then show ?thesis using assms by (simp add: parse_owner_pid_def show_int_def)
qed

lemma has_prefix_append: "has_prefix p (p @ s)"
  by (simp add: has_prefix_def)

lemma has_prefix_split: "has_prefix p s \<Longrightarrow> \<exists>r. s = p @ r"
  by (metis append_take_drop_id has_prefix_def)

lemma segment_prefix_len_data:
  "segment_prefix_len d (''ros2_uds_data_'' @ show_nat (unat d') @ CHR ''_'' # rest)
    = (if d = d' then Some (15 + length (show_nat (unat d))) else None)"
proof -
  have l: "length (show_nat (unat d)) \<le> 20" by (rule length_show_u64)
  have data: "snprintf 64 (''ros2_uds_data_'' @ show_nat (unat d) @ ''_'') = ''ros2_uds_data_'' @ show_nat (unat d) @ ''_''"
    and tl: "snprintf 64 (''ros2_uds_tl_'' @ show_nat (unat d) @ ''_'') = ''ros2_uds_tl_'' @ show_nat (unat d) @ ''_''"
    by (intro snprintf_id; use l in simp)+
  have no: "d = d'" if "has_prefix (''ros2_uds_data_'' @ show_nat (unat d) @ ''_'') (''ros2_uds_data_'' @ show_nat (unat d') @ CHR ''_'' # rest)"
    using has_prefix_split[OF that] by (auto dest: show_nat_sep_inject simp: word_unat_eq_iff)
  show ?thesis
    unfolding segment_prefix_len_def Let_def data tl
  proof (cases "d = d'")
    case True
    have "has_prefix (''ros2_uds_data_'' @ show_nat (unat d') @ ''_'') (''ros2_uds_data_'' @ show_nat (unat d') @ CHR ''_'' # rest)"
      using has_prefix_append[of "''ros2_uds_data_'' @ show_nat (unat d') @ ''_''" rest] by simp
    then show "(if has_prefix (''ros2_uds_data_'' @ show_nat (unat d) @ ''_'') (''ros2_uds_data_'' @ show_nat (unat d') @ CHR ''_'' # rest)
        then Some (length (''ros2_uds_data_'' @ show_nat (unat d) @ ''_''))
        else if has_prefix (''ros2_uds_tl_'' @ show_nat (unat d) @ ''_'') (''ros2_uds_data_'' @ show_nat (unat d') @ CHR ''_'' # rest)
        then Some (length (''ros2_uds_tl_'' @ show_nat (unat d) @ ''_'')) else None)
        = (if d = d' then Some (15 + length (show_nat (unat d))) else None)"
      using True by simp
  next
    case False
    then have "\<not> has_prefix (''ros2_uds_data_'' @ show_nat (unat d) @ ''_'') (''ros2_uds_data_'' @ show_nat (unat d') @ CHR ''_'' # rest)"
      using no by blast
    moreover have "\<not> has_prefix (''ros2_uds_tl_'' @ show_nat (unat d) @ ''_'') (''ros2_uds_data_'' @ show_nat (unat d') @ CHR ''_'' # rest)"
      by (auto dest!: has_prefix_split)
    ultimately show "(if has_prefix (''ros2_uds_data_'' @ show_nat (unat d) @ ''_'') (''ros2_uds_data_'' @ show_nat (unat d') @ CHR ''_'' # rest)
        then Some (length (''ros2_uds_data_'' @ show_nat (unat d) @ ''_''))
        else if has_prefix (''ros2_uds_tl_'' @ show_nat (unat d) @ ''_'') (''ros2_uds_data_'' @ show_nat (unat d') @ CHR ''_'' # rest)
        then Some (length (''ros2_uds_tl_'' @ show_nat (unat d) @ ''_'')) else None)
        = (if d = d' then Some (15 + length (show_nat (unat d))) else None)"
      using False by simp
  qed
qed

lemma drop_all_prefix: "drop (length xs) (xs @ ys) = ys"
  by simp

lemma segment_orphan_name:
  assumes "0 < pid" "pid < 2 ^ 31"
  shows "segment_orphan d proc (tl (make_segment_name d' pid w s)) \<longleftrightarrow> d = d' \<and> proc pid = Proc_enoent"
proof -
  let ?rest = "show_int pid @ CHR ''_'' # show_nat (unat w) @ CHR ''_'' # show_nat (unat s)"
  have n: "tl (make_segment_name d' pid w s) = ''ros2_uds_data_'' @ show_nat (unat d') @ CHR ''_'' # ?rest"
    using assms by (simp add: make_segment_name_full)
  have "parse_owner_pid ?rest = Some pid"
    by (rule parse_owner_pid_show) (use assms in auto)
  moreover have "drop (15 + length (show_nat (unat d'))) (''ros2_uds_data_'' @ show_nat (unat d') @ CHR ''_'' # ?rest) = ?rest"
  proof -
    let ?X = "''ros2_uds_data_'' @ show_nat (unat d') @ ''_''"
    have "length ?X = 15 + length (show_nat (unat d'))" by simp
    moreover have "?X @ ?rest = ''ros2_uds_data_'' @ show_nat (unat d') @ CHR ''_'' # ?rest" by simp
    ultimately show ?thesis using drop_all_prefix[of ?X ?rest] by metis
  qed
  ultimately show ?thesis
    unfolding n segment_orphan_def segment_prefix_len_data by simp
qed

text \<open>
  C23: the start-up sweep of a domain unlinks a payload segment named by this program exactly
  when the segment belongs to that domain, is present in \<^verbatim>\<open>/dev/shm\<close>, and the process in its
  name has no \<^verbatim>\<open>/proc\<close> entry: a live publisher's segment is never removed, and neither is a
  segment of another domain.
\<close>

theorem segment_sweep_exact:
  assumes "0 < pid" "pid < 2 ^ 31"
  shows "make_segment_name d' pid w s \<in> set (shm_cleanup_orphan_segments d proc (Some entries)) \<longleftrightarrow>
    d' = d \<and> tl (make_segment_name d' pid w s) \<in> set entries \<and> proc pid = Proc_enoent"
proof -
  have c: "make_segment_name d' pid w s = CHR ''/'' # tl (make_segment_name d' pid w s)"
    using assms by (simp add: make_segment_name_full)
  have "make_segment_name d' pid w s \<in> set (shm_cleanup_orphan_segments d proc (Some entries)) \<longleftrightarrow>
      tl (make_segment_name d' pid w s) \<in> set entries \<and> segment_orphan d proc (tl (make_segment_name d' pid w s))"
    by (subst c) (auto simp: shm_cleanup_orphan_segments_def)
  then show ?thesis using segment_orphan_name[OF assms, of d proc d' w s] by auto
qed

theorem segment_sweep_exact_witness:
  "make_segment_name 0 4242 65537 1 \<in> set (shm_cleanup_orphan_segments 0 (\<lambda>_. Proc_enoent) (Some [tl (make_segment_name 0 4242 65537 1)]))
   \<and> make_segment_name 0 4242 65537 1 \<notin> set (shm_cleanup_orphan_segments 0 (\<lambda>_. Proc_present) (Some [tl (make_segment_name 0 4242 65537 1)]))"
  using segment_sweep_exact[of 4242] by simp

end
