(* ===== verification/Uds_Posix.thy ===== *)
theory Uds_Posix
  imports Uds_Names
begin

text \<open>
  What the middleware uses of POSIX shared memory: a namespace of segment names and the
  objects behind them. A mapping keeps its object alive and unchanged when the name is
  unlinked, which is why names and objects are separate. Calls that can fail for reasons
  outside the model (descriptor exhaustion, a full \<^verbatim>\<open>/dev/shm\<close>) take the outcome as a
  field of \<open>shm_env\<close>, so that every failure branch of the code is a branch of the model.
\<close>

record shm_object =
  ob_size :: nat
  ob_mem :: mem

record shm_fs =
  fs_names :: "string \<rightharpoonup> nat"
  fs_objs :: "nat \<Rightarrow> shm_object"
  fs_next :: nat

definition empty_object :: shm_object where
  "empty_object = \<lparr>ob_size = 0, ob_mem = (\<lambda>_. 0)\<rparr>"

definition empty_fs :: shm_fs where
  "empty_fs = \<lparr>fs_names = Map.empty, fs_objs = (\<lambda>_. empty_object), fs_next = 0\<rparr>"

text \<open>\<^verbatim>\<open>shm_open(O_CREAT | O_EXCL)\<close>: \<open>None\<close> is \<^verbatim>\<open>EEXIST\<close>.\<close>

definition shm_open_excl :: "shm_fs \<Rightarrow> string \<Rightarrow> (nat \<times> shm_fs) option" where
  "shm_open_excl fs name =
     (case fs_names fs name of
        Some _ \<Rightarrow> None
      | None \<Rightarrow> Some (fs_next fs,
          fs\<lparr>fs_names := (fs_names fs)(name \<mapsto> fs_next fs),
             fs_objs := (fs_objs fs)(fs_next fs := empty_object),
             fs_next := Suc (fs_next fs)\<rparr>))"

definition shm_unlink :: "shm_fs \<Rightarrow> string \<Rightarrow> shm_fs" where
  "shm_unlink fs name = fs\<lparr>fs_names := (fs_names fs)(name := None)\<rparr>"

text \<open>\<^verbatim>\<open>ftruncate\<close> and \<^verbatim>\<open>posix_fallocate\<close> grow an object with zero bytes.\<close>

definition obj_grow :: "shm_fs \<Rightarrow> nat \<Rightarrow> nat \<Rightarrow> shm_fs" where
  "obj_grow fs ob sz =
     fs\<lparr>fs_objs := (fs_objs fs)(ob := (fs_objs fs ob)\<lparr>ob_size := max sz (ob_size (fs_objs fs ob))\<rparr>)\<rparr>"

definition obj_map_mem :: "shm_fs \<Rightarrow> nat \<Rightarrow> (mem \<Rightarrow> mem) \<Rightarrow> shm_fs" where
  "obj_map_mem fs ob f =
     fs\<lparr>fs_objs := (fs_objs fs)(ob := (fs_objs fs ob)\<lparr>ob_mem := f (ob_mem (fs_objs fs ob))\<rparr>)\<rparr>"

definition obj_mem :: "shm_fs \<Rightarrow> nat \<Rightarrow> mem" where
  "obj_mem fs ob = ob_mem (fs_objs fs ob)"

definition obj_size :: "shm_fs \<Rightarrow> nat \<Rightarrow> nat" where
  "obj_size fs ob = ob_size (fs_objs fs ob)"

text \<open>Outcomes of the calls a segment creation makes.\<close>

record shm_env =
  se_force_fail :: bool   \<comment> \<open>the test seam \<^verbatim>\<open>RMW_UDS_TEST_FORCE_SHM_FAILURE\<close> reads "1"\<close>
  se_pid :: int           \<comment> \<open>\<^verbatim>\<open>getpid()\<close>\<close>
  se_now_us :: u64        \<comment> \<open>steady clock, microseconds\<close>
  se_page :: u64          \<comment> \<open>\<^verbatim>\<open>sysconf(_SC_PAGESIZE)\<close>\<close>
  se_open_err :: bool     \<comment> \<open>first \<^verbatim>\<open>shm_open\<close> fails, not with \<^verbatim>\<open>EEXIST\<close>\<close>
  se_reopen_err :: bool   \<comment> \<open>\<^verbatim>\<open>shm_open\<close> after the unlink fails\<close>
  se_alloc_ok :: bool     \<comment> \<open>\<^verbatim>\<open>posix_fallocate\<close> (or \<^verbatim>\<open>ftruncate\<close>) succeeds\<close>
  se_map_ok :: bool       \<comment> \<open>\<^verbatim>\<open>mmap\<close> succeeds\<close>

text \<open>
  The create-exclusive recipe used for every segment: on \<^verbatim>\<open>EEXIST\<close> the orphan is unlinked
  and the open retried once.
\<close>

definition open_fresh :: "shm_env \<Rightarrow> shm_fs \<Rightarrow> string \<Rightarrow> (nat option) \<times> shm_fs" where
  "open_fresh env fs name =
     (if se_open_err env then (None, fs)
      else case shm_open_excl fs name of
             Some (ob, fs') \<Rightarrow> (Some ob, fs')
           | None \<Rightarrow>
               (let fs1 = shm_unlink fs name in
                if se_reopen_err env then (None, fs1)
                else case shm_open_excl fs1 name of
                       Some (ob, fs') \<Rightarrow> (Some ob, fs')
                     | None \<Rightarrow> (None, fs1)))"

definition wf_fs :: "shm_fs \<Rightarrow> bool" where
  "wf_fs fs \<longleftrightarrow> (\<forall>n ob. fs_names fs n = Some ob \<longrightarrow> ob < fs_next fs)"

lemma obj_mem_map_mem [simp]:
  "obj_mem (obj_map_mem fs ob f) ob' = (if ob' = ob then f (obj_mem fs ob) else obj_mem fs ob')"
  by (simp add: obj_map_mem_def obj_mem_def)

lemma obj_size_map_mem [simp]: "obj_size (obj_map_mem fs ob f) ob' = obj_size fs ob'"
  by (simp add: obj_map_mem_def obj_size_def)

lemma fs_names_map_mem [simp]: "fs_names (obj_map_mem fs ob f) = fs_names fs"
  by (simp add: obj_map_mem_def)

lemma fs_next_map_mem [simp]: "fs_next (obj_map_mem fs ob f) = fs_next fs"
  by (simp add: obj_map_mem_def)

lemma obj_mem_grow [simp]: "obj_mem (obj_grow fs ob sz) ob' = obj_mem fs ob'"
  by (simp add: obj_grow_def obj_mem_def)

lemma obj_size_grow [simp]:
  "obj_size (obj_grow fs ob sz) ob' = (if ob' = ob then max sz (obj_size fs ob) else obj_size fs ob')"
  by (simp add: obj_grow_def obj_size_def)

lemma fs_names_grow [simp]: "fs_names (obj_grow fs ob sz) = fs_names fs"
  by (simp add: obj_grow_def)

lemma fs_next_grow [simp]: "fs_next (obj_grow fs ob sz) = fs_next fs"
  by (simp add: obj_grow_def)

lemma obj_mem_unlink [simp]: "obj_mem (shm_unlink fs n) ob = obj_mem fs ob"
  by (simp add: shm_unlink_def obj_mem_def)

lemma obj_size_unlink [simp]: "obj_size (shm_unlink fs n) ob = obj_size fs ob"
  by (simp add: shm_unlink_def obj_size_def)

lemma fs_next_unlink [simp]: "fs_next (shm_unlink fs n) = fs_next fs"
  by (simp add: shm_unlink_def)

lemma fs_names_unlink [simp]: "fs_names (shm_unlink fs n) = (fs_names fs)(n := None)"
  by (simp add: shm_unlink_def)

lemma open_fresh_Some:
  assumes "open_fresh env fs name = (Some ob, fs')"
  shows "ob = fs_next fs" "fs_next fs' = Suc (fs_next fs)" "fs_names fs' = (fs_names fs)(name \<mapsto> fs_next fs)"
    "obj_mem fs' ob = (\<lambda>_. 0)" "obj_size fs' ob = 0"
    "ob' \<noteq> fs_next fs \<Longrightarrow> obj_mem fs' ob' = obj_mem fs ob'"
    "ob' \<noteq> fs_next fs \<Longrightarrow> obj_size fs' ob' = obj_size fs ob'"
  using assms
  by (auto simp: open_fresh_def shm_open_excl_def shm_unlink_def obj_mem_def obj_size_def
      empty_object_def Let_def split: if_splits option.splits)

lemma open_fresh_frame:
  assumes "open_fresh env fs name = (r, fs')" "ob' < fs_next fs"
  shows "obj_mem fs' ob' = obj_mem fs ob'" "obj_size fs' ob' = obj_size fs ob'" "fs_next fs \<le> fs_next fs'"
  using assms
  by (auto simp: open_fresh_def shm_open_excl_def shm_unlink_def obj_mem_def obj_size_def
      Let_def split: if_splits option.splits)

lemma wf_open_fresh:
  assumes "open_fresh env fs name = (r, fs')" "wf_fs fs"
  shows "wf_fs fs'"
  using assms
  by (fastforce simp: open_fresh_def shm_open_excl_def shm_unlink_def wf_fs_def less_Suc_eq
      Let_def split: if_splits option.splits)

lemma wf_unlink: "wf_fs fs \<Longrightarrow> wf_fs (shm_unlink fs n)"
  by (auto simp: wf_fs_def shm_unlink_def)

lemma wf_map_mem [simp]: "wf_fs (obj_map_mem fs ob f) = wf_fs fs"
  by (simp add: wf_fs_def obj_map_mem_def)

lemma wf_grow [simp]: "wf_fs (obj_grow fs ob sz) = wf_fs fs"
  by (simp add: wf_fs_def obj_grow_def)

section \<open>The namespace as an interface\<close>

text \<open>
  What the segment code relies on: after a fresh creation the name resolves to a new
  object, an unlink removes just the name, and neither touches the contents of an object
  that a process may have mapped.
\<close>

locale shm_namespace =
  fixes lookup :: "'fs \<Rightarrow> string \<Rightarrow> nat option"
    and contents :: "'fs \<Rightarrow> nat \<Rightarrow> mem"
    and live :: "'fs \<Rightarrow> nat \<Rightarrow> bool"
    and fresh :: "'fs \<Rightarrow> string \<Rightarrow> (nat \<times> 'fs) option"
    and unlink :: "'fs \<Rightarrow> string \<Rightarrow> 'fs"
  assumes fresh_lookup: "fresh fs n = Some (ob, fs') \<Longrightarrow> lookup fs' n = Some ob"
    and fresh_other: "fresh fs n = Some (ob, fs') \<Longrightarrow> n' \<noteq> n \<Longrightarrow> lookup fs' n' = lookup fs n'"
    and fresh_new: "fresh fs n = Some (ob, fs') \<Longrightarrow> \<not> live fs ob"
    and fresh_frame: "fresh fs n = Some (ob, fs') \<Longrightarrow> live fs o' \<Longrightarrow> contents fs' o' = contents fs o' \<and> live fs' o'"
    and unlink_lookup: "lookup (unlink fs n) n = None"
    and unlink_other: "n' \<noteq> n \<Longrightarrow> lookup (unlink fs n) n' = lookup fs n'"
    and unlink_frame: "contents (unlink fs n) o' = contents fs o'"
    and unlink_live: "live (unlink fs n) o' = live fs o'"
begin

text \<open>
  Replacing a segment: the new one is created first, then the old name goes away. A reader
  that mapped the old object keeps its contents; a reader that resolves the names finds
  the new object only.
\<close>

lemma replace_segment:
  assumes "fresh fs n = Some (ob, fs')" "n \<noteq> old" "live fs o'"
  shows "contents (unlink fs' old) o' = contents fs o'"
    "lookup (unlink fs' old) n = Some ob" "lookup (unlink fs' old) old = None" "o' \<noteq> ob"
  using assms fresh_lookup fresh_frame fresh_new unlink_lookup unlink_other unlink_frame by metis+

end

interpretation posix_shm: shm_namespace
  fs_names obj_mem "\<lambda>fs ob. ob < fs_next fs" shm_open_excl shm_unlink
  by unfold_locales
    (auto simp: shm_open_excl_def obj_mem_def shm_unlink_def split: option.splits)

end
