(* ===== verification/Uds_Wire.thy ===== *)
theory Uds_Wire
  imports Uds_Prelude
begin

text \<open>
  The data that crosses process boundaries (\<^verbatim>\<open>types.hpp\<close>, \<^verbatim>\<open>shm_transport.hpp\<close>): global
  entity ids, the 37-byte datagram header, the 32-byte shared-memory descriptor, and the
  ROS type name derived from a type support. Signed 64-bit fields are kept as their bit
  pattern and read with \<open>sint\<close> where the code compares them.
\<close>

section \<open>Entity ids\<close>

type_synonym gid = bytes

text \<open>
  \<^verbatim>\<open>UdsGid::generate\<close>: process id, process-wide counter (post-incremented), context id.
  The counter is the state passed through.
\<close>

definition gid_generate :: "u32 \<Rightarrow> u64 \<Rightarrow> u32 \<Rightarrow> gid \<times> u32" where
  "gid_generate pid context_id counter =
     (enc32 pid @ enc32 counter @ enc64 context_id, counter + 1)"

definition generate_context_id :: "u32 \<Rightarrow> u32 \<Rightarrow> u64" where
  "generate_context_id rd1 rd2 =
     (let hi = ucast rd1 :: u64; lo = ucast rd2 in push_bit 32 hi OR lo)"

definition next_entity_uid :: "u64 \<Rightarrow> u64 \<times> u64" where
  "next_entity_uid counter = (counter, counter + 1)"

lemma length_gid_generate [simp]: "length (fst (gid_generate p c n)) = 16"
  by (simp add: gid_generate_def)

lemma gid_generate_inject:
  "fst (gid_generate p c n) = fst (gid_generate p' c' n') \<longleftrightarrow> p = p' \<and> c = c' \<and> n = n'"
  by (auto simp: gid_generate_def)

section \<open>Message kinds\<close>

definition SHM_PAYLOAD_FLAG :: u8 where "SHM_PAYLOAD_FLAG = 0x80"
definition MSG_TOPIC :: u8 where "MSG_TOPIC = 0"
definition MSG_REQUEST :: u8 where "MSG_REQUEST = 1"
definition MSG_RESPONSE :: u8 where "MSG_RESPONSE = 2"

declare SHM_PAYLOAD_FLAG_def [uds_defs] MSG_TOPIC_def [uds_defs]
  MSG_REQUEST_def [uds_defs] MSG_RESPONSE_def [uds_defs]

section \<open>Wire header\<close>

record wire_header =
  wh_gid :: gid
  wh_sequence_number :: u64
  wh_source_timestamp :: u64
  wh_payload_size :: u32
  wh_msg_type :: u8

definition sizeof_WireHeader :: nat where "sizeof_WireHeader = 37"

definition header_bytes :: "wire_header \<Rightarrow> bytes" where
  "header_bytes h = wh_gid h @ enc64 (wh_sequence_number h) @ enc64 (wh_source_timestamp h) @
     enc32 (wh_payload_size h) @ [wh_msg_type h]"

definition parse_header :: "bytes \<Rightarrow> wire_header" where
  "parse_header bs =
     \<lparr>wh_gid = take 16 bs,
      wh_sequence_number = dec64 (take 8 (drop 16 bs)),
      wh_source_timestamp = dec64 (take 8 (drop 24 bs)),
      wh_payload_size = dec32 (take 4 (drop 32 bs)),
      wh_msg_type = bs ! 36\<rparr>"

definition wf_header :: "wire_header \<Rightarrow> bool" where
  "wf_header h \<longleftrightarrow> length (wh_gid h) = 16"

lemma length_header_bytes: "wf_header h \<Longrightarrow> length (header_bytes h) = sizeof_WireHeader"
  by (simp add: wf_header_def header_bytes_def sizeof_WireHeader_def)

lemma parse_header_bytes: "wf_header h \<Longrightarrow> parse_header (header_bytes h @ rest) = h"
  by (simp add: wf_header_def parse_header_def header_bytes_def nth_append)

lemma wf_parse_header: "37 \<le> length bs \<Longrightarrow> wf_header (parse_header bs)"
  by (simp add: wf_header_def parse_header_def)

lemma header_bytes_parse:
  assumes "length bs = 37"
  shows "header_bytes (parse_header bs) = bs"
proof -
  have "take 36 bs = take 16 bs @ take 8 (drop 16 bs) @ take 8 (drop 24 bs) @ take 4 (drop 32 bs)"
    using take_add[of 16 8 bs] take_add[of 24 8 bs] take_add[of 32 4 bs] by simp
  moreover have "bs = take 36 bs @ [bs ! 36]"
    using id_take_nth_drop[of 36 bs] assms by simp
  ultimately have "take 16 bs @ take 8 (drop 16 bs) @ take 8 (drop 24 bs) @ take 4 (drop 32 bs) @ [bs ! 36] = bs"
    by (metis append_assoc)
  then show ?thesis
    using assms by (simp add: header_bytes_def parse_header_def enc64_dec64 enc32_dec32)
qed

text \<open>\<^verbatim>\<open>is_same_context\<close>: the trailing eight bytes of the sender's GID against the context id.\<close>

definition is_same_context :: "wire_header \<Rightarrow> u64 \<Rightarrow> bool" where
  "is_same_context h context_id \<longleftrightarrow> dec64 (take 8 (drop 8 (wh_gid h))) = context_id"

section \<open>Shared-memory descriptor\<close>

record shm_desc =
  d_segment_id :: u64
  d_offset :: u64
  d_seq :: u32
  d_payload_size :: u32
  d_owner_pid :: u32
  d_owner_id :: u32

definition sizeof_desc :: nat where "sizeof_desc = 32"

definition desc_bytes :: "shm_desc \<Rightarrow> bytes" where
  "desc_bytes d = enc64 (d_segment_id d) @ enc64 (d_offset d) @ enc32 (d_seq d) @
     enc32 (d_payload_size d) @ enc32 (d_owner_pid d) @ enc32 (d_owner_id d)"

definition parse_desc :: "bytes \<Rightarrow> shm_desc" where
  "parse_desc bs =
     \<lparr>d_segment_id = dec64 (take 8 bs),
      d_offset = dec64 (take 8 (drop 8 bs)),
      d_seq = dec32 (take 4 (drop 16 bs)),
      d_payload_size = dec32 (take 4 (drop 20 bs)),
      d_owner_pid = dec32 (take 4 (drop 24 bs)),
      d_owner_id = dec32 (take 4 (drop 28 bs))\<rparr>"

lemma length_desc_bytes [simp]: "length (desc_bytes d) = 32"
  by (simp add: desc_bytes_def)

lemma parse_desc_bytes [simp]: "parse_desc (desc_bytes d) = d"
  by (simp add: parse_desc_def desc_bytes_def)

section \<open>Received messages\<close>

record received_message =
  rm_header :: wire_header
  rm_payload :: bytes
  rm_received_timestamp :: u64

text \<open>
  The datagram layout round-trips. A well-formed header written in front of any payload
  is read back field by field, it occupies exactly 37 bytes, and every 37-byte prefix a
  receiver can hold re-encodes to itself, so no two headers share an encoding.
\<close>

theorem wire_header_roundtrip:
  assumes "wf_header h" "length bs = 37"
  shows "parse_header (header_bytes h @ payload) = h \<and> length (header_bytes h) = 37 \<and>
    header_bytes (parse_header bs) = bs"
  using assms by (auto simp: parse_header_bytes length_header_bytes header_bytes_parse
      sizeof_WireHeader_def)

theorem wire_header_roundtrip_witness:
  "parse_header (header_bytes \<lparr>wh_gid = replicate 16 7, wh_sequence_number = 5, wh_source_timestamp = 9,
     wh_payload_size = 2, wh_msg_type = 1\<rparr> @ [1, 2]) = \<lparr>wh_gid = replicate 16 7, wh_sequence_number = 5,
     wh_source_timestamp = 9, wh_payload_size = 2, wh_msg_type = 1\<rparr>"
proof -
  let ?h = "\<lparr>wh_gid = replicate 16 7, wh_sequence_number = 5, wh_source_timestamp = 9,
     wh_payload_size = 2, wh_msg_type = 1\<rparr>"
  have w: "wf_header ?h" by (simp add: wf_header_def)
  have l: "length (replicate 37 (0 :: byte)) = 37" by simp
  show ?thesis by (rule conjunct1[OF wire_header_roundtrip[OF w l]])
qed

text \<open>
  Same-context filtering is exact. A header stamped with a GID generated under context
  \<open>c'\<close> is judged local to context \<open>c\<close> if and only if \<open>c = c'\<close>, whatever the process id and
  counter; and two generations agree only when process, context and counter all agree.
\<close>

theorem same_context_exact:
  "(is_same_context (h\<lparr>wh_gid := fst (gid_generate pid c' n)\<rparr>) c \<longleftrightarrow> c = c') \<and>
   (fst (gid_generate pid c n) = fst (gid_generate pid' c' n') \<longleftrightarrow> pid = pid' \<and> c = c' \<and> n = n')"
  by (auto simp: is_same_context_def gid_generate_def)

section \<open>ROS type names\<close>

text \<open>
  The two replacement loops of \<^verbatim>\<open>make_ros_type_name\<close>: every non-overlapping pair of the
  separator character becomes one slash, left to right.
\<close>

fun replace_pairs :: "char \<Rightarrow> string \<Rightarrow> string" where
  "replace_pairs c (x # y # zs) =
     (if x = c \<and> y = c then CHR ''/'' # replace_pairs c zs else x # replace_pairs c (y # zs))"
| "replace_pairs c xs = xs"

definition make_ros_type_name :: "string \<Rightarrow> string \<Rightarrow> string" where
  "make_ros_type_name ns name =
     replace_pairs (CHR ''_'') (replace_pairs (CHR '':'') ns) @ ''/'' @ name"

fun has_pair :: "char \<Rightarrow> string \<Rightarrow> bool" where
  "has_pair c (x # y # zs) = (x = c \<and> y = c \<or> has_pair c (y # zs))"
| "has_pair c xs = False"

lemma replace_pairs_no_pair: "\<not> has_pair c s \<Longrightarrow> replace_pairs c s = s"
  by (induction c s rule: replace_pairs.induct) auto

lemma has_pair_no_char: "c \<notin> set s \<Longrightarrow> \<not> has_pair c s"
  by (induction c s rule: has_pair.induct) auto

lemma replace_pairs_split:
  "\<not> has_pair c p \<Longrightarrow> (p = [] \<or> last p \<noteq> c) \<Longrightarrow>
     replace_pairs c (p @ c # c # s) = p @ CHR ''/'' # replace_pairs c s"
proof (induction p)
  case Nil
  then show ?case by simp
next
  case (Cons x p)
  then show ?case by (cases p) auto
qed

lemma replace_pairs_cons: "x \<noteq> c \<Longrightarrow> replace_pairs c (x # xs) = x # replace_pairs c xs"
  by (cases xs) auto

lemma replace_pairs_append_other:
  "\<not> has_pair c p \<Longrightarrow> x \<noteq> c \<Longrightarrow> replace_pairs c (p @ x # s) = p @ x # replace_pairs c s"
proof (induction p)
  case Nil
  then show ?case by (simp add: replace_pairs_cons)
next
  case (Cons y p)
  then show ?case by (cases p) (auto simp: replace_pairs_cons)
qed

lemma type_name_both:
  assumes "CHR '':'' \<notin> set p" "CHR '':'' \<notin> set m"
    and "\<not> has_pair (CHR ''_'') p" "\<not> has_pair (CHR ''_'') m"
    and "p = [] \<or> last p \<noteq> CHR ''_''"
  shows "make_ros_type_name (p @ ''::'' @ m) name = p @ ''/'' @ m @ ''/'' @ name"
    "make_ros_type_name (p @ ''__'' @ m) name = p @ ''/'' @ m @ ''/'' @ name"
proof -
  have np: "\<not> has_pair (CHR '':'') p" "\<not> has_pair (CHR '':'') m"
    using assms(1,2) has_pair_no_char by blast+
  have lp: "p = [] \<or> last p \<noteq> CHR '':''" using assms(1) by (metis last_in_set)
  have "replace_pairs (CHR '':'') (p @ ''::'' @ m) = p @ ''/'' @ m"
    using replace_pairs_split[OF np(1) lp, of m] replace_pairs_no_pair[OF np(2)] by simp
  moreover have "replace_pairs (CHR ''_'') (p @ ''/'' @ m) = p @ ''/'' @ m"
    using replace_pairs_append_other[OF assms(3), of "CHR ''/''" m] replace_pairs_no_pair[OF assms(4)]
    by simp
  ultimately show "make_ros_type_name (p @ ''::'' @ m) name = p @ ''/'' @ m @ ''/'' @ name"
    by (simp add: make_ros_type_name_def)
  have "CHR '':'' \<notin> set (p @ ''__'' @ m)" using assms(1,2) by auto
  then have "replace_pairs (CHR '':'') (p @ ''__'' @ m) = p @ ''__'' @ m"
    using replace_pairs_no_pair has_pair_no_char by blast
  moreover have "replace_pairs (CHR ''_'') (p @ ''__'' @ m) = p @ ''/'' @ m"
    using replace_pairs_split[OF assms(3,5), of m] replace_pairs_no_pair[OF assms(4)] by simp
  ultimately show "make_ros_type_name (p @ ''__'' @ m) name = p @ ''/'' @ m @ ''/'' @ name"
    by (simp add: make_ros_type_name_def)
qed

text \<open>
  The C and the C++ type supports of one message give the same ROS type name, so a
  publisher using one and a subscription using the other agree: for a package \<open>p\<close> and
  a subfolder \<open>m\<close> without separators of their own, both \<open>p::m\<close> and \<open>p__m\<close> become
  \<open>p/m/Name\<close>.
\<close>

theorem ros_type_name_c_cpp_agree:
  assumes "CHR '':'' \<notin> set p" "CHR '':'' \<notin> set m"
    and "\<not> has_pair (CHR ''_'') p" "\<not> has_pair (CHR ''_'') m"
    and "p = [] \<or> last p \<noteq> CHR ''_''"
  shows "make_ros_type_name (p @ ''::'' @ m) name = p @ ''/'' @ m @ ''/'' @ name \<and>
    make_ros_type_name (p @ ''__'' @ m) name = p @ ''/'' @ m @ ''/'' @ name"
  using type_name_both[OF assms] by blast

theorem ros_type_name_c_cpp_agree_witness:
  "make_ros_type_name ''std_msgs::msg'' ''String'' = ''std_msgs/msg/String'' \<and>
   make_ros_type_name ''std_msgs__msg'' ''String'' = ''std_msgs/msg/String''"
  using ros_type_name_c_cpp_agree[of "''std_msgs''" "''msg''" "''String''"] by simp

end
