(* ===== verification/Uds_Shm_Ring.thy ===== *)
theory Uds_Shm_Ring
  imports Uds_Posix Uds_Wire
begin

text \<open>
  The shared-memory payload path (\<^verbatim>\<open>shm_transport.cpp\<close>): a sender stages a payload in its
  own ring segment under a per-record sequence lock and sends a 32-byte descriptor; a
  receiver maps the segment, bounds-checks the descriptor and copies the record out under
  the same lock. Segment contents are modelled byte for byte, with the header and record
  layouts of the source; sizes are natural numbers where the 32-bit payload limit keeps
  every \<^verbatim>\<open>size_t\<close> sum far below 2^64, sequence numbers are 32-bit words that wrap.
\<close>

section \<open>Layout constants\<close>

definition SHM_PAYLOAD_THRESHOLD :: nat where "SHM_PAYLOAD_THRESHOLD = 64 * 1024"
definition SHM_RING_MIN_BYTES :: nat where "SHM_RING_MIN_BYTES = 1 * 1024 * 1024"
definition SHM_RING_MAGIC :: u32 where "SHM_RING_MAGIC = 0x52534455"
definition SHM_RING_VERSION :: u32 where "SHM_RING_VERSION = 1"
definition SHM_RECORD_ALIGN :: nat where "SHM_RECORD_ALIGN = 64"
definition sizeof_ShmRingHeader :: nat where "sizeof_ShmRingHeader = 16"
definition sizeof_ShmRecordHeader :: nat where "sizeof_ShmRecordHeader = 8"
definition UINT32_MAX :: nat where "UINT32_MAX = 2 ^ 32 - 1"

declare SHM_RECORD_ALIGN_def [uds_defs] sizeof_ShmRingHeader_def [uds_defs]
  sizeof_ShmRecordHeader_def [uds_defs] SHM_RING_MIN_BYTES_def [uds_defs] UINT32_MAX_def [uds_defs]

definition align_n :: "nat \<Rightarrow> nat \<Rightarrow> nat" where
  "align_n v a = unat (align_up (of_nat v) (of_nat a))"

definition record_bytes :: "nat \<Rightarrow> nat" where
  "record_bytes payload_size = align_n (sizeof_ShmRecordHeader + payload_size) SHM_RECORD_ALIGN"

section \<open>Writer\<close>

record ring_writer =
  rw_base :: "nat option"     \<comment> \<open>the mapped object; \<^verbatim>\<open>fd\<close> and \<^verbatim>\<open>base\<close> always go together\<close>
  rw_ring_bytes :: nat
  rw_segment_id :: u64
  rw_next_offset :: nat
  rw_next_index :: u32
  rw_owner_pid :: int
  rw_owner_id :: u32
  rw_shm_name :: string
  rw_reserved_cap :: nat

definition new_ring_writer :: ring_writer where
  "new_ring_writer = \<lparr>rw_base = None, rw_ring_bytes = 0, rw_segment_id = 0, rw_next_offset = 0,
     rw_next_index = 1, rw_owner_pid = -1, rw_owner_id = 0, rw_shm_name = [], rw_reserved_cap = 0\<rparr>"

definition shm_writer_close :: "shm_fs \<Rightarrow> ring_writer \<Rightarrow> shm_fs \<times> ring_writer" where
  "shm_writer_close fs ring =
     ((if rw_shm_name ring \<noteq> [] then shm_unlink fs (rw_shm_name ring) else fs),
      ring\<lparr>rw_base := None, rw_shm_name := [], rw_ring_bytes := 0, rw_next_offset := 0\<rparr>)"

definition write_ring_header :: "nat \<Rightarrow> mem \<Rightarrow> mem" where
  "write_ring_header area m =
     mem_write64 (mem_write32 (mem_write32 m 0 SHM_RING_MAGIC) 4 SHM_RING_VERSION) 8 (of_nat area)"

definition assign_owner :: "shm_env \<Rightarrow> u32 \<Rightarrow> ring_writer \<Rightarrow> u32 \<times> ring_writer" where
  "assign_owner env ctr ring =
     (if rw_owner_pid ring < 0
      then (ctr + 1, ring\<lparr>rw_owner_pid := se_pid env, rw_owner_id := mix_owner_id ctr (se_now_us env)\<rparr>)
      else (ctr, ring))"

text \<open>\<open>create_segment\<close>: success flag, namespace, owner counter, writer.\<close>

definition create_segment ::
    "shm_env \<Rightarrow> u64 \<Rightarrow> nat \<Rightarrow> shm_fs \<Rightarrow> u32 \<Rightarrow> ring_writer \<Rightarrow> bool \<times> shm_fs \<times> u32 \<times> ring_writer" where
  "create_segment env domain_id area fs ctr ring0 =
     (let (ctr', ring) = assign_owner env ctr ring0;
          new_segment_id = rw_segment_id ring + 1;
          name = make_segment_name domain_id (rw_owner_pid ring) (rw_owner_id ring) new_segment_id
      in case open_fresh env fs name of
           (None, fs1) \<Rightarrow> (False, fs1, ctr', ring)
         | (Some ob, fs1) \<Rightarrow>
             (let total = sizeof_ShmRingHeader + area in
              if \<not> se_alloc_ok env then (False, shm_unlink fs1 name, ctr', ring)
              else if \<not> se_map_ok env then (False, shm_unlink (obj_grow fs1 ob total) name, ctr', ring)
              else (let (fs2, ring1) = shm_writer_close (obj_grow fs1 ob total) ring;
                        fs3 = obj_map_mem fs2 ob (write_ring_header area)
                    in (True, fs3, ctr',
                        ring1\<lparr>rw_base := Some ob, rw_ring_bytes := area, rw_segment_id := new_segment_id,
                              rw_next_offset := 0, rw_shm_name := name\<rparr>))))"

text \<open>
  \<open>shm_stage_reserve\<close>: \<open>None\<close> is the null pointer; otherwise the offset of the payload area
  inside the mapped object. The record's sequence lock is odd afterwards.
\<close>

definition grow_if_needed ::
    "shm_env \<Rightarrow> u64 \<Rightarrow> nat \<Rightarrow> shm_fs \<Rightarrow> u32 \<Rightarrow> ring_writer \<Rightarrow> bool \<times> shm_fs \<times> u32 \<times> ring_writer" where
  "grow_if_needed env domain_id rec_bytes fs ctr ring =
     (if rw_base ring = None \<or> rec_bytes * 4 > rw_ring_bytes ring
      then (let area = (if rec_bytes * 4 < SHM_RING_MIN_BYTES then SHM_RING_MIN_BYTES else rec_bytes * 4)
            in create_segment env domain_id (align_n area (unat (se_page env))) fs ctr ring)
      else (True, fs, ctr, ring))"

definition shm_stage_reserve ::
    "shm_env \<Rightarrow> u64 \<Rightarrow> nat \<Rightarrow> shm_fs \<Rightarrow> u32 \<Rightarrow> ring_writer \<Rightarrow> nat option \<times> shm_fs \<times> u32 \<times> ring_writer" where
  "shm_stage_reserve env domain_id max_payload_size fs0 ctr0 ring0 =
     (if max_payload_size > UINT32_MAX then (None, fs0, ctr0, ring0)
      else if se_force_fail env then (None, fs0, ctr0, ring0)
      else (let rec_bytes = record_bytes max_payload_size in
            case grow_if_needed env domain_id rec_bytes fs0 ctr0 ring0 of
              (ok, fs, ctr, ring) \<Rightarrow>
                (if \<not> ok then (None, fs, ctr, ring)
                 else (let ring1 = (if rw_next_offset ring + rec_bytes > rw_ring_bytes ring
                                    then ring\<lparr>rw_next_offset := 0\<rparr> else ring);
                           rec = sizeof_ShmRingHeader + rw_next_offset ring1
                       in case rw_base ring1 of
                            None \<Rightarrow> (None, fs, ctr, ring1)
                          | Some ob \<Rightarrow>
                              (Some (rec + sizeof_ShmRecordHeader),
                               obj_map_mem fs ob (\<lambda>m. mem_write32 m rec (rw_next_index ring1 * 2 - 1)),
                               ctr, ring1\<lparr>rw_reserved_cap := max_payload_size\<rparr>)))))"

definition shm_stage_abort :: "ring_writer \<Rightarrow> ring_writer" where
  "shm_stage_abort ring = ring\<lparr>rw_reserved_cap := 0\<rparr>"

text \<open>
  \<open>shm_stage_commit\<close>: \<open>None\<close> when the writer overran its reservation (the record stays odd),
  otherwise the descriptor.
\<close>

definition shm_stage_commit :: "nat \<Rightarrow> shm_fs \<Rightarrow> ring_writer \<Rightarrow> shm_desc option \<times> shm_fs \<times> ring_writer" where
  "shm_stage_commit payload_size fs ring =
     (if payload_size > rw_reserved_cap ring then (None, fs, shm_stage_abort ring)
      else case rw_base ring of
        None \<Rightarrow> (None, fs, ring)
      | Some ob \<Rightarrow>
          (let rec = sizeof_ShmRingHeader + rw_next_offset ring;
               seq_stable = rw_next_index ring * 2;
               fs1 = obj_map_mem fs ob (\<lambda>m. mem_write32 m (rec + 4) (of_nat payload_size));
               fs2 = obj_map_mem fs1 ob (\<lambda>m. mem_write32 m rec seq_stable)
           in (Some \<lparr>d_segment_id = rw_segment_id ring, d_offset = of_nat (rw_next_offset ring),
                     d_seq = seq_stable, d_payload_size = of_nat payload_size,
                     d_owner_pid = of_int (rw_owner_pid ring), d_owner_id = rw_owner_id ring\<rparr>,
               fs2,
               ring\<lparr>rw_reserved_cap := 0, rw_next_offset := rw_next_offset ring + record_bytes payload_size,
                    rw_next_index := rw_next_index ring + 1\<rparr>)))"

text \<open>\<open>shm_stage_payload\<close>: reserve, copy, commit.\<close>

definition shm_stage_payload ::
    "shm_env \<Rightarrow> u64 \<Rightarrow> bytes \<Rightarrow> shm_fs \<Rightarrow> u32 \<Rightarrow> ring_writer \<Rightarrow> shm_desc option \<times> shm_fs \<times> u32 \<times> ring_writer" where
  "shm_stage_payload env domain_id payload fs0 ctr0 ring0 =
     (case shm_stage_reserve env domain_id (length payload) fs0 ctr0 ring0 of
        (None, fs, ctr, ring) \<Rightarrow> (None, fs, ctr, ring)
      | (Some dst, fs, ctr, ring) \<Rightarrow>
          (let fs1 = (case rw_base ring of None \<Rightarrow> fs
                      | Some ob \<Rightarrow> obj_map_mem fs ob (\<lambda>m. mem_write m dst payload));
               (d, fs2, ring2) = shm_stage_commit (length payload) fs1 ring
           in (d, fs2, ctr, ring2)))"

section \<open>Reader\<close>

record shm_key =
  k_owner_pid :: u32
  k_owner_id :: u32
  k_segment_id :: u64

record shm_mapping =
  mp_base :: nat
  mp_size :: nat
  mp_ring_bytes :: nat
  mp_shm_name :: string

text \<open>The reader cache: an association list stands for the unordered map (keys are distinct).\<close>

type_synonym reader_cache = "(shm_key \<times> shm_mapping) list"

record reader_env =
  re_open_err :: bool     \<comment> \<open>\<^verbatim>\<open>shm_open\<close> fails although the name exists\<close>
  re_stat_err :: bool
  re_map_ok :: bool

definition desc_key :: "shm_desc \<Rightarrow> shm_key" where
  "desc_key d = \<lparr>k_owner_pid = d_owner_pid d, k_owner_id = d_owner_id d, k_segment_id = d_segment_id d\<rparr>"

text \<open>The liveness sweep: mappings whose name is gone are dropped once eight have accumulated.\<close>

definition sweep_stale :: "shm_fs \<Rightarrow> reader_cache \<Rightarrow> reader_cache" where
  "sweep_stale fs cache =
     (if 8 \<le> length cache then filter (\<lambda>(k, m). fs_names fs (mp_shm_name m) \<noteq> None) cache else cache)"

definition superseded :: "shm_desc \<Rightarrow> shm_key \<Rightarrow> bool" where
  "superseded d k \<longleftrightarrow> k_owner_pid k = d_owner_pid d \<and> k_owner_id k = d_owner_id d \<and>
     k_segment_id k \<noteq> d_segment_id d"

definition header_valid :: "mem \<Rightarrow> nat \<Rightarrow> bool" where
  "header_valid m st_size \<longleftrightarrow>
     mem_read32 m 0 = SHM_RING_MAGIC \<and> mem_read32 m 4 = SHM_RING_VERSION \<and>
     unat (mem_read64 m 8) \<le> st_size - sizeof_ShmRingHeader"

definition map_segment ::
    "reader_env \<Rightarrow> shm_fs \<Rightarrow> u64 \<Rightarrow> shm_desc \<Rightarrow> reader_cache \<Rightarrow> shm_mapping option \<times> reader_cache" where
  "map_segment env fs domain_id d cache =
     (case map_of cache (desc_key d) of
        Some mp \<Rightarrow> (Some mp, cache)
      | None \<Rightarrow>
          (let cache1 = sweep_stale fs cache;
               name = make_segment_name domain_id (sint (d_owner_pid d)) (d_owner_id d) (d_segment_id d)
           in case fs_names fs name of
                None \<Rightarrow> (None, cache1)
              | Some ob \<Rightarrow>
                  (let st_size = obj_size fs ob in
                   if re_open_err env \<or> re_stat_err env \<or> st_size < sizeof_ShmRingHeader \<or> \<not> re_map_ok env
                   then (None, cache1)
                   else if \<not> header_valid (obj_mem fs ob) st_size then (None, cache1)
                   else (let cache2 = filter (\<lambda>(k, m). \<not> superseded d k) cache1;
                             mp = \<lparr>mp_base = ob, mp_size = st_size,
                                   mp_ring_bytes = unat (mem_read64 (obj_mem fs ob) 8), mp_shm_name = name\<rparr>
                         in (Some mp, (desc_key d, mp) # cache2)))))"

definition desc_in_bounds :: "nat \<Rightarrow> shm_desc \<Rightarrow> bool" where
  "desc_in_bounds ring_bytes d \<longleftrightarrow>
     \<not> (unat (d_offset d) mod SHM_RECORD_ALIGN \<noteq> 0 \<or>
        unat (d_offset d) > ring_bytes \<or>
        sizeof_ShmRecordHeader + unat (d_payload_size d) > ring_bytes - unat (d_offset d))"

text \<open>
  The seqlock read of one record, with the memory as the reader finds it at its three
  moments: \<open>m1\<close> at the first check of the sequence number and the length, \<open>mc\<close> what the
  byte copy picked up (in general a mix of several moments), \<open>m2\<close> at the re-check.
\<close>

definition read_record :: "mem \<Rightarrow> mem \<Rightarrow> mem \<Rightarrow> shm_desc \<Rightarrow> bytes option" where
  "read_record m1 mc m2 d =
     (let rec = sizeof_ShmRingHeader + unat (d_offset d) in
      if mem_read32 m1 rec \<noteq> d_seq d \<or> mem_read32 m1 (rec + 4) \<noteq> d_payload_size d then None
      else (let payload = mem_read mc (rec + sizeof_ShmRecordHeader) (unat (d_payload_size d)) in
            if mem_read32 m2 rec \<noteq> d_seq d then None else Some payload))"

definition shm_fetch_payload ::
    "reader_env \<Rightarrow> shm_fs \<Rightarrow> u64 \<Rightarrow> reader_cache \<Rightarrow> bytes \<Rightarrow> bytes option \<times> reader_cache" where
  "shm_fetch_payload env fs domain_id cache payload_io =
     (if length payload_io \<noteq> sizeof_desc then (None, cache)
      else (let d = parse_desc payload_io in
            case map_segment env fs domain_id d cache of
              (None, cache1) \<Rightarrow> (None, cache1)
            | (Some mp, cache1) \<Rightarrow>
                (if \<not> desc_in_bounds (mp_ring_bytes mp) d then (None, cache1)
                 else (let m = obj_mem fs (mp_base mp) in (read_record m m m d, cache1)))))"

definition shm_reader_close :: "reader_cache \<Rightarrow> reader_cache" where
  "shm_reader_close cache = []"

section \<open>Sizes\<close>

lemma align_n_pow2:
  assumes "k < 63" "n + 2 ^ k \<le> 2 ^ 64"
  shows "align_n n (2 ^ k) = (n + 2 ^ k - 1) div 2 ^ k * 2 ^ k"
proof -
  have "0 < (2::nat) ^ k" by simp
  then have "n < 2 ^ 64" using assms(2) by linarith
  then have n: "unat (of_nat n :: u64) = n"
    by (simp only: unsigned_of_nat) (simp add: take_bit_nat_eq_self)
  have "(of_nat (2 ^ k) :: u64) = 2 ^ k" by simp
  then show ?thesis
    using unat_align_up[of k "of_nat n"] assms n by (simp add: align_n_def)
qed

lemma align_n_ge:
  assumes "k < 63" "n + 2 ^ k \<le> 2 ^ 64"
  shows "n \<le> align_n n (2 ^ k)" "align_n n (2 ^ k) < n + 2 ^ k"
proof -
  let ?p = "(2::nat) ^ k"
  have p: "0 < ?p" by simp
  have "(n + ?p - 1) div ?p * ?p + (n + ?p - 1) mod ?p = n + ?p - 1"
    by (rule div_mult_mod_eq)
  moreover have "(n + ?p - 1) mod ?p < ?p" using p by (rule mod_less_divisor)
  ultimately have a: "n \<le> (n + ?p - 1) div ?p * ?p" "(n + ?p - 1) div ?p * ?p \<le> n + ?p - 1"
    using p by linarith+
  then show "n \<le> align_n n ?p" by (simp only: align_n_pow2[OF assms])
  have "n + ?p - 1 < n + ?p" using p by simp
  then show "align_n n ?p < n + ?p" using a(2) by (simp only: align_n_pow2[OF assms])
qed

lemma align_n_64: "n \<le> 2 ^ 62 \<Longrightarrow> align_n n 64 = (n + 63) div 64 * 64"
  using align_n_pow2[of 6 n] by simp

lemma record_bytes_eq: "n \<le> 2 ^ 61 \<Longrightarrow> record_bytes n = (n + 71) div 64 * 64"
  using align_n_64[of "8 + n"] by (simp add: record_bytes_def uds_defs)

lemma record_bytes_ge: "n \<le> 2 ^ 61 \<Longrightarrow> n + 8 \<le> record_bytes n"
  by (simp add: record_bytes_eq)

lemma record_bytes_le: "n \<le> 2 ^ 61 \<Longrightarrow> record_bytes n \<le> n + 71"
  by (simp add: record_bytes_eq)

lemma record_bytes_dvd: "n \<le> 2 ^ 61 \<Longrightarrow> 64 dvd record_bytes n"
  by (simp add: record_bytes_eq)

definition page_ok :: "shm_env \<Rightarrow> bool" where
  "page_ok env \<longleftrightarrow> (\<exists>k \<in> {6..30}. se_page env = 2 ^ k)"

lemma align_n_page:
  assumes "page_ok env" "n \<le> 2 ^ 40"
  shows "n \<le> align_n n (unat (se_page env))" "align_n n (unat (se_page env)) < 2 ^ 41"
proof -
  from assms(1) obtain k where k: "k \<le> 30" and p: "se_page env = 2 ^ k" by (auto simp: page_ok_def)
  have "(2::nat) ^ k \<le> 2 ^ 30" using k by (rule power_increasing) simp
  then have b: "(2::nat) ^ k \<le> 1073741824" by simp
  have "unat (of_nat (2 ^ k) :: u64) = 2 ^ k"
    by (simp only: unsigned_of_nat) (use b k in \<open>simp add: take_bit_nat_eq_self\<close>)
  then have u: "unat (se_page env) = 2 ^ k" by (simp add: p)
  have c: "n + 2 ^ k \<le> 2 ^ 64" using b assms(2) by simp
  have k': "k < 63" using k by simp
  show "n \<le> align_n n (unat (se_page env))" unfolding u by (rule align_n_ge(1)[OF k' c])
  show "align_n n (unat (se_page env)) < 2 ^ 41"
    unfolding u using align_n_ge(2)[OF k' c] b assms(2) by simp
qed

section \<open>The writer's invariant\<close>

definition ring_ok :: "u64 \<Rightarrow> shm_fs \<Rightarrow> ring_writer \<Rightarrow> bool" where
  "ring_ok domain_id fs ring \<longleftrightarrow> wf_fs fs \<and>
     (case rw_base ring of
        None \<Rightarrow> rw_shm_name ring = []
      | Some b \<Rightarrow>
          b < fs_next fs \<and> 0 \<le> rw_owner_pid ring \<and> fs_names fs (rw_shm_name ring) = Some b \<and>
          rw_shm_name ring = make_segment_name domain_id (rw_owner_pid ring) (rw_owner_id ring) (rw_segment_id ring) \<and>
          obj_size fs b = sizeof_ShmRingHeader + rw_ring_bytes ring \<and>
          rw_ring_bytes ring < 2 ^ 41 \<and>
          mem_read32 (obj_mem fs b) 0 = SHM_RING_MAGIC \<and>
          mem_read32 (obj_mem fs b) 4 = SHM_RING_VERSION \<and>
          mem_read64 (obj_mem fs b) 8 = of_nat (rw_ring_bytes ring) \<and>
          64 dvd rw_next_offset ring \<and> rw_next_offset ring \<le> rw_ring_bytes ring)"

definition pid_ok :: "shm_env \<Rightarrow> ring_writer \<Rightarrow> bool" where
  "pid_ok env ring \<longleftrightarrow> 0 < se_pid env \<and> se_pid env < 2 ^ 31 \<and> rw_owner_pid ring < 2 ^ 31 \<and> - (2 ^ 31) \<le> rw_owner_pid ring"

lemma segment_name_nonempty: "\<bar>p\<bar> \<le> 2 ^ 31 \<Longrightarrow> make_segment_name d p w s \<noteq> []"
  using make_segment_name_full[of p d w s] by simp

lemma assign_owner_fields:
  assumes "assign_owner env ctr ring0 = (ctr', ring)"
  shows "rw_base ring = rw_base ring0" "rw_segment_id ring = rw_segment_id ring0"
    "rw_shm_name ring = rw_shm_name ring0" "rw_next_index ring = rw_next_index ring0"
    "rw_ring_bytes ring = rw_ring_bytes ring0" "rw_next_offset ring = rw_next_offset ring0"
    "rw_reserved_cap ring = rw_reserved_cap ring0"
  using assms by (auto simp: assign_owner_def split: if_splits)

lemma create_segment_ok:
  assumes c: "create_segment env d area fs0 ctr0 ring0 = (True, fs, ctr, ring)"
    and inv: "wf_fs fs0" and area: "area < 2 ^ 41" and pid: "pid_ok env ring0"
    and nm: "rw_shm_name ring0 = [] \<or>
      rw_shm_name ring0 = make_segment_name d (rw_owner_pid ring0) (rw_owner_id ring0) (rw_segment_id ring0)"
  shows "ring_ok d fs ring" "rw_base ring = Some (fs_next fs0)" "rw_ring_bytes ring = area"
    "rw_next_offset ring = 0" "rw_next_index ring = rw_next_index ring0"
    "\<And>b. b < fs_next fs0 \<Longrightarrow> obj_mem fs b = obj_mem fs0 b \<and> obj_size fs b = obj_size fs0 b"
    "fs_next fs0 < fs_next fs"
    "mem_read32 (obj_mem fs (fs_next fs0)) 0 = SHM_RING_MAGIC"
proof -
  obtain ctr1 ring1 where as: "assign_owner env ctr0 ring0 = (ctr1, ring1)" by fastforce
  note f = assign_owner_fields[OF as]
  let ?name = "make_segment_name d (rw_owner_pid ring1) (rw_owner_id ring1) (rw_segment_id ring1 + 1)"
  obtain r fs1 where o: "open_fresh env fs0 ?name = (r, fs1)" by fastforce
  have r: "r = Some (fs_next fs0)"
    using c o open_fresh_Some(1) by (cases r) (auto simp: create_segment_def as split: if_splits)
  note g = open_fresh_Some[OF o[unfolded r]]
  let ?ob = "fs_next fs0"
  let ?fs2 = "obj_grow fs1 ?ob (sizeof_ShmRingHeader + area)"
  let ?fs3 = "fst (shm_writer_close ?fs2 ring1)"
  have res: "fs = obj_map_mem ?fs3 ?ob (write_ring_header area)"
    "ring = (snd (shm_writer_close ?fs2 ring1))\<lparr>rw_base := Some ?ob, rw_ring_bytes := area,
       rw_segment_id := rw_segment_id ring1 + 1, rw_next_offset := 0, rw_shm_name := ?name\<rparr>"
    using c by (auto simp: create_segment_def as o r Let_def shm_writer_close_def split: if_splits)
  have p1: "\<bar>rw_owner_pid ring1\<bar> \<le> 2 ^ 31"
    using as pid by (auto simp: assign_owner_def pid_ok_def split: if_splits)
  have ne: "?name \<noteq> rw_shm_name ring1"
  proof (cases "rw_shm_name ring0 = []")
    case True
    then show ?thesis using segment_name_nonempty[OF p1] f(3) by simp
  next
    case False
    then have n0: "rw_shm_name ring0 = make_segment_name d (rw_owner_pid ring0) (rw_owner_id ring0) (rw_segment_id ring0)"
      using nm by blast
    have p0: "\<bar>rw_owner_pid ring0\<bar> \<le> 2 ^ 31" using pid by (auto simp: pid_ok_def)
    have ns: "rw_segment_id ring0 + 1 \<noteq> rw_segment_id ring0" by simp
    show ?thesis
    proof
      assume "?name = rw_shm_name ring1"
      then have "rw_segment_id ring0 + 1 = rw_segment_id ring0"
        using make_segment_name_inject[OF p1 p0] unfolding f(2) f(3) n0 by blast
      with ns show False ..
    qed
  qed
  have wf1: "wf_fs fs1" using wf_open_fresh[OF o inv] .
  have wf: "wf_fs fs"
    unfolding res(1) using wf1 by (simp add: shm_writer_close_def wf_unlink)
  show next_lt: "fs_next fs0 < fs_next fs" by (simp add: res(1) shm_writer_close_def g(2-5))
  have m: "obj_mem fs ?ob = write_ring_header area (\<lambda>_. 0)"
    by (simp add: res(1) shm_writer_close_def g(2-5))
  have sz: "obj_size fs ?ob = sizeof_ShmRingHeader + area"
    by (simp add: res(1) shm_writer_close_def g(2-5))
  have look: "fs_names fs ?name = Some ?ob"
    using ne by (simp add: res(1) shm_writer_close_def g(2-5))
  show magic: "mem_read32 (obj_mem fs (fs_next fs0)) 0 = SHM_RING_MAGIC"
    by (simp add: m write_ring_header_def mem_simps)
  show "rw_base ring = Some (fs_next fs0)" "rw_ring_bytes ring = area" "rw_next_offset ring = 0"
    "rw_next_index ring = rw_next_index ring0"
    by (simp_all add: res(2) shm_writer_close_def f)
  have own: "rw_owner_pid ring = rw_owner_pid ring1" "rw_owner_id ring = rw_owner_id ring1"
    "rw_segment_id ring = rw_segment_id ring1 + 1" "rw_shm_name ring = ?name"
    by (simp_all add: res(2) shm_writer_close_def)
  have own0: "0 \<le> rw_owner_pid ring1"
    using as pid by (auto simp: assign_owner_def pid_ok_def split: if_splits)
  have hdr: "mem_read32 (obj_mem fs ?ob) 4 = SHM_RING_VERSION" "mem_read64 (obj_mem fs ?ob) 8 = of_nat area"
    by (simp_all add: m write_ring_header_def mem_simps)
  show "ring_ok d fs ring"
    using wf next_lt look sz area magic hdr own own0
      \<open>rw_base ring = Some (fs_next fs0)\<close> \<open>rw_ring_bytes ring = area\<close> \<open>rw_next_offset ring = 0\<close>
    by (simp add: ring_ok_def)
  show "\<And>b. b < fs_next fs0 \<Longrightarrow> obj_mem fs b = obj_mem fs0 b \<and> obj_size fs b = obj_size fs0 b"
    by (auto simp: res(1) shm_writer_close_def g(6,7))
qed

lemma ring_ok_names:
  "ring_ok d fs ring \<Longrightarrow> rw_shm_name ring = [] \<or>
     rw_shm_name ring = make_segment_name d (rw_owner_pid ring) (rw_owner_id ring) (rw_segment_id ring)"
  by (auto simp: ring_ok_def split: option.splits)

lemma create_segment_frame:
  assumes c: "create_segment env d area fs0 ctr0 ring0 = (ok, fs, ctr, ring)" and b: "b < fs_next fs0"
  shows "obj_mem fs b = obj_mem fs0 b" "obj_size fs b = obj_size fs0 b" "fs_next fs0 \<le> fs_next fs"
proof -
  obtain ctr1 ring1 where as: "assign_owner env ctr0 ring0 = (ctr1, ring1)" by fastforce
  let ?name = "make_segment_name d (rw_owner_pid ring1) (rw_owner_id ring1) (rw_segment_id ring1 + 1)"
  obtain r fs1 where o: "open_fresh env fs0 ?name = (r, fs1)" by fastforce
  note fr = open_fresh_frame[OF o b]
  have ob: "r = Some ob' \<Longrightarrow> ob' \<noteq> b" for ob' using open_fresh_Some(1)[of env fs0 ?name ob' fs1] o b by auto
  from c show "obj_mem fs b = obj_mem fs0 b" "obj_size fs b = obj_size fs0 b" "fs_next fs0 \<le> fs_next fs"
    using fr ob by (auto simp: create_segment_def as o shm_writer_close_def Let_def split: option.splits if_splits)
qed

lemma grow_if_needed_ok:
  assumes g: "grow_if_needed env d r fs0 ctr0 ring0 = (True, fs, ctr, ring)"
    and inv: "ring_ok d fs0 ring0" and pg: "page_ok env" and pid: "pid_ok env ring0" and r: "r \<le> 2 ^ 33"
  shows "ring_ok d fs ring" "rw_next_index ring = rw_next_index ring0" "r * 4 \<le> rw_ring_bytes ring"
    "(ring = ring0 \<and> fs = fs0) \<or> (rw_base ring = Some (fs_next fs0) \<and> rw_next_offset ring = 0)"
    "\<And>b. b < fs_next fs0 \<Longrightarrow> obj_mem fs b = obj_mem fs0 b" "fs_next fs0 \<le> fs_next fs"
    "rw_base ring \<noteq> None"
proof -
  let ?want = "if r * 4 < SHM_RING_MIN_BYTES then SHM_RING_MIN_BYTES else r * 4"
  let ?a = "align_n ?want (unat (se_page env))"
  have a0: "?want \<le> 2 ^ 40" using r by (simp add: uds_defs)
  have al: "r * 4 \<le> ?a" "?a < 2 ^ 41"
    using align_n_page[OF pg a0] by (auto split: if_splits)
  have "(ring = ring0 \<and> fs = fs0 \<and> rw_base ring0 \<noteq> None \<and> r * 4 \<le> rw_ring_bytes ring0) \<or>
      create_segment env d ?a fs0 ctr0 ring0 = (True, fs, ctr, ring)"
    using g by (auto simp: grow_if_needed_def Let_def split: if_splits)
  then have main: "ring_ok d fs ring \<and> rw_next_index ring = rw_next_index ring0 \<and> r * 4 \<le> rw_ring_bytes ring \<and>
      ((ring = ring0 \<and> fs = fs0) \<or> (rw_base ring = Some (fs_next fs0) \<and> rw_next_offset ring = 0)) \<and>
      (\<forall>b. b < fs_next fs0 \<longrightarrow> obj_mem fs b = obj_mem fs0 b) \<and> fs_next fs0 \<le> fs_next fs \<and> rw_base ring \<noteq> None"
  proof (elim disjE)
    assume "ring = ring0 \<and> fs = fs0 \<and> rw_base ring0 \<noteq> None \<and> r * 4 \<le> rw_ring_bytes ring0"
    then show "ring_ok d fs ring \<and> rw_next_index ring = rw_next_index ring0 \<and> r * 4 \<le> rw_ring_bytes ring \<and>
      ((ring = ring0 \<and> fs = fs0) \<or> (rw_base ring = Some (fs_next fs0) \<and> rw_next_offset ring = 0)) \<and>
      (\<forall>b. b < fs_next fs0 \<longrightarrow> obj_mem fs b = obj_mem fs0 b) \<and> fs_next fs0 \<le> fs_next fs \<and> rw_base ring \<noteq> None"
      using inv by simp
  next
    assume c: "create_segment env d ?a fs0 ctr0 ring0 = (True, fs, ctr, ring)"
    have wf: "wf_fs fs0" using inv by (simp add: ring_ok_def)
    note k = create_segment_ok[OF c wf al(2) pid ring_ok_names[OF inv]]
    show "ring_ok d fs ring \<and> rw_next_index ring = rw_next_index ring0 \<and> r * 4 \<le> rw_ring_bytes ring \<and>
      ((ring = ring0 \<and> fs = fs0) \<or> (rw_base ring = Some (fs_next fs0) \<and> rw_next_offset ring = 0)) \<and>
      (\<forall>b. b < fs_next fs0 \<longrightarrow> obj_mem fs b = obj_mem fs0 b) \<and> fs_next fs0 \<le> fs_next fs \<and> rw_base ring \<noteq> None"
      using k al(1) by auto
  qed
  from main show "ring_ok d fs ring" "rw_next_index ring = rw_next_index ring0" "r * 4 \<le> rw_ring_bytes ring"
    "(ring = ring0 \<and> fs = fs0) \<or> (rw_base ring = Some (fs_next fs0) \<and> rw_next_offset ring = 0)"
    "\<And>b. b < fs_next fs0 \<Longrightarrow> obj_mem fs b = obj_mem fs0 b" "fs_next fs0 \<le> fs_next fs"
    "rw_base ring \<noteq> None"
    by blast+
qed

text \<open>
  What one staging does to the segments: \<open>m\<close> is the target object's memory before, \<open>off\<close> the
  record's place.
\<close>

definition record_write :: "nat \<Rightarrow> u32 \<Rightarrow> bytes \<Rightarrow> mem \<Rightarrow> mem" where
  "record_write off index payload m =
     mem_write32 (mem_write32 (mem_write (mem_write32 m (16 + off) (index * 2 - 1)) (24 + off) payload)
       (20 + off) (of_nat (length payload))) (16 + off) (index * 2)"

lemma mem_read_record_write_other:
  assumes "x + n \<le> 16 + off \<or> 24 + off + length payload \<le> x"
  shows "mem_read (record_write off i payload m) x n = mem_read m x n"
  using assms unfolding record_write_def by (auto simp: mem_read_write32_other mem_read_write_other)

lemma record_write_reads:
  "mem_read32 (record_write off i payload m) (16 + off) = i * 2"
  "mem_read32 (record_write off i payload m) (20 + off) = of_nat (length payload)"
  "mem_read (record_write off i payload m) (24 + off) (length payload) = payload"
  unfolding record_write_def
  by (simp_all add: mem_read32_write32 mem_read32_write32_other mem_read_write32_other mem_read_write_same)

lemma ring_ok_record_write:
  assumes "ring_ok d fs ring" "rw_base ring = Some b"
  shows "ring_ok d (obj_map_mem fs b (record_write off i payload)) ring"
  using assms mem_read_record_write_other[of 0 4 off payload i "obj_mem fs b"]
    mem_read_record_write_other[of 4 4 off payload i "obj_mem fs b"]
    mem_read_record_write_other[of 8 8 off payload i "obj_mem fs b"]
  by (auto simp: ring_ok_def mem_read32_def mem_read64_def)

definition staged ::
    "u64 \<Rightarrow> bytes \<Rightarrow> shm_fs \<Rightarrow> ring_writer \<Rightarrow> shm_desc \<Rightarrow> shm_fs \<Rightarrow> ring_writer \<Rightarrow> nat \<Rightarrow> nat \<Rightarrow> mem \<Rightarrow> bool" where
  "staged d payload fs0 ring0 ds fs ring b off m \<longleftrightarrow>
     ring_ok d fs ring \<and> rw_base ring = Some b \<and> 64 dvd off \<and>
     off + record_bytes (length payload) \<le> rw_ring_bytes ring \<and>
     record_bytes (length payload) * 4 \<le> rw_ring_bytes ring \<and>
     length payload \<le> UINT32_MAX \<and>
     rw_next_offset ring = off + record_bytes (length payload) \<and>
     rw_next_index ring = rw_next_index ring0 + 1 \<and>
     obj_mem fs b = record_write off (rw_next_index ring0) payload m \<and>
     (\<forall>b'. b' \<noteq> b \<and> b' < fs_next fs0 \<longrightarrow> obj_mem fs b' = obj_mem fs0 b') \<and>
     fs_next fs0 \<le> fs_next fs \<and>
     ds = \<lparr>d_segment_id = rw_segment_id ring, d_offset = of_nat off, d_seq = rw_next_index ring0 * 2,
       d_payload_size = of_nat (length payload), d_owner_pid = of_int (rw_owner_pid ring),
       d_owner_id = rw_owner_id ring\<rparr> \<and>
     ((rw_base ring0 = Some b \<and> b < fs_next fs0 \<and> m = obj_mem fs0 b \<and> rw_ring_bytes ring = rw_ring_bytes ring0 \<and>
       off = (if rw_next_offset ring0 + record_bytes (length payload) > rw_ring_bytes ring0 then 0
              else rw_next_offset ring0))
      \<or> (b = fs_next fs0 \<and> off = 0))"

lemma reserve_cases:
  assumes st: "shm_stage_reserve env d n fs0 ctr0 ring0 = (Some dst, fs, ctr, ring)"
  obtains fs1 ring1 b where
    "grow_if_needed env d (record_bytes n) fs0 ctr0 ring0 = (True, fs1, ctr, ring1)"
    "rw_base ring1 = Some b" "n \<le> UINT32_MAX"
    "ring = (if rw_next_offset ring1 + record_bytes n > rw_ring_bytes ring1 then ring1\<lparr>rw_next_offset := 0\<rparr> else ring1)
       \<lparr>rw_reserved_cap := n\<rparr>"
    "dst = 24 + rw_next_offset ring"
    "fs = obj_map_mem fs1 b (\<lambda>m. mem_write32 m (16 + rw_next_offset ring) (rw_next_index ring1 * 2 - 1))"
proof -
  obtain ok fs1 c1 ring1 where g: "grow_if_needed env d (record_bytes n) fs0 ctr0 ring0 = (ok, fs1, c1, ring1)"
    using prod_cases4 by metis
  from st g have "ok" "n \<le> UINT32_MAX"
    by (auto simp: shm_stage_reserve_def Let_def split: if_splits)
  moreover from st g this obtain b where "rw_base ring1 = Some b"
    by (auto simp: shm_stage_reserve_def Let_def split: if_splits option.splits)
  moreover note st g
  ultimately show thesis
    by (intro that[of fs1 ring1 b])
      (auto simp: shm_stage_reserve_def Let_def sizeof_ShmRingHeader_def sizeof_ShmRecordHeader_def split: if_splits)
qed

lemma shm_stage_payload_staged:
  assumes st: "shm_stage_payload env d payload fs0 ctr0 ring0 = (Some ds, fs, ctr, ring)"
    and inv: "ring_ok d fs0 ring0" and pg: "page_ok env" and pid: "pid_ok env ring0"
  shows "\<exists>b off m. staged d payload fs0 ring0 ds fs ring b off m"
proof -
  let ?n = "length payload"
  let ?r = "record_bytes ?n"
  obtain dst fs2 c2 ring2 where rs: "shm_stage_reserve env d ?n fs0 ctr0 ring0 = (Some dst, fs2, c2, ring2)"
    using st by (auto simp: shm_stage_payload_def split: prod.splits option.splits)
  obtain fs1 ring1 b where g: "grow_if_needed env d ?r fs0 ctr0 ring0 = (True, fs1, c2, ring1)"
    and b: "rw_base ring1 = Some b" and n: "?n \<le> UINT32_MAX"
    and r2: "ring2 = (if rw_next_offset ring1 + ?r > rw_ring_bytes ring1 then ring1\<lparr>rw_next_offset := 0\<rparr> else ring1)
       \<lparr>rw_reserved_cap := ?n\<rparr>"
    and dst: "dst = 24 + rw_next_offset ring2"
    and f2: "fs2 = obj_map_mem fs1 b (\<lambda>m. mem_write32 m (16 + rw_next_offset ring2) (rw_next_index ring1 * 2 - 1))"
    using rs by (rule reserve_cases)
  have n61: "?n \<le> 2 ^ 61" using n by (simp add: uds_defs)
  have rb: "?r \<le> 2 ^ 33" using record_bytes_le[OF n61] n by (simp add: uds_defs)
  note k = grow_if_needed_ok[OF g inv pg pid rb]
  let ?off = "rw_next_offset ring2"
  have base2: "rw_base ring2 = Some b" "rw_next_index ring2 = rw_next_index ring0" "rw_reserved_cap ring2 = ?n"
    "rw_ring_bytes ring2 = rw_ring_bytes ring1" "rw_segment_id ring2 = rw_segment_id ring1"
    "rw_owner_pid ring2 = rw_owner_pid ring1" "rw_owner_id ring2 = rw_owner_id ring1"
    using b k(2) by (auto simp: r2)
  have res: "fs = obj_map_mem fs1 b (record_write ?off (rw_next_index ring0) payload)"
    "ring = ring2\<lparr>rw_reserved_cap := 0, rw_next_offset := ?off + ?r, rw_next_index := rw_next_index ring0 + 1\<rparr>"
    "ds = \<lparr>d_segment_id = rw_segment_id ring2, d_offset = of_nat ?off, d_seq = rw_next_index ring0 * 2,
       d_payload_size = of_nat ?n, d_owner_pid = of_int (rw_owner_pid ring2), d_owner_id = rw_owner_id ring2\<rparr>"
    using st base2 k(2)
    by (auto simp: shm_stage_payload_def rs shm_stage_commit_def f2 dst obj_map_mem_def record_write_def
        sizeof_ShmRingHeader_def Let_def add.commute)
  have fit: "?off + ?r \<le> rw_ring_bytes ring1" using k(3) by (auto simp: r2)
  have dv: "64 dvd ?off"
    using k(1) b by (auto simp: r2 ring_ok_def)
  have ok1: "ring_ok d (obj_map_mem fs1 b (record_write ?off (rw_next_index ring0) payload)) ring1"
    by (rule ring_ok_record_write[OF k(1) b])
  have "ring_ok d fs ring"
    using ok1 b dv fit record_bytes_dvd[OF n61] base2
    by (auto simp: ring_ok_def res r2)
  moreover have "(rw_base ring0 = Some b \<and> b < fs_next fs0 \<and> obj_mem fs1 b = obj_mem fs0 b \<and> rw_ring_bytes ring = rw_ring_bytes ring0 \<and>
       ?off = (if rw_next_offset ring0 + ?r > rw_ring_bytes ring0 then 0 else rw_next_offset ring0))
      \<or> (b = fs_next fs0 \<and> ?off = 0)"
    using k(4) b inv base2(4) by (auto simp: r2 res(2) ring_ok_def)
  ultimately have "staged d payload fs0 ring0 ds fs ring b ?off (obj_mem fs1 b)"
    using fit k(3,5,6) n dv base2 by (auto simp: staged_def res)
  then show ?thesis by blast
qed

section \<open>Round trip\<close>

definition key_name :: "u64 \<Rightarrow> shm_key \<Rightarrow> string" where
  "key_name d k = make_segment_name d (sint (k_owner_pid k)) (k_owner_id k) (k_segment_id k)"

text \<open>
  A reader cache agrees with the namespace when no cached mapping shadows a different object
  that its name now resolves to (the recycled-process-id aliasing the name's time component
  guards against).
\<close>

definition cache_agrees :: "u64 \<Rightarrow> shm_fs \<Rightarrow> reader_cache \<Rightarrow> bool" where
  "cache_agrees d fs cache \<longleftrightarrow>
     (\<forall>k mp. map_of cache k = Some mp \<longrightarrow>
        (\<forall>ob. fs_names fs (key_name d k) = Some ob \<longrightarrow>
           mp_base mp = ob \<and> mp_ring_bytes mp = unat (mem_read64 (obj_mem fs ob) 8)))"

definition reader_up :: reader_env where
  "reader_up = \<lparr>re_open_err = False, re_stat_err = False, re_map_ok = True\<rparr>"

lemma unat_of_nat_small: "n < 2 ^ 64 \<Longrightarrow> unat (of_nat n :: u64) = n"
  by (simp only: unsigned_of_nat) (simp add: take_bit_nat_eq_self)

lemma unat_of_nat_small32: "n \<le> UINT32_MAX \<Longrightarrow> unat (of_nat n :: u32) = n"
  unfolding UINT32_MAX_def by (simp only: unsigned_of_nat) (simp add: take_bit_nat_eq_self)

lemma sint_of_pid: "0 \<le> p \<Longrightarrow> p < 2 ^ 31 \<Longrightarrow> sint (of_int p :: u32) = p"
  by (simp only: signed_of_int) (simp add: signed_take_bit_int_eq_self)

lemma map_segment_current:
  assumes ok: "ring_ok d fs ring" and b: "rw_base ring = Some b" and pid: "rw_owner_pid ring < 2 ^ 31"
    and key: "desc_key ds = \<lparr>k_owner_pid = of_int (rw_owner_pid ring), k_owner_id = rw_owner_id ring,
      k_segment_id = rw_segment_id ring\<rparr>"
    and ag: "cache_agrees d fs cache"
  shows "\<exists>mp cache'. map_segment reader_up fs d ds cache = (Some mp, cache') \<and> mp_base mp = b \<and>
    mp_ring_bytes mp = rw_ring_bytes ring"
proof -
  have p0: "0 \<le> rw_owner_pid ring" and nm: "fs_names fs (rw_shm_name ring) = Some b"
    and name: "rw_shm_name ring = make_segment_name d (rw_owner_pid ring) (rw_owner_id ring) (rw_segment_id ring)"
    and sz: "obj_size fs b = 16 + rw_ring_bytes ring" and lt: "rw_ring_bytes ring < 2 ^ 41"
    and hdr: "mem_read32 (obj_mem fs b) 0 = SHM_RING_MAGIC" "mem_read32 (obj_mem fs b) 4 = SHM_RING_VERSION"
      "mem_read64 (obj_mem fs b) 8 = of_nat (rw_ring_bytes ring)"
    using ok b by (auto simp: ring_ok_def sizeof_ShmRingHeader_def)
  have kn: "key_name d (desc_key ds) = rw_shm_name ring"
    using sint_of_pid[OF p0 pid] by (simp add: key_name_def key name)
  have kn': "make_segment_name d (sint (d_owner_pid ds)) (d_owner_id ds) (d_segment_id ds) = rw_shm_name ring"
    using kn by (simp add: key_name_def desc_key_def)
  have rbu: "unat (mem_read64 (obj_mem fs b) 8) = rw_ring_bytes ring"
    using lt by (simp add: hdr(3) unat_of_nat_small)
  show ?thesis
  proof (cases "map_of cache (desc_key ds)")
    case (Some mp)
    then show ?thesis using ag nm kn rbu by (auto simp: cache_agrees_def map_segment_def)
  next
    case None
    have "header_valid (obj_mem fs b) (obj_size fs b)"
      using hdr rbu sz by (simp add: header_valid_def sizeof_ShmRingHeader_def)
    with None show ?thesis
      using nm kn' sz rbu by (simp add: map_segment_def reader_up_def Let_def sizeof_ShmRingHeader_def)
  qed
qed

lemma fetch_of_mapping:
  assumes "map_segment renv fs d ds cache = (Some mp, cache')" "desc_in_bounds (mp_ring_bytes mp) ds"
  shows "shm_fetch_payload renv fs d cache (desc_bytes ds) =
    (read_record (obj_mem fs (mp_base mp)) (obj_mem fs (mp_base mp)) (obj_mem fs (mp_base mp)) ds, cache')"
  using assms by (simp add: shm_fetch_payload_def sizeof_desc_def Let_def)

lemma read_record_written:
  assumes "length payload \<le> UINT32_MAX" "d_offset ds = of_nat off" "off < 2 ^ 41" "d_seq ds = i * 2"
    "d_payload_size ds = of_nat (length payload)"
  shows "read_record (record_write off i payload m) (record_write off i payload m) (record_write off i payload m) ds
    = Some payload"
proof -
  have o: "unat (d_offset ds) = off" using assms(2,3) by (simp add: unat_of_nat_small)
  show ?thesis
    using record_write_reads[of off i payload m] assms(4,5)
    by (simp add: read_record_def o unat_of_nat_small32[OF assms(1)] Let_def sizeof_ShmRingHeader_def sizeof_ShmRecordHeader_def add.assoc add.commute)
qed

lemma staged_in_bounds:
  assumes "staged d payload fs0 ring0 ds fs ring b off m"
  shows "desc_in_bounds (rw_ring_bytes ring) ds" "off < 2 ^ 41" "unat (d_offset ds) = off"
    "unat (d_payload_size ds) = length payload"
proof -
  have lt: "rw_ring_bytes ring < 2 ^ 41" and n: "length payload \<le> UINT32_MAX"
    and fit: "off + record_bytes (length payload) \<le> rw_ring_bytes ring" and dv: "64 dvd off"
    using assms by (auto simp: staged_def ring_ok_def)
  have n61: "length payload \<le> 2 ^ 61" using n by (simp add: uds_defs)
  show o: "off < 2 ^ 41" using fit lt record_bytes_ge[OF n61] by linarith
  show uo: "unat (d_offset ds) = off" using assms o by (simp add: staged_def unat_of_nat_small)
  show ul: "unat (d_payload_size ds) = length payload" using assms n by (simp add: staged_def unat_of_nat_small32)
  show "desc_in_bounds (rw_ring_bytes ring) ds"
    using fit dv record_bytes_ge[OF n61] by (auto simp: desc_in_bounds_def uo ul uds_defs)
qed

text \<open>
  Staging and fetching are inverse through the wire bytes. Whatever payload a writer with
  a valid ring stages successfully (creating or growing the segment as needed), a receiver
  that is handed the 32 descriptor bytes maps the right segment and gets exactly that
  payload, whether or not it had mapped the segment before.
\<close>

theorem shm_stage_fetch_roundtrip:
  assumes "shm_stage_payload env d payload fs0 ctr0 ring0 = (Some ds, fs, ctr, ring)"
    and "ring_ok d fs0 ring0" "page_ok env" "pid_ok env ring0" "rw_owner_pid ring < 2 ^ 31"
    and "cache_agrees d fs cache"
  shows "fst (shm_fetch_payload reader_up fs d cache (desc_bytes ds)) = Some payload"
proof -
  obtain b off m where st: "staged d payload fs0 ring0 ds fs ring b off m"
    using shm_stage_payload_staged[OF assms(1-4)] by blast
  have ok: "ring_ok d fs ring" and b: "rw_base ring = Some b" and n: "length payload \<le> UINT32_MAX"
    and key: "desc_key ds = \<lparr>k_owner_pid = of_int (rw_owner_pid ring), k_owner_id = rw_owner_id ring,
      k_segment_id = rw_segment_id ring\<rparr>"
    and mem: "obj_mem fs b = record_write off (rw_next_index ring0) payload m"
    using st by (auto simp: staged_def desc_key_def)
  obtain mp cache' where mp: "map_segment reader_up fs d ds cache = (Some mp, cache')"
    "mp_base mp = b" "mp_ring_bytes mp = rw_ring_bytes ring"
    using map_segment_current[OF ok b assms(5) key assms(6)] by blast
  have "read_record (obj_mem fs b) (obj_mem fs b) (obj_mem fs b) ds = Some payload"
    unfolding mem
    by (rule read_record_written) (use st n staged_in_bounds(2)[OF st] in \<open>auto simp: staged_def\<close>)
  then show ?thesis
    using fetch_of_mapping[OF mp(1)] staged_in_bounds(1)[OF st] mp by simp
qed

end
