(* ===== verification/Uds_Ring_Props.thy ===== *)
theory Uds_Ring_Props
  imports Uds_Shm_Ring
begin

text \<open>
  What the payload ring guarantees its readers: staging succeeds whenever the kernel calls
  do, a record outlives the next two stagings even when the ring is replaced meanwhile, and
  no descriptor, however malformed, makes a reader look outside a mapping.
\<close>

definition env_good :: "shm_env \<Rightarrow> bool" where
  "env_good env \<longleftrightarrow> \<not> se_force_fail env \<and> \<not> se_open_err env \<and> \<not> se_reopen_err env \<and>
     se_alloc_ok env \<and> se_map_ok env"

lemma open_fresh_good: "env_good env \<Longrightarrow> \<exists>fs'. open_fresh env fs name = (Some (fs_next fs), fs')"
  by (auto simp: env_good_def open_fresh_def shm_open_excl_def shm_unlink_def Let_def split: option.splits)

lemma create_segment_good:
  assumes "env_good env"
  shows "\<exists>fs' ctr' ring'. create_segment env d area fs ctr ring = (True, fs', ctr', ring') \<and> rw_base ring' \<noteq> None"
proof -
  obtain ctr1 ring1 where as: "assign_owner env ctr ring = (ctr1, ring1)" by fastforce
  obtain fs1 where "open_fresh env fs (make_segment_name d (rw_owner_pid ring1) (rw_owner_id ring1) (rw_segment_id ring1 + 1))
      = (Some (fs_next fs), fs1)"
    using open_fresh_good[OF assms] by blast
  then show ?thesis using assms by (simp add: create_segment_def as env_good_def shm_writer_close_def Let_def)
qed

lemma grow_if_needed_good:
  assumes "env_good env"
  shows "\<exists>fs' ctr' ring'. grow_if_needed env d r fs ctr ring = (True, fs', ctr', ring') \<and> rw_base ring' \<noteq> None"
proof (cases "rw_base ring = None \<or> r * 4 > rw_ring_bytes ring")
  case True
  then show ?thesis using create_segment_good[OF assms] by (simp add: grow_if_needed_def Let_def)
next
  case False
  then show ?thesis by (auto simp: grow_if_needed_def)
qed

lemma shm_stage_reserve_good:
  assumes "env_good env" "n \<le> UINT32_MAX"
  shows "\<exists>dst fs' ctr' ring'. shm_stage_reserve env d n fs ctr ring = (Some dst, fs', ctr', ring') \<and>
    rw_base ring' \<noteq> None \<and> rw_reserved_cap ring' = n"
proof -
  obtain fs1 c1 ring1 where "grow_if_needed env d (record_bytes n) fs ctr ring = (True, fs1, c1, ring1)" "rw_base ring1 \<noteq> None"
    using grow_if_needed_good[OF assms(1)] by blast
  then show ?thesis using assms by (auto simp: shm_stage_reserve_def env_good_def Let_def)
qed

lemma shm_stage_payload_good:
  assumes "env_good env" "length payload \<le> UINT32_MAX"
  shows "\<exists>ds fs' ctr' ring'. shm_stage_payload env d payload fs ctr ring = (Some ds, fs', ctr', ring')"
proof -
  obtain dst fs1 c1 ring1 where "shm_stage_reserve env d (length payload) fs ctr ring = (Some dst, fs1, c1, ring1)"
    "rw_base ring1 \<noteq> None" "rw_reserved_cap ring1 = length payload"
    using shm_stage_reserve_good[OF assms] by blast
  then show ?thesis by (auto simp: shm_stage_payload_def shm_stage_commit_def Let_def)
qed

definition env0 :: shm_env where
  "env0 = \<lparr>se_force_fail = False, se_pid = 4242, se_now_us = 77, se_page = 4096, se_open_err = False,
     se_reopen_err = False, se_alloc_ok = True, se_map_ok = True\<rparr>"

lemma env0_ok: "env_good env0" "page_ok env0" "pid_ok env0 new_ring_writer" "ring_ok d empty_fs new_ring_writer"
proof -
  have "(4096 :: u64) = 2 ^ 12" by simp
  then have "se_page env0 = 2 ^ 12" by (simp add: env0_def)
  then show "page_ok env0" unfolding page_ok_def by (intro bexI[of _ 12]) auto
qed (auto simp: env_good_def env0_def pid_ok_def new_ring_writer_def ring_ok_def empty_fs_def wf_fs_def)

text \<open>The owner id of a writer is a non-negative 31-bit process id throughout.\<close>

lemma create_segment_pid:
  assumes "create_segment env d area fs ctr ring = (ok, fs', ctr', ring')" "pid_ok env ring"
  shows "pid_ok env ring'"
  using assms
  by (auto simp: create_segment_def assign_owner_def shm_writer_close_def pid_ok_def Let_def
      split: prod.splits option.splits if_splits)

lemma reserve_pid:
  assumes "shm_stage_reserve env d n fs ctr ring = (dst, fs', ctr', ring')" "pid_ok env ring"
  shows "pid_ok env ring'"
proof -
  obtain ok fs1 c1 ring1 where g: "grow_if_needed env d (record_bytes n) fs ctr ring = (ok, fs1, c1, ring1)"
    using prod_cases4 by metis
  have "pid_ok env ring1"
    using g assms(2) create_segment_pid by (fastforce simp: grow_if_needed_def Let_def split: if_splits)
  then show ?thesis
    using assms g by (auto simp: shm_stage_reserve_def pid_ok_def Let_def split: if_splits option.splits)
qed

lemma stage_pid:
  assumes st: "shm_stage_payload env d payload fs ctr ring = (ds, fs', ctr', ring')" and pid: "pid_ok env ring"
  shows "pid_ok env ring'"
proof -
  obtain dst fs1 c1 ring1 where r: "shm_stage_reserve env d (length payload) fs ctr ring = (dst, fs1, c1, ring1)"
    using prod_cases4 by metis
  have "pid_ok env ring1" by (rule reserve_pid[OF r pid])
  then show ?thesis
    using st r by (auto simp: shm_stage_payload_def shm_stage_commit_def shm_stage_abort_def pid_ok_def Let_def
        split: if_splits option.splits prod.splits)
qed

theorem shm_stage_fetch_roundtrip_witness:
  "\<exists>ds fs ctr ring. shm_stage_payload env0 0 [1, 2, 3] empty_fs 1 new_ring_writer = (Some ds, fs, ctr, ring) \<and>
     fst (shm_fetch_payload reader_up fs 0 [] (desc_bytes ds)) = Some [1, 2, 3]"
proof -
  have "length [1, 2, 3 :: byte] \<le> UINT32_MAX" by (simp add: UINT32_MAX_def)
  then obtain ds fs ctr ring where s: "shm_stage_payload env0 0 [1, 2, 3] empty_fs 1 new_ring_writer = (Some ds, fs, ctr, ring)"
    using shm_stage_payload_good[OF env0_ok(1)] by blast
  have "rw_owner_pid ring < 2 ^ 31" using stage_pid[OF s env0_ok(3)] by (simp add: pid_ok_def)
  then show ?thesis
    using s shm_stage_fetch_roundtrip[OF s env0_ok(4,2,3), of "[]"] by (auto simp: cache_agrees_def)
qed

text \<open>
  Staging is total. For a payload within the 32-bit length limit it succeeds whenever
  the shared-memory calls succeed, and it fails, changing neither the namespace nor the
  writer, when the payload is longer or the failure seam is set: those are the only
  refusals that are not a failed system call.
\<close>

theorem shm_stage_payload_total:
  "(env_good env \<longrightarrow> length payload \<le> UINT32_MAX \<longrightarrow>
     (\<exists>ds fs' ctr' ring'. shm_stage_payload env d payload fs ctr ring = (Some ds, fs', ctr', ring'))) \<and>
   (length payload > UINT32_MAX \<or> se_force_fail env' \<longrightarrow>
     shm_stage_payload env' d payload fs ctr ring = (None, fs, ctr, ring))"
proof (intro conjI impI)
  assume "env_good env" "length payload \<le> UINT32_MAX"
  then show "\<exists>ds fs' ctr' ring'. shm_stage_payload env d payload fs ctr ring = (Some ds, fs', ctr', ring')"
    by (rule shm_stage_payload_good)
qed (auto simp: shm_stage_payload_def shm_stage_reserve_def)

theorem shm_stage_payload_total_witness:
  "(\<exists>ds fs' ctr' ring'. shm_stage_payload env0 7 [5] empty_fs 1 new_ring_writer = (Some ds, fs', ctr', ring')) \<and>
   shm_stage_payload (env0\<lparr>se_force_fail := True\<rparr>) 7 [5] empty_fs 1 new_ring_writer = (None, empty_fs, 1, new_ring_writer)"
  using shm_stage_payload_total[of env0 "[5]" 7 empty_fs 1 new_ring_writer "env0\<lparr>se_force_fail := True\<rparr>"] env0_ok(1)
  by (simp add: UINT32_MAX_def)

section \<open>Survival of committed records\<close>

lemma read_record_cong:
  assumes "\<And>i. 16 + unat (d_offset ds) \<le> i \<Longrightarrow> i < 24 + unat (d_offset ds) + unat (d_payload_size ds) \<Longrightarrow> m' i = m i"
  shows "read_record m' m' m' ds = read_record m m m ds"
proof -
  let ?o = "unat (d_offset ds)"
  have r: "mem_read m' x n = mem_read m x n" if "16 + ?o \<le> x" "x + n \<le> 24 + ?o + unat (d_payload_size ds)" for x n
    by (rule nth_equalityI) (use that assms in auto)
  have "mem_read m' (16 + ?o) 4 = mem_read m (16 + ?o) 4" "mem_read m' (16 + ?o + 4) 4 = mem_read m (16 + ?o + 4) 4"
    "mem_read m' (16 + ?o + 8) (unat (d_payload_size ds)) = mem_read m (16 + ?o + 8) (unat (d_payload_size ds))"
    by (rule r; simp)+
  then show ?thesis
    by (simp add: read_record_def mem_read32_def Let_def sizeof_ShmRingHeader_def sizeof_ShmRecordHeader_def)
qed

lemma record_write_outside:
  "i < 16 + off \<or> 24 + off + length payload \<le> i \<Longrightarrow> record_write off j payload m i = m i"
  by (auto simp: record_write_def mem_write32_def mem_write_def)

text \<open>A later staging into the same object leaves a record alone when their spans are disjoint.\<close>

lemma staged_preserves:
  assumes st: "staged d p fs0 ring0 ds' fs ring b' off' m" and lt: "b < fs_next fs0"
    and dis: "b' = b \<Longrightarrow> off' + record_bytes (length p) \<le> off \<or> off + 8 + n \<le> off'"
    and i: "16 + off \<le> i" "i < 24 + off + n"
  shows "obj_mem fs b i = obj_mem fs0 b i"
proof (cases "b' = b")
  case False
  then show ?thesis using st lt by (auto simp: staged_def)
next
  case True
  have n61: "length p \<le> 2 ^ 61" using st by (simp add: staged_def uds_defs)
  have m: "m = obj_mem fs0 b" and w: "obj_mem fs b = record_write off' (rw_next_index ring0) p m"
    using st lt True by (auto simp: staged_def)
  have "i < 16 + off' \<or> 24 + off' + length p \<le> i"
    using dis[OF True] record_bytes_ge[OF n61] i by linarith
  then show ?thesis unfolding w m by (rule record_write_outside)
qed

lemma staged_base_lt: "staged d p fs0 ring0 ds fs ring b off m \<Longrightarrow> b < fs_next fs"
  by (auto simp: staged_def ring_ok_def)

lemma staged_place:
  assumes "staged d p fs0 ring0 ds fs ring b off m" "rw_base ring0 = Some b" "b < fs_next fs0"
  shows "rw_ring_bytes ring = rw_ring_bytes ring0"
    "off = (if rw_next_offset ring0 + record_bytes (length p) > rw_ring_bytes ring0 then 0 else rw_next_offset ring0)"
  using assms by (auto simp: staged_def)

lemma staged_same_base:
  assumes "staged d p fs0 ring0 ds fs ring b off m" "b < fs_next fs0"
  shows "rw_base ring0 = Some b"
  using assms by (auto simp: staged_def)

text \<open>
  The arithmetic core: with every record at most a quarter of the ring, neither the next
  record nor the one after it can reach back to a record at \<open>o1\<close>.
\<close>

lemma two_more_disjoint:
  fixes o1 r1 r2 r3 rb :: nat
  assumes "r1 * 4 \<le> rb" "r2 * 4 \<le> rb" "r3 * 4 \<le> rb" "o1 + r1 \<le> rb"
    and "o2 = (if o1 + r1 + r2 > rb then 0 else o1 + r1)"
    and "o3 = (if o2 + r2 + r3 > rb then 0 else o2 + r2)"
  shows "o2 + r2 \<le> o1 \<or> o1 + r1 \<le> o2" "o3 + r3 \<le> o1 \<or> o1 + r1 \<le> o3"
  using assms by (auto split: if_splits)

text \<open>
  C10: a subscriber one wake-up behind still finds its record. After a payload is staged, two
  further stagings of any sizes, including ones that outgrow the ring and replace the
  segment, leave the record intact: a reader that has the segment mapped fetches exactly
  the original payload.
\<close>

theorem record_survives_two_stagings:
  assumes s1: "shm_stage_payload env1 d p1 fs0 ctr0 ring0 = (Some d1, fs1, ctr1, ring1)"
    and s2: "shm_stage_payload env2 d p2 fs1 ctr1 ring1 = (Some d2, fs2, ctr2, ring2)"
    and s3: "shm_stage_payload env3 d p3 fs2 ctr2 ring2 = (Some d3, fs3, ctr3, ring3)"
    and inv: "ring_ok d fs0 ring0" and pg: "page_ok env1" "page_ok env2" "page_ok env3"
    and pid: "pid_ok env1 ring0" "pid_ok env2 ring1" "pid_ok env3 ring2"
    and cached: "map_of cache (desc_key d1) = Some mp" "Some (mp_base mp) = rw_base ring1"
      "mp_ring_bytes mp = rw_ring_bytes ring1"
  shows "fst (shm_fetch_payload renv fs3 d cache (desc_bytes d1)) = Some p1"
proof -
  obtain b1 o1 m1 where t1: "staged d p1 fs0 ring0 d1 fs1 ring1 b1 o1 m1"
    using shm_stage_payload_staged[OF s1 inv pg(1) pid(1)] by blast
  have i1: "ring_ok d fs1 ring1" using t1 by (simp add: staged_def)
  obtain b2 o2 m2 where t2: "staged d p2 fs1 ring1 d2 fs2 ring2 b2 o2 m2"
    using shm_stage_payload_staged[OF s2 i1 pg(2) pid(2)] by blast
  have i2: "ring_ok d fs2 ring2" using t2 by (simp add: staged_def)
  obtain b3 o3 m3 where t3: "staged d p3 fs2 ring2 d3 fs3 ring3 b3 o3 m3"
    using shm_stage_payload_staged[OF s3 i2 pg(3) pid(3)] by blast
  have n1: "length p1 \<le> 2 ^ 61" using t1 by (simp add: staged_def uds_defs)
  have lt1: "b1 < fs_next fs1" by (rule staged_base_lt[OF t1])
  have lt2: "b1 < fs_next fs2" using lt1 t2 by (simp add: staged_def)
  have pos: "o1 + 8 + length p1 \<le> o1 + record_bytes (length p1)" using record_bytes_ge[OF n1] by simp
  have e1: "rw_base ring1 = Some b1" "rw_next_offset ring1 = o1 + record_bytes (length p1)"
    "o1 + record_bytes (length p1) \<le> rw_ring_bytes ring1" "record_bytes (length p1) * 4 \<le> rw_ring_bytes ring1"
    using t1 by (auto simp: staged_def)
  have e2: "rw_next_offset ring2 = o2 + record_bytes (length p2)" "record_bytes (length p2) * 4 \<le> rw_ring_bytes ring2"
    "rw_base ring2 = Some b2"
    using t2 by (auto simp: staged_def)
  have e3: "record_bytes (length p3) * 4 \<le> rw_ring_bytes ring3" using t3 by (auto simp: staged_def)
  have dis2: "o2 + record_bytes (length p2) \<le> o1 \<or> o1 + 8 + length p1 \<le> o2" if "b2 = b1"
    using staged_place[OF t2[unfolded that] e1(1) lt1] two_more_disjoint(1)[of "record_bytes (length p1)" "rw_ring_bytes ring1"
        "record_bytes (length p2)" 0 o1 o2] e1 e2 pos by (auto simp: that split: if_splits)
  have dis3: "o3 + record_bytes (length p3) \<le> o1 \<or> o1 + 8 + length p1 \<le> o3" if b3: "b3 = b1"
  proof -
    have b2: "b2 = b1" using staged_same_base[OF t3[unfolded b3] lt2] e2(3) by simp
    note pl2 = staged_place[OF t2[unfolded b2] e1(1) lt1]
    have rb2: "rw_base ring2 = Some b1" using e2(3) b2 by simp
    note pl3 = staged_place[OF t3[unfolded b3] rb2 lt2]
    show ?thesis
      using two_more_disjoint(2)[of "record_bytes (length p1)" "rw_ring_bytes ring1" "record_bytes (length p2)"
          "record_bytes (length p3)" o1 o2 o3] e1 e2 e3 pos pl2 pl3 by auto
  qed
  have u: "unat (d_offset d1) = o1" "unat (d_payload_size d1) = length p1"
    using staged_in_bounds[OF t1] by blast+
  have "obj_mem fs3 b1 i = obj_mem fs1 b1 i" if "16 + o1 \<le> i" "i < 24 + o1 + length p1" for i
    using staged_preserves[OF t2 lt1 dis2 that] staged_preserves[OF t3 lt2 dis3 that] by simp
  then have eq: "read_record (obj_mem fs3 b1) (obj_mem fs3 b1) (obj_mem fs3 b1) d1
      = read_record (obj_mem fs1 b1) (obj_mem fs1 b1) (obj_mem fs1 b1) d1"
    by (intro read_record_cong) (simp add: u)
  have "obj_mem fs1 b1 = record_write o1 (rw_next_index ring0) p1 m1" using t1 by (simp add: staged_def)
  then have now: "read_record (obj_mem fs1 b1) (obj_mem fs1 b1) (obj_mem fs1 b1) d1 = Some p1"
    using t1 staged_in_bounds(2)[OF t1] by (auto simp: staged_def intro!: read_record_written)
  have "map_segment renv fs3 d d1 cache = (Some mp, cache)" using cached(1) by (simp add: map_segment_def)
  moreover have "mp_base mp = b1" using cached(2) e1(1) by simp
  ultimately show ?thesis
    using fetch_of_mapping staged_in_bounds(1)[OF t1] cached(3) eq now by simp
qed

lemma stage_ok:
  assumes "shm_stage_payload env d payload fs0 ctr0 ring0 = (Some ds, fs, ctr, ring)"
    and "ring_ok d fs0 ring0" "page_ok env" "pid_ok env ring0"
  shows "ring_ok d fs ring" "rw_base ring \<noteq> None"
  using shm_stage_payload_staged[OF assms] by (auto simp: staged_def)

theorem record_survives_two_stagings_witness:
  "\<exists>d1 fs1 c1 r1 d2 fs2 c2 r2 d3 fs3 c3 r3 mp.
     shm_stage_payload env0 0 [1, 2, 3] empty_fs 1 new_ring_writer = (Some d1, fs1, c1, r1) \<and>
     shm_stage_payload env0 0 (replicate 1000000 9) fs1 c1 r1 = (Some d2, fs2, c2, r2) \<and>
     shm_stage_payload env0 0 [7] fs2 c2 r2 = (Some d3, fs3, c3, r3) \<and>
     fst (shm_fetch_payload reader_up fs3 0 [(desc_key d1, mp)] (desc_bytes d1)) = Some [1, 2, 3]"
proof -
  have l: "length [1, 2, 3 :: byte] \<le> UINT32_MAX" "length (replicate 1000000 (9 :: byte)) \<le> UINT32_MAX"
    "length [7 :: byte] \<le> UINT32_MAX"
    by (simp_all only: length_replicate UINT32_MAX_def) simp_all
  obtain d1 fs1 c1 r1 where s1: "shm_stage_payload env0 0 [1, 2, 3] empty_fs 1 new_ring_writer = (Some d1, fs1, c1, r1)"
    using shm_stage_payload_good[OF env0_ok(1) l(1)] by blast
  obtain d2 fs2 c2 r2 where s2: "shm_stage_payload env0 0 (replicate 1000000 9) fs1 c1 r1 = (Some d2, fs2, c2, r2)"
    using shm_stage_payload_good[OF env0_ok(1) l(2)] by blast
  obtain d3 fs3 c3 r3 where s3: "shm_stage_payload env0 0 [7] fs2 c2 r2 = (Some d3, fs3, c3, r3)"
    using shm_stage_payload_good[OF env0_ok(1) l(3)] by blast
  have p1: "pid_ok env0 r1" by (rule stage_pid[OF s1 env0_ok(3)])
  have p2: "pid_ok env0 r2" by (rule stage_pid[OF s2 p1])
  have b1: "rw_base r1 \<noteq> None" using stage_ok(2)[OF s1 env0_ok(4,2,3)] .
  let ?mp = "\<lparr>mp_base = the (rw_base r1), mp_size = 16 + rw_ring_bytes r1, mp_ring_bytes = rw_ring_bytes r1, mp_shm_name = rw_shm_name r1\<rparr>"
  have "fst (shm_fetch_payload reader_up fs3 0 [(desc_key d1, ?mp)] (desc_bytes d1)) = Some [1, 2, 3]"
    using record_survives_two_stagings[OF s1 s2 s3 env0_ok(4) env0_ok(2) env0_ok(2) env0_ok(2) env0_ok(3) p1 p2,
        of "[(desc_key d1, ?mp)]" ?mp reader_up] b1 by simp
  then show ?thesis using s1 s2 s3 by blast
qed

section \<open>Memory safety of the reader\<close>

text \<open>A mapping is sound when its record area lies inside the mapped bytes of its object.\<close>

definition mapping_sound :: "shm_fs \<Rightarrow> shm_mapping \<Rightarrow> bool" where
  "mapping_sound fs mp \<longleftrightarrow> sizeof_ShmRingHeader + mp_ring_bytes mp \<le> mp_size mp \<and> mp_size mp \<le> obj_size fs (mp_base mp)"

definition cache_sound :: "shm_fs \<Rightarrow> reader_cache \<Rightarrow> bool" where
  "cache_sound fs cache \<longleftrightarrow> (\<forall>(k, mp) \<in> set cache. mapping_sound fs mp)"

text \<open>Two kernels that a reader can only tell apart by reading outside the objects.\<close>

definition same_inside :: "shm_fs \<Rightarrow> shm_fs \<Rightarrow> bool" where
  "same_inside fs fs' \<longleftrightarrow> fs_names fs' = fs_names fs \<and>
     (\<forall>ob. obj_size fs' ob = obj_size fs ob \<and> (\<forall>i < obj_size fs ob. obj_mem fs' ob i = obj_mem fs ob i))"

lemma map_segment_sound:
  assumes "map_segment renv fs d ds cache = (r, cache')" "cache_sound fs cache"
  shows "cache_sound fs cache'" "r = Some mp \<Longrightarrow> mapping_sound fs mp"
  using assms
  by (auto simp: map_segment_def Let_def sweep_stale_def cache_sound_def mapping_sound_def header_valid_def
      sizeof_ShmRingHeader_def dest: map_of_SomeD split: option.splits if_splits)

lemma mem_read_inside:
  "x + n \<le> sz \<Longrightarrow> \<forall>i < sz. m' i = m i \<Longrightarrow> mem_read m' x n = mem_read m x n"
  by (rule nth_equalityI) auto

lemma header_valid_inside:
  "16 \<le> sz \<Longrightarrow> \<forall>i < sz. m' i = m i \<Longrightarrow> header_valid m' sz = header_valid m sz \<and> mem_read64 m' 8 = mem_read64 m 8"
  using mem_read_inside[of 0 4 sz m' m] mem_read_inside[of 4 4 sz m' m] mem_read_inside[of 8 8 sz m' m]
  by (simp add: header_valid_def mem_read32_def mem_read64_def)

lemma map_segment_inside:
  assumes "same_inside fs fs'"
  shows "map_segment renv fs' d ds cache = map_segment renv fs d ds cache"
proof -
  have n: "fs_names fs' = fs_names fs" "obj_size fs' ob = obj_size fs ob"
    "\<forall>i < obj_size fs ob. obj_mem fs' ob i = obj_mem fs ob i" for ob
    using assms by (auto simp: same_inside_def)
  have h: "16 \<le> obj_size fs ob \<Longrightarrow>
      header_valid (obj_mem fs' ob) (obj_size fs ob) = header_valid (obj_mem fs ob) (obj_size fs ob) \<and>
      mem_read64 (obj_mem fs' ob) 8 = mem_read64 (obj_mem fs ob) 8" for ob
    using header_valid_inside[OF _ n(3)] by blast
  show ?thesis
    using h by (auto simp: map_segment_def sweep_stale_def n(1,2) Let_def sizeof_ShmRingHeader_def
        split: option.splits)
qed

lemma fetch_inside:
  assumes "cache_sound fs cache" "shm_fetch_payload renv fs d cache io = (r, cache')"
  shows "cache_sound fs cache'"
    "same_inside fs fs' \<Longrightarrow> shm_fetch_payload renv fs' d cache io = (r, cache')"
proof -
  obtain mr c1 where ms: "map_segment renv fs d (parse_desc io) cache = (mr, c1)" by fastforce
  show "cache_sound fs cache'"
    using assms map_segment_sound(1)[OF ms assms(1)]
    by (auto simp: shm_fetch_payload_def ms Let_def split: if_splits option.splits)
  assume si: "same_inside fs fs'"
  show "shm_fetch_payload renv fs' d cache io = (r, cache')"
  proof (cases "length io = sizeof_desc \<and> (\<exists>mp. mr = Some mp \<and> desc_in_bounds (mp_ring_bytes mp) (parse_desc io))")
    case False
    then show ?thesis
      using assms(2) by (auto simp: shm_fetch_payload_def map_segment_inside[OF si] ms Let_def split: option.splits)
  next
    case True
    then obtain mp where mp: "mr = Some mp" "desc_in_bounds (mp_ring_bytes mp) (parse_desc io)" and l: "length io = sizeof_desc" by blast
    have "mapping_sound fs mp" using map_segment_sound(2)[OF ms assms(1) mp(1)] .
    then have "24 + unat (d_offset (parse_desc io)) + unat (d_payload_size (parse_desc io)) \<le> obj_size fs (mp_base mp)"
      using mp(2) by (auto simp: mapping_sound_def desc_in_bounds_def sizeof_ShmRingHeader_def sizeof_ShmRecordHeader_def)
    moreover have "\<forall>i < obj_size fs (mp_base mp). obj_mem fs' (mp_base mp) i = obj_mem fs (mp_base mp) i"
      using si by (auto simp: same_inside_def)
    ultimately have "read_record (obj_mem fs' (mp_base mp)) (obj_mem fs' (mp_base mp)) (obj_mem fs' (mp_base mp)) (parse_desc io)
        = read_record (obj_mem fs (mp_base mp)) (obj_mem fs (mp_base mp)) (obj_mem fs (mp_base mp)) (parse_desc io)"
      by (intro read_record_cong) auto
    then show ?thesis
      using assms(2) mp l by (auto simp: shm_fetch_payload_def map_segment_inside[OF si] ms Let_def)
  qed
qed

text \<open>
  C24: no descriptor makes a reader leave its mapping. For any bytes a sender may put into the
  descriptor datagram, the fetch keeps every cached mapping sound, and its outcome is the
  same under any kernel state that agrees on the bytes inside the objects: nothing outside
  the mapped record area is ever read.
\<close>

theorem fetch_reads_inside_mapping:
  assumes "cache_sound fs cache" "shm_fetch_payload renv fs d cache io = (r, cache')"
  shows "cache_sound fs cache' \<and>
    (\<forall>fs'. same_inside fs fs' \<longrightarrow> shm_fetch_payload renv fs' d cache io = (r, cache'))"
  using fetch_inside[OF assms] by blast

theorem fetch_reads_inside_mapping_witness:
  "cache_sound empty_fs (snd (shm_fetch_payload reader_up empty_fs 0 [] (replicate 32 255))) \<and>
   shm_fetch_payload reader_up (obj_map_mem empty_fs 0 (\<lambda>m i. 7)) 0 [] (replicate 32 255)
    = shm_fetch_payload reader_up empty_fs 0 [] (replicate 32 255)"
proof -
  have c: "cache_sound empty_fs []" by (simp add: cache_sound_def)
  have si: "same_inside empty_fs (obj_map_mem empty_fs 0 (\<lambda>m i. 7))"
    by (simp add: same_inside_def) (simp add: empty_fs_def obj_size_def empty_object_def)
  show ?thesis
    using fetch_reads_inside_mapping[OF c prod.collapse[symmetric], of reader_up 0 "replicate 32 255"] si by simp
qed

end
