(* ===== verification/Uds_Qos.thy ===== *)
theory Uds_Qos
  imports Uds_Prelude
begin

text \<open>
  Return codes and quality of service (\<^verbatim>\<open>rmw_features.cpp\<close> and the \<^verbatim>\<open>resolve_qos\<close> that
  \<^verbatim>\<open>rmw_publisher.cpp\<close>, \<^verbatim>\<open>rmw_subscription.cpp\<close>, \<^verbatim>\<open>rmw_client.cpp\<close> and
  \<^verbatim>\<open>rmw_service.cpp\<close> each hold a copy of). Policies are the C enumerations of the rmw
  interface, kept at their width; their values are those the interface documents.
\<close>

datatype rmw_ret =
    RMW_RET_OK | RMW_RET_ERROR | RMW_RET_TIMEOUT | RMW_RET_UNSUPPORTED | RMW_RET_BAD_ALLOC
  | RMW_RET_INVALID_ARGUMENT | RMW_RET_INCORRECT_RMW_IMPLEMENTATION | RMW_RET_NODE_NAME_NON_EXISTENT

type_synonym policy = u32

definition HISTORY_SYSTEM_DEFAULT :: policy where "HISTORY_SYSTEM_DEFAULT = 0"
definition HISTORY_KEEP_LAST :: policy where "HISTORY_KEEP_LAST = 1"
definition RELIABILITY_SYSTEM_DEFAULT :: policy where "RELIABILITY_SYSTEM_DEFAULT = 0"
definition RELIABILITY_RELIABLE :: policy where "RELIABILITY_RELIABLE = 1"
definition RELIABILITY_BEST_EFFORT :: policy where "RELIABILITY_BEST_EFFORT = 2"
definition RELIABILITY_BEST_AVAILABLE :: policy where "RELIABILITY_BEST_AVAILABLE = 4"
definition DURABILITY_SYSTEM_DEFAULT :: policy where "DURABILITY_SYSTEM_DEFAULT = 0"
definition DURABILITY_TRANSIENT_LOCAL :: policy where "DURABILITY_TRANSIENT_LOCAL = 1"
definition DURABILITY_VOLATILE :: policy where "DURABILITY_VOLATILE = 2"
definition DURABILITY_BEST_AVAILABLE :: policy where "DURABILITY_BEST_AVAILABLE = 4"

lemmas policy_defs = HISTORY_SYSTEM_DEFAULT_def HISTORY_KEEP_LAST_def RELIABILITY_SYSTEM_DEFAULT_def
  RELIABILITY_RELIABLE_def RELIABILITY_BEST_EFFORT_def RELIABILITY_BEST_AVAILABLE_def
  DURABILITY_SYSTEM_DEFAULT_def DURABILITY_TRANSIENT_LOCAL_def DURABILITY_VOLATILE_def
  DURABILITY_BEST_AVAILABLE_def

text \<open>The profile; the fields after the depth are carried and never looked at.\<close>

record qos_profile =
  q_history :: policy
  q_depth :: u64
  q_reliability :: policy
  q_durability :: policy
  q_deadline :: "u64 \<times> u64"
  q_lifespan :: "u64 \<times> u64"
  q_liveliness :: policy
  q_liveliness_lease :: "u64 \<times> u64"
  q_avoid_ros_namespace :: bool

definition zero_qos :: qos_profile where
  "zero_qos = \<lparr>q_history = 0, q_depth = 0, q_reliability = 0, q_durability = 0, q_deadline = (0, 0),
     q_lifespan = (0, 0), q_liveliness = 0, q_liveliness_lease = (0, 0), q_avoid_ros_namespace = False\<rparr>"

definition resolve_qos :: "qos_profile \<Rightarrow> qos_profile" where
  "resolve_qos qos =
     (let r0 = qos;
          r1 = (if q_history r0 = HISTORY_SYSTEM_DEFAULT then r0\<lparr>q_history := HISTORY_KEEP_LAST\<rparr> else r0);
          r2 = (if q_depth r1 = 0 then r1\<lparr>q_depth := 10\<rparr> else r1);
          r3 = (if q_reliability r2 = RELIABILITY_SYSTEM_DEFAULT \<or> q_reliability r2 = RELIABILITY_BEST_AVAILABLE
                then r2\<lparr>q_reliability := RELIABILITY_RELIABLE\<rparr> else r2)
      in if q_durability r3 = DURABILITY_SYSTEM_DEFAULT \<or> q_durability r3 = DURABILITY_BEST_AVAILABLE
         then r3\<lparr>q_durability := DURABILITY_VOLATILE\<rparr> else r3)"

section \<open>Compatibility\<close>

datatype qos_compatibility = Qos_ok | Qos_warning

text \<open>
  \<^verbatim>\<open>set_reason\<close>: the caller's buffer is \<open>None\<close> for a null pointer or \<open>Some\<close> its size; the text
  in it is the string up to the terminator, and its length is the lambda's \<^verbatim>\<open>reason_len\<close>.
\<close>

definition set_reason :: "nat option \<Rightarrow> string \<Rightarrow> string \<Rightarrow> string" where
  "set_reason buf msg reason =
     (case buf of
        None \<Rightarrow> reason
      | Some sz \<Rightarrow>
          if sz = 0 \<or> length reason \<ge> sz - 1 then reason
          else (let sep = (if 0 < length reason then ''; '' else '''')
                in reason @ take (sz - length reason - 1) (sep @ msg)))"

definition rmw_qos_profile_check_compatible ::
    "qos_profile \<Rightarrow> qos_profile \<Rightarrow> bool \<Rightarrow> nat option \<Rightarrow> rmw_ret \<times> (qos_compatibility \<times> string) option" where
  "rmw_qos_profile_check_compatible pub sub compat_null buf =
     (if compat_null then (RMW_RET_INVALID_ARGUMENT, None)
      else (let s0 = (Qos_ok, []);
                s1 = (if q_reliability pub = RELIABILITY_BEST_EFFORT \<and> q_reliability sub = RELIABILITY_RELIABLE
                      then (Qos_warning, set_reason buf ''best effort publisher with reliable subscriber'' (snd s0))
                      else s0);
                s2 = (if q_durability pub = DURABILITY_VOLATILE \<and> q_durability sub = DURABILITY_TRANSIENT_LOCAL
                      then (Qos_warning, set_reason buf ''volatile publisher with transient local subscriber'' (snd s1))
                      else s1)
            in (RMW_RET_OK, Some s2)))"

datatype rmw_feature = Publication_sequence_number | Reception_sequence_number | Other_feature nat

fun rmw_feature_supported :: "rmw_feature \<Rightarrow> bool" where
  "rmw_feature_supported Publication_sequence_number = True"
| "rmw_feature_supported Reception_sequence_number = True"
| "rmw_feature_supported (Other_feature _) = False"

section \<open>Facts about resolved profiles\<close>

definition qos_resolved :: "qos_profile \<Rightarrow> bool" where
  "qos_resolved q \<longleftrightarrow> q_history q \<noteq> HISTORY_SYSTEM_DEFAULT \<and> q_depth q \<noteq> 0 \<and>
     q_reliability q \<notin> {RELIABILITY_SYSTEM_DEFAULT, RELIABILITY_BEST_AVAILABLE} \<and>
     q_durability q \<notin> {DURABILITY_SYSTEM_DEFAULT, DURABILITY_BEST_AVAILABLE}"

lemma resolve_qos_resolved: "qos_resolved (resolve_qos q)"
  by (simp add: qos_resolved_def resolve_qos_def Let_def policy_defs)

lemma resolve_qos_id: "qos_resolved q \<Longrightarrow> resolve_qos q = q"
  by (simp add: qos_resolved_def resolve_qos_def Let_def policy_defs)

lemma resolve_qos_depth [simp]: "q_depth (resolve_qos q) \<noteq> 0"
  using resolve_qos_resolved[of q] by (simp add: qos_resolved_def)

lemma set_reason_fits: "length reason < sz \<Longrightarrow> length (set_reason (Some sz) msg reason) < sz"
  by (auto simp: set_reason_def Let_def)


end
