(* ===== verification/Uds_Registry.thy ===== *)
theory Uds_Registry
  imports Uds_Names Uds_Qos
begin

text \<open>
  The discovery registry (\<^verbatim>\<open>registry.hpp\<close>, \<^verbatim>\<open>registry.cpp\<close>): a fixed array of slots in
  shared memory, each with a sequence counter, a state byte and a payload. This theory
  models the operations as they run when no other operation on the same slot overlaps them;
  the interleavings inside one slot are the subject of \<open>Uds_Slot_Race\<close>. Effects on the
  outside (files unlinked, doorbells rung) are returned in the order the code performs them.
\<close>

section \<open>Layout\<close>

definition REGISTRY_MAX_ENTRIES :: nat where "REGISTRY_MAX_ENTRIES = 32768"
definition REGISTRY_VERSION :: u32 where "REGISTRY_VERSION = 4"

type_synonym entry_type = u8

definition ENTRY_EMPTY :: entry_type where "ENTRY_EMPTY = 0"
definition ENTRY_NODE :: entry_type where "ENTRY_NODE = 1"
definition ENTRY_PUBLISHER :: entry_type where "ENTRY_PUBLISHER = 2"
definition ENTRY_SUBSCRIPTION :: entry_type where "ENTRY_SUBSCRIPTION = 3"
definition ENTRY_SERVICE :: entry_type where "ENTRY_SERVICE = 4"
definition ENTRY_CLIENT :: entry_type where "ENTRY_CLIENT = 5"
definition ENTRY_DOORBELL :: entry_type where "ENTRY_DOORBELL = 6"
definition ENTRY_RESERVED :: entry_type where "ENTRY_RESERVED = 0xFF"

declare ENTRY_EMPTY_def [uds_defs] ENTRY_NODE_def [uds_defs] ENTRY_PUBLISHER_def [uds_defs]
  ENTRY_SUBSCRIPTION_def [uds_defs] ENTRY_SERVICE_def [uds_defs] ENTRY_CLIENT_def [uds_defs]
  ENTRY_DOORBELL_def [uds_defs] ENTRY_RESERVED_def [uds_defs]

record payload =
  pl_pid :: int
  pl_gid :: bytes
  pl_node_name :: string
  pl_node_namespace :: string
  pl_topic_name :: string
  pl_type_name :: string
  pl_socket_path :: string
  pl_qos_reliability :: u8
  pl_qos_durability :: u8
  pl_qos_history :: u8
  pl_qos_depth :: u32

record reg_entry =
  en_type :: entry_type
  en_payload :: payload

record slot =
  sl_seq :: u32
  sl_state :: entry_type
  sl_payload :: payload

record registry =
  rg_slots :: "slot list"
  rg_generation :: u64
  rg_high_water :: nat

definition zero_payload :: payload where
  "zero_payload = \<lparr>pl_pid = 0, pl_gid = replicate 16 0, pl_node_name = [], pl_node_namespace = [],
     pl_topic_name = [], pl_type_name = [], pl_socket_path = [], pl_qos_reliability = 0,
     pl_qos_durability = 0, pl_qos_history = 0, pl_qos_depth = 0\<rparr>"

definition zero_slot :: slot where
  "zero_slot = \<lparr>sl_seq = 0, sl_state = ENTRY_EMPTY, sl_payload = zero_payload\<rparr>"

text \<open>\<^verbatim>\<open>initialize_header\<close>: zeroed region, version published last.\<close>

definition initialize_header :: registry where
  "initialize_header = \<lparr>rg_slots = replicate REGISTRY_MAX_ENTRIES zero_slot, rg_generation = 0, rg_high_water = 0\<rparr>"

definition max_entries :: "registry \<Rightarrow> nat" where
  "max_entries r = length (rg_slots r)"

text \<open>\<^verbatim>\<open>strncpy(dst, src, sizeof(dst) - 1)\<close> into a zeroed array of \<open>n\<close> characters.\<close>

definition fit :: "nat \<Rightarrow> string \<Rightarrow> string" where
  "fit n s = take (n - 1) s"

section \<open>Snapshot of one slot\<close>

text \<open>
  One pass of the reader's loop sees the sequence counter, the state, a copy of the payload
  and the counter again. \<open>obs k\<close> is what the pass with \<open>k\<close> retries left sees.
\<close>

record slot_read =
  rd_s1 :: u32
  rd_state :: entry_type
  rd_payload :: payload
  rd_s2 :: u32

definition MAX_READ_RETRIES :: nat where "MAX_READ_RETRIES = 16"

fun snapshot_loop :: "nat \<Rightarrow> (nat \<Rightarrow> slot_read) \<Rightarrow> (entry_type \<times> payload \<times> u32) option" where
  "snapshot_loop 0 obs = None"
| "snapshot_loop (Suc k) obs =
     (let r = obs k in
      if odd (unat (rd_s1 r)) then snapshot_loop k obs
      else if rd_state r = ENTRY_EMPTY \<or> rd_state r = ENTRY_RESERVED then None
      else if rd_s1 r = rd_s2 r then Some (rd_state r, rd_payload r, rd_s1 r)
      else snapshot_loop k obs)"

definition read_still :: "slot \<Rightarrow> slot_read" where
  "read_still s = \<lparr>rd_s1 = sl_seq s, rd_state = sl_state s, rd_payload = sl_payload s, rd_s2 = sl_seq s\<rparr>"

definition snapshot_slot :: "slot \<Rightarrow> (entry_type \<times> payload \<times> u32) option" where
  "snapshot_slot s = snapshot_loop MAX_READ_RETRIES (\<lambda>_. read_still s)"

section \<open>Doorbells\<close>

text \<open>
  What \<^verbatim>\<open>sendto\<close> answers for a path, at the first attempt and at the retry on a fresh
  socket, and whether the sockets could be created. The result lists the paths an octet
  was offered to.
\<close>

datatype ring_answer = Ring_sent | Ring_again | Ring_failed

record ring_env =
  rg_fd_ok :: bool
  rg_send :: "string \<Rightarrow> ring_answer"
  rg_recreate_ok :: bool

fun ring_slots :: "ring_env \<Rightarrow> slot list \<Rightarrow> string list" where
  "ring_slots env [] = []"
| "ring_slots env (s # ss) =
     (if sl_state s \<noteq> ENTRY_DOORBELL then ring_slots env ss
      else if odd (unat (sl_seq s)) then ring_slots env ss
      else let path = pl_socket_path (sl_payload s) in
           if path = [] then ring_slots env ss
           else if rg_send env path = Ring_again
                then (if \<not> rg_recreate_ok env then [path] else path # path # ring_slots env ss)
                else path # ring_slots env ss)"

definition ring_doorbells :: "ring_env \<Rightarrow> registry \<Rightarrow> string list" where
  "ring_doorbells env r =
     (if \<not> rg_fd_ok env then [] else ring_slots env (take (rg_high_water r) (rg_slots r)))"

section \<open>Adding\<close>

definition write_slot_payload :: "slot \<Rightarrow> payload \<Rightarrow> slot" where
  "write_slot_payload s p = s\<lparr>sl_seq := sl_seq s + 1 + 1, sl_payload := p\<rparr>"

definition set_slot :: "registry \<Rightarrow> nat \<Rightarrow> slot \<Rightarrow> registry" where
  "set_slot r i s = r\<lparr>rg_slots := (rg_slots r)[i := s]\<rparr>"

text \<open>The scan for an empty slot: \<open>k\<close> slots remain from index \<open>i\<close>.\<close>

fun find_empty :: "nat \<Rightarrow> slot list \<Rightarrow> nat option" where
  "find_empty i [] = None"
| "find_empty i (s # ss) = (if sl_state s = ENTRY_EMPTY then Some i else find_empty (Suc i) ss)"

definition claim_slot :: "registry \<Rightarrow> nat \<Rightarrow> reg_entry \<Rightarrow> registry" where
  "claim_slot r i e =
     (let s = rg_slots r ! i;
          reserved = s\<lparr>sl_state := ENTRY_RESERVED\<rparr>;
          written = write_slot_payload reserved (en_payload e);
          published = written\<lparr>sl_state := en_type e\<rparr>;
          r1 = set_slot r i published;
          r2 = r1\<lparr>rg_high_water := max (rg_high_water r1) (Suc i)\<rparr>
      in r2\<lparr>rg_generation := rg_generation r2 + 1\<rparr>)"

definition try_add_once :: "ring_env \<Rightarrow> registry \<Rightarrow> reg_entry \<Rightarrow> nat option \<times> registry \<times> string list" where
  "try_add_once env r e =
     (case find_empty 0 (rg_slots r) of
        None \<Rightarrow> (None, r, [])
      | Some i \<Rightarrow>
          (let r' = claim_slot r i e
           in (Some i, r', if en_type e \<noteq> ENTRY_DOORBELL then ring_doorbells env r' else [])))"

section \<open>Removing\<close>

datatype unlink_effect = Unlink_shm string | Unlink_file string

definition teardown_slot :: "slot \<Rightarrow> slot \<times> unlink_effect list" where
  "teardown_slot s =
     (let path_copy = pl_socket_path (sl_payload s) in
      (s\<lparr>sl_seq := sl_seq s + 1 + 1, sl_payload := zero_payload\<rparr>,
       if path_copy \<noteq> []
       then (if take 13 path_copy = ''/ros2_uds_tl_'' then [Unlink_shm path_copy] else [Unlink_file path_copy])
       else []))"

definition tear_out :: "registry \<Rightarrow> nat \<Rightarrow> registry \<times> unlink_effect list" where
  "tear_out r i =
     (let (s', eff) = teardown_slot ((rg_slots r ! i)\<lparr>sl_state := ENTRY_EMPTY\<rparr>);
          r1 = set_slot r i s'
      in (r1\<lparr>rg_generation := rg_generation r1 + 1\<rparr>, eff))"

definition registry_remove ::
    "ring_env \<Rightarrow> registry \<Rightarrow> int \<Rightarrow> registry \<times> unlink_effect list \<times> string list" where
  "registry_remove env r index =
     (if index < 0 \<or> int (max_entries r) \<le> index then (r, [], [])
      else let i = nat index; st = sl_state (rg_slots r ! i) in
           if st = ENTRY_EMPTY then (r, [], [])
           else (let (r', eff) = tear_out r i
                 in (r', eff, if st \<noteq> ENTRY_DOORBELL then ring_doorbells env r' else [])))"

section \<open>Sweeping dead owners\<close>

fun cleanup_loop ::
    "(int \<Rightarrow> proc_stat) \<Rightarrow> nat list \<Rightarrow> registry \<times> unlink_effect list \<times> bool \<Rightarrow> registry \<times> unlink_effect list \<times> bool" where
  "cleanup_loop proc [] acc = acc"
| "cleanup_loop proc (i # is) (r, effs, reclaimed) =
     (let s = rg_slots r ! i in
      if sl_state s = ENTRY_EMPTY then cleanup_loop proc is (r, effs, reclaimed)
      else case snapshot_slot s of
             None \<Rightarrow> cleanup_loop proc is (r, effs, reclaimed)
           | Some (st, p, sq) \<Rightarrow>
               if pl_pid p = 0 then cleanup_loop proc is (r, effs, reclaimed)
               else if pid_is_alive_or_unreachable proc (pl_pid p) then cleanup_loop proc is (r, effs, reclaimed)
               else if sl_seq s \<noteq> sq then cleanup_loop proc is (r, effs, reclaimed)
               else if sl_state s \<noteq> st then cleanup_loop proc is (r, effs, reclaimed)
               else (let (r', eff) = tear_out r i
                     in cleanup_loop proc is (r', effs @ eff, reclaimed \<or> st \<noteq> ENTRY_DOORBELL)))"

definition registry_cleanup_stale ::
    "ring_env \<Rightarrow> (int \<Rightarrow> proc_stat) \<Rightarrow> registry \<Rightarrow> registry \<times> unlink_effect list \<times> string list" where
  "registry_cleanup_stale env proc r =
     (let (r', effs, reclaimed) =
            cleanup_loop proc [0..<min (rg_high_water r) (max_entries r)] (r, [], False)
      in (r', effs, if reclaimed then ring_doorbells env r' else []))"

text \<open>\<open>registry_add\<close>: one pass, then a sweep and one more pass when the table is full.\<close>

definition registry_add ::
    "ring_env \<Rightarrow> (int \<Rightarrow> proc_stat) \<Rightarrow> registry \<Rightarrow> reg_entry \<Rightarrow>
       int \<times> registry \<times> unlink_effect list \<times> string list" where
  "registry_add env proc r e =
     (case try_add_once env r e of
        (Some i, r1, rung) \<Rightarrow> (int i, r1, [], rung)
      | (None, r1, _) \<Rightarrow>
          (case registry_cleanup_stale env proc r1 of
             (r2, effs, rung2) \<Rightarrow>
               (case try_add_once env r2 e of
                  (Some i, r3, rung3) \<Rightarrow> (int i, r3, effs, rung2 @ rung3)
                | (None, r3, _) \<Rightarrow> (-1, r3, effs, rung2))))"

section \<open>Querying\<close>

record query_result =
  qr_node_name :: string
  qr_node_namespace :: string
  qr_topic_name :: string
  qr_type_name :: string
  qr_socket_path :: string
  qr_gid :: bytes
  qr_type :: entry_type
  qr_qos :: qos_profile

definition snapshot_to_qos :: "payload \<Rightarrow> qos_profile" where
  "snapshot_to_qos p = zero_qos\<lparr>q_reliability := ucast (pl_qos_reliability p),
     q_durability := ucast (pl_qos_durability p), q_history := ucast (pl_qos_history p),
     q_depth := ucast (pl_qos_depth p)\<rparr>"

definition to_result :: "entry_type \<Rightarrow> payload \<Rightarrow> query_result" where
  "to_result st p = \<lparr>qr_node_name = pl_node_name p, qr_node_namespace = pl_node_namespace p,
     qr_topic_name = pl_topic_name p, qr_type_name = pl_type_name p, qr_socket_path = pl_socket_path p,
     qr_gid = pl_gid p, qr_type = st, qr_qos = snapshot_to_qos p\<rparr>"

definition matches :: "entry_type \<Rightarrow> string option \<Rightarrow> string option \<Rightarrow> string option \<Rightarrow> entry_type \<Rightarrow> payload \<Rightarrow> bool" where
  "matches type_filter topic node ns st p \<longleftrightarrow>
     st \<noteq> ENTRY_EMPTY \<and>
     (type_filter = ENTRY_EMPTY \<or> st = type_filter) \<and>
     (case topic of None \<Rightarrow> True | Some t \<Rightarrow> pl_topic_name p = t) \<and>
     (case node of None \<Rightarrow> True | Some n \<Rightarrow> pl_node_name p = n) \<and>
     (case ns of None \<Rightarrow> True | Some n \<Rightarrow> pl_node_namespace p = n)"

definition query_slot ::
    "entry_type \<Rightarrow> string option \<Rightarrow> string option \<Rightarrow> string option \<Rightarrow> slot \<Rightarrow> query_result list" where
  "query_slot type_filter topic node ns s =
     (if sl_state s = ENTRY_EMPTY then []
      else if type_filter \<noteq> ENTRY_EMPTY \<and> sl_state s \<noteq> type_filter then []
      else case snapshot_slot s of
             None \<Rightarrow> []
           | Some (st, p, _) \<Rightarrow>
               if matches type_filter topic node ns st p then [to_result st p] else [])"

definition registry_query ::
    "registry \<Rightarrow> entry_type \<Rightarrow> string option \<Rightarrow> string option \<Rightarrow> string option \<Rightarrow> query_result list" where
  "registry_query r type_filter topic node ns =
     concat (map (query_slot type_filter topic node ns)
       (take (min (rg_high_water r) (max_entries r)) (rg_slots r)))"

definition registry_generation :: "registry \<Rightarrow> u64" where
  "registry_generation r = rg_generation r"

section \<open>Opening\<close>

text \<open>
  \<^verbatim>\<open>registry_open\<close>: two attempts at most. The file under the domain's name is its size, its
  version word and its table. The calls' outcomes in one attempt are the record \<open>open_env\<close>;
  \<open>oe_version k\<close> is what the \<open>k\<close>-th poll of the version word sees, and poll \<open>OPEN_POLLS\<close> is the load
  after the spin. The size of the C header depends on the C library's mutex, so it is an
  argument.
\<close>

record reg_file =
  rf_size :: nat
  rf_version :: u32
  rf_table :: registry

record open_env =
  oe_create_ok :: bool
  oe_truncate_ok :: bool
  oe_reopen_ok :: bool
  oe_stat_ok :: bool
  oe_map_ok :: bool
  oe_version :: "nat \<Rightarrow> u32"

datatype open_result = Open_failed | Open_retry | Opened

definition compute_registry_size :: "nat \<Rightarrow> nat" where
  "compute_registry_size header_bytes = header_bytes + REGISTRY_MAX_ENTRIES * 1168"

definition fresh_file :: "nat \<Rightarrow> reg_file" where
  "fresh_file hb = \<lparr>rf_size = compute_registry_size hb, rf_version = REGISTRY_VERSION, rf_table = initialize_header\<rparr>"

definition OPEN_POLLS :: nat where "OPEN_POLLS = 10000"

definition open_attempt :: "nat \<Rightarrow> open_env \<Rightarrow> reg_file option \<Rightarrow> open_result \<times> reg_file option" where
  "open_attempt hb env f =
     (case f of
        None \<Rightarrow>
          if \<not> oe_create_ok env then (Open_failed, None)
          else if \<not> oe_truncate_ok env then (Open_failed, None)
          else if \<not> oe_map_ok env then (Open_failed, Some ((fresh_file hb)\<lparr>rf_version := 0\<rparr>))
          else (Opened, Some (fresh_file hb))
      | Some g \<Rightarrow>
          if \<not> oe_reopen_ok env \<or> \<not> oe_stat_ok env then (Open_failed, Some g)
          else if rf_size g \<noteq> compute_registry_size hb then (Open_retry, None)
          else if \<not> oe_map_ok env then (Open_failed, Some g)
          else if \<exists>i\<in>set [0..<OPEN_POLLS]. oe_version env i = REGISTRY_VERSION then (Opened, Some g)
          else (let v = oe_version env OPEN_POLLS
                in if v \<noteq> 0 \<and> v \<noteq> REGISTRY_VERSION then (Open_retry, None)
                   else (Opened, Some (fresh_file hb))))"

fun open_loop :: "nat \<Rightarrow> (nat \<Rightarrow> open_env) \<Rightarrow> nat \<Rightarrow> reg_file option \<Rightarrow> bool \<times> reg_file option" where
  "open_loop hb env 0 f = (False, f)"
| "open_loop hb env (Suc k) f =
     (case open_attempt hb (env k) f of
        (Open_failed, f') \<Rightarrow> (False, f')
      | (Opened, f') \<Rightarrow> (True, f')
      | (Open_retry, f') \<Rightarrow> open_loop hb env k f')"

definition registry_open :: "nat \<Rightarrow> (nat \<Rightarrow> open_env) \<Rightarrow> reg_file option \<Rightarrow> bool \<times> reg_file option" where
  "registry_open hb env f = open_loop hb env 2 f"

end
