(* ===== verification/Uds_Registry_Props.thy ===== *)
theory Uds_Registry_Props
  imports Uds_Registry
begin

text \<open>
  What the registry promises, as a finite map from slot indices to published entries:
  adding is an update at a free index, removing a deletion, the sweep a restriction to live
  owners, and a query the list of matching entries in index order. The invariant
  \<open>wf_registry\<close> is the quiescent state of every slot.
\<close>

section \<open>The invariant and the abstraction\<close>

definition wf_slot :: "slot \<Rightarrow> bool" where
  "wf_slot s \<longleftrightarrow> even (unat (sl_seq s)) \<and> sl_state s \<noteq> ENTRY_RESERVED"

definition occupied :: "slot \<Rightarrow> bool" where
  "occupied s \<longleftrightarrow> sl_state s \<noteq> ENTRY_EMPTY"

definition wf_registry :: "registry \<Rightarrow> bool" where
  "wf_registry r \<longleftrightarrow> (\<forall>s\<in>set (rg_slots r). wf_slot s) \<and>
     (\<forall>i < max_entries r. occupied (rg_slots r ! i) \<longrightarrow> i < rg_high_water r) \<and>
     rg_high_water r \<le> max_entries r \<and> max_entries r < 2 ^ 31"

definition slot_entry :: "slot \<Rightarrow> reg_entry option" where
  "slot_entry s = (if occupied s then Some \<lparr>en_type = sl_state s, en_payload = sl_payload s\<rparr> else None)"

definition entries :: "registry \<Rightarrow> nat \<Rightarrow> reg_entry option" where
  "entries r i = (if i < max_entries r then slot_entry (rg_slots r ! i) else None)"

definition wf_entry :: "reg_entry \<Rightarrow> bool" where
  "wf_entry e \<longleftrightarrow> en_type e \<noteq> ENTRY_EMPTY \<and> en_type e \<noteq> ENTRY_RESERVED"

definition dead_entry :: "(int \<Rightarrow> proc_stat) \<Rightarrow> reg_entry \<Rightarrow> bool" where
  "dead_entry proc e \<longleftrightarrow> pl_pid (en_payload e) \<noteq> 0 \<and> \<not> pid_is_alive_or_unreachable proc (pl_pid (en_payload e))"

lemma even_plus_two [simp]: "even (unat (2 + w :: u32)) = even (unat w)"
proof -
  have "unat (2 + w) = (2 + unat w) mod 2 ^ 32"
    by (simp add: unat_word_ariths)
  moreover have "even ((2 + unat w) mod 2 ^ 32) = even (2 + unat w)"
    by (rule dvd_mod_iff) simp
  ultimately show ?thesis by simp
qed

lemma snapshot_of_wf:
  assumes "wf_slot s"
  shows "snapshot_slot s = (if occupied s then Some (sl_state s, sl_payload s, sl_seq s) else None)"
  using assms by (simp add: snapshot_slot_def MAX_READ_RETRIES_def read_still_def wf_slot_def occupied_def
      eval_nat_numeral del: even_plus_two)

lemma wf_slotD: "wf_registry r \<Longrightarrow> i < max_entries r \<Longrightarrow> wf_slot (rg_slots r ! i)"
  by (simp add: wf_registry_def max_entries_def)

lemma max_entries_set [simp]: "max_entries (set_slot r i s) = max_entries r"
  by (simp add: max_entries_def set_slot_def)

lemma rg_high_water_set [simp]: "rg_high_water (set_slot r i s) = rg_high_water r"
  by (simp add: set_slot_def)

lemma rg_slots_set [simp]: "rg_slots (set_slot r i s) = (rg_slots r)[i := s]"
  by (simp add: set_slot_def)

lemma entries_set_slot:
  assumes "i < max_entries r"
  shows "entries (set_slot r i s) = (entries r)(i := slot_entry s)"
  using assms by (auto simp: entries_def max_entries_def set_slot_def nth_list_update)

lemma entries_update [simp]:
  "entries (r\<lparr>rg_generation := g\<rparr>) = entries r" "entries (r\<lparr>rg_high_water := h\<rparr>) = entries r"
  by (auto simp: entries_def max_entries_def)

lemma max_entries_update [simp]:
  "max_entries (r\<lparr>rg_generation := g\<rparr>) = max_entries r" "max_entries (r\<lparr>rg_high_water := h\<rparr>) = max_entries r"
  by (auto simp: max_entries_def)

lemma entries_high_water:
  "wf_registry r \<Longrightarrow> entries r i \<noteq> None \<Longrightarrow> i < rg_high_water r"
  by (auto simp: wf_registry_def entries_def slot_entry_def split: if_splits)

section \<open>Initialisation and claiming\<close>

lemma wf_initialize_header: "wf_registry initialize_header"
  by (simp add: wf_registry_def initialize_header_def max_entries_def REGISTRY_MAX_ENTRIES_def wf_slot_def
      zero_slot_def occupied_def uds_defs)

lemma entries_initialize: "entries initialize_header = Map.empty"
  by (auto simp: entries_def slot_entry_def occupied_def initialize_header_def zero_slot_def max_entries_def
      uds_defs fun_eq_iff)

lemma find_empty_Some:
  "find_empty k ss = Some i \<Longrightarrow> k \<le> i \<and> i < k + length ss \<and> \<not> occupied (ss ! (i - k)) \<and>
     (\<forall>j < i - k. occupied (ss ! j))"
proof (induction k ss rule: find_empty.induct)
  case (2 k s ss)
  show ?case
  proof (cases "sl_state s = ENTRY_EMPTY")
    case True
    then show ?thesis using 2 by (auto simp: occupied_def)
  next
    case False
    then have IH: "Suc k \<le> i" "i < Suc k + length ss" "\<not> occupied (ss ! (i - Suc k))"
      "\<forall>j < i - Suc k. occupied (ss ! j)" using 2 by auto
    have e: "i - k = Suc (i - Suc k)" using IH(1) by simp
    have "\<forall>j < i - k. occupied ((s # ss) ! j)"
      using IH(4) False by (auto simp: e less_Suc_eq_0_disj occupied_def)
    then show ?thesis using IH e by auto
  qed
qed simp

lemma find_empty_None: "find_empty k ss = None \<longleftrightarrow> (\<forall>s\<in>set ss. occupied s)"
  by (induction k ss rule: find_empty.induct) (auto simp: occupied_def)

lemma claim_slot_entries:
  assumes "i < max_entries r" "wf_entry e"
  shows "entries (claim_slot r i e) = (entries r)(i \<mapsto> e)"
  using assms
  by (cases e) (simp add: claim_slot_def Let_def entries_set_slot slot_entry_def occupied_def
      write_slot_payload_def wf_entry_def)

lemma claim_slot_wf:
  assumes "wf_registry r" "i < max_entries r" "wf_entry e"
  shows "wf_registry (claim_slot r i e)"
proof -
  let ?s = "(write_slot_payload ((rg_slots r ! i)\<lparr>sl_state := ENTRY_RESERVED\<rparr>) (en_payload e))\<lparr>sl_state := en_type e\<rparr>"
  have s: "wf_slot ?s"
    using assms wf_slotD[OF assms(1,2)] by (simp add: wf_slot_def write_slot_payload_def wf_entry_def)
  have sl: "rg_slots (claim_slot r i e) = (rg_slots r)[i := ?s]"
    "rg_high_water (claim_slot r i e) = max (rg_high_water r) (Suc i)" "max_entries (claim_slot r i e) = max_entries r"
    by (simp_all add: claim_slot_def Let_def)
  show ?thesis
    using assms s set_update_subset_insert[of "rg_slots r" i ?s]
    by (auto simp: wf_registry_def sl nth_list_update max_entries_def)
qed

lemma claim_slot_generation [simp]: "rg_generation (claim_slot r i e) = rg_generation r + 1"
  by (simp add: claim_slot_def Let_def set_slot_def)

lemma claim_slot_max [simp]: "max_entries (claim_slot r i e) = max_entries r"
  by (simp add: claim_slot_def Let_def)

lemma try_add_once_Some:
  assumes "try_add_once env r e = (Some i, r', rung)"
  shows "i < max_entries r \<and> entries r i = None \<and> r' = claim_slot r i e \<and> (\<forall>j < i. entries r j \<noteq> None) \<and>
    rung = (if en_type e \<noteq> ENTRY_DOORBELL then ring_doorbells env r' else [])"
proof -
  have f: "find_empty 0 (rg_slots r) = Some i" and r: "r' = claim_slot r i e"
    "rung = (if en_type e \<noteq> ENTRY_DOORBELL then ring_doorbells env r' else [])"
    using assms by (auto simp: try_add_once_def Let_def split: option.splits if_splits)
  show ?thesis
    using find_empty_Some[OF f] r by (auto simp: entries_def slot_entry_def max_entries_def)
qed

lemma try_add_once_None:
  assumes "try_add_once env r e = (None, r', rung)"
  shows "r' = r \<and> (\<forall>i < max_entries r. entries r i \<noteq> None)"
proof -
  have "find_empty 0 (rg_slots r) = None" "r' = r"
    using assms by (auto simp: try_add_once_def Let_def split: option.splits if_splits)
  then show ?thesis
    unfolding find_empty_None by (auto simp: entries_def slot_entry_def max_entries_def)
qed

section \<open>Removing and sweeping\<close>

lemma tear_out_props:
  assumes "wf_registry r" "i < max_entries r" "tear_out r i = (r', eff)"
  shows "wf_registry r'" "entries r' = (entries r)(i := None)" "max_entries r' = max_entries r"
    "rg_generation r' = rg_generation r + 1" "rg_high_water r' = rg_high_water r"
    "eff = snd (teardown_slot (rg_slots r ! i))"
proof -
  let ?s = "fst (teardown_slot ((rg_slots r ! i)\<lparr>sl_state := ENTRY_EMPTY\<rparr>))"
  have r': "r' = (set_slot r i ?s)\<lparr>rg_generation := rg_generation r + 1\<rparr>"
    and e: "eff = snd (teardown_slot (rg_slots r ! i))"
    using assms(3) by (auto simp: tear_out_def teardown_slot_def Let_def set_slot_def)
  have empty: "slot_entry ?s = None" by (simp add: teardown_slot_def Let_def slot_entry_def occupied_def)
  have "wf_slot ?s"
    using wf_slotD[OF assms(1,2)] by (simp add: wf_slot_def teardown_slot_def Let_def uds_defs)
  then show "wf_registry r'"
    using assms(1,2) empty set_update_subset_insert[of "rg_slots r" i ?s]
    by (auto simp: wf_registry_def r' nth_list_update max_entries_def slot_entry_def split: if_splits)
  show "entries r' = (entries r)(i := None)"
    using assms(2) empty by (simp add: r' entries_set_slot)
  show "max_entries r' = max_entries r" "rg_generation r' = rg_generation r + 1"
    "rg_high_water r' = rg_high_water r" by (simp_all add: r')
  show "eff = snd (teardown_slot (rg_slots r ! i))" by (rule e)
qed

text \<open>The path a slot's teardown unlinks, by what it names.\<close>

definition entry_unlinks :: "reg_entry \<Rightarrow> unlink_effect list" where
  "entry_unlinks e =
     (let p = pl_socket_path (en_payload e) in
      if p = [] then [] else if take 13 p = ''/ros2_uds_tl_'' then [Unlink_shm p] else [Unlink_file p])"

lemma teardown_unlinks:
  "entries r i = Some e \<Longrightarrow> snd (teardown_slot (rg_slots r ! i)) = entry_unlinks e"
  by (auto simp: entries_def slot_entry_def teardown_slot_def Let_def entry_unlinks_def split: if_splits)

text \<open>One round of the sweep, on a well-formed table.\<close>

lemma cleanup_step:
  assumes "wf_registry r" "i < max_entries r"
  shows "cleanup_loop proc (i # is) (r, effs, rec) =
    (case entries r i of
       None \<Rightarrow> cleanup_loop proc is (r, effs, rec)
     | Some e \<Rightarrow>
         if dead_entry proc e
         then cleanup_loop proc is (fst (tear_out r i), effs @ entry_unlinks e, rec \<or> en_type e \<noteq> ENTRY_DOORBELL)
         else cleanup_loop proc is (r, effs, rec))"
proof -
  have w: "wf_slot (rg_slots r ! i)" using assms by (rule wf_slotD)
  have "tear_out r i = (fst (tear_out r i), entry_unlinks e)" if "entries r i = Some e" for e
    using tear_out_props(6)[OF assms, of "fst (tear_out r i)" "snd (tear_out r i)"] teardown_unlinks[OF that]
    by (metis prod.collapse)
  then show ?thesis
    using assms(2) snapshot_of_wf[OF w]
    by (auto simp: entries_def slot_entry_def occupied_def dead_entry_def Let_def split: prod.splits)
qed

definition swept :: "(int \<Rightarrow> proc_stat) \<Rightarrow> nat list \<Rightarrow> (nat \<Rightarrow> reg_entry option) \<Rightarrow> nat \<Rightarrow> reg_entry option" where
  "swept proc is m i = (case m i of Some e \<Rightarrow> if i \<in> set is \<and> dead_entry proc e then None else Some e | None \<Rightarrow> None)"

definition swept_unlinks :: "(int \<Rightarrow> proc_stat) \<Rightarrow> nat list \<Rightarrow> (nat \<Rightarrow> reg_entry option) \<Rightarrow> unlink_effect list" where
  "swept_unlinks proc is m =
     concat (map (\<lambda>i. case m i of Some e \<Rightarrow> if dead_entry proc e then entry_unlinks e else [] | None \<Rightarrow> []) is)"

definition swept_rings :: "(int \<Rightarrow> proc_stat) \<Rightarrow> nat list \<Rightarrow> (nat \<Rightarrow> reg_entry option) \<Rightarrow> bool" where
  "swept_rings proc is m \<longleftrightarrow> (\<exists>i\<in>set is. \<exists>e. m i = Some e \<and> dead_entry proc e \<and> en_type e \<noteq> ENTRY_DOORBELL)"

lemma cleanup_loop_props:
  assumes "wf_registry r" "\<forall>i\<in>set is. i < max_entries r" "distinct is"
    and "cleanup_loop proc is (r, effs, rec) = (r', effs', rec')"
  shows "wf_registry r' \<and> max_entries r' = max_entries r \<and> rg_high_water r' = rg_high_water r \<and>
    entries r' = swept proc is (entries r) \<and> effs' = effs @ swept_unlinks proc is (entries r) \<and>
    (rec' \<longleftrightarrow> rec \<or> swept_rings proc is (entries r))"
  using assms
proof (induction "is" arbitrary: r effs rec)
  case Nil
  have "swept proc [] (entries r) = entries r" by (auto simp: swept_def fun_eq_iff split: option.splits)
  then show ?case using Nil by (simp add: swept_unlinks_def swept_rings_def)
next
  case (Cons i "is")
  have i: "i < max_entries r" using Cons.prems by simp
  note step = Cons.prems(4)[unfolded cleanup_step[OF Cons.prems(1) i]]
  show ?case
  proof (cases "\<exists>e. entries r i = Some e \<and> dead_entry proc e")
    case False
    then have "cleanup_loop proc is (r, effs, rec) = (r', effs', rec')"
      using step by (auto split: option.splits)
    then have IH: "wf_registry r' \<and> max_entries r' = max_entries r \<and> rg_high_water r' = rg_high_water r \<and>
        entries r' = swept proc is (entries r) \<and> effs' = effs @ swept_unlinks proc is (entries r) \<and>
        (rec' \<longleftrightarrow> rec \<or> swept_rings proc is (entries r))"
      using Cons by simp
    have "swept proc (i # is) (entries r) = swept proc is (entries r)"
      using False by (auto simp: swept_def fun_eq_iff split: option.splits)
    moreover have "swept_unlinks proc (i # is) (entries r) = swept_unlinks proc is (entries r)"
      using False by (auto simp: swept_unlinks_def split: option.splits)
    moreover have "swept_rings proc (i # is) (entries r) = swept_rings proc is (entries r)"
      using False by (auto simp: swept_rings_def)
    ultimately show ?thesis using IH by simp
  next
    case True
    then obtain e where e: "entries r i = Some e" "dead_entry proc e" by blast
    let ?r = "fst (tear_out r i)"
    have t: "wf_registry ?r" "entries ?r = (entries r)(i := None)" "max_entries ?r = max_entries r"
      "rg_high_water ?r = rg_high_water r"
      using tear_out_props(1-3,5)[OF Cons.prems(1) i prod.collapse[symmetric]] by blast+
    have l: "cleanup_loop proc is (?r, effs @ entry_unlinks e, rec \<or> en_type e \<noteq> ENTRY_DOORBELL) = (r', effs', rec')"
      using step e by simp
    have IH: "wf_registry r' \<and> max_entries r' = max_entries ?r \<and> rg_high_water r' = rg_high_water ?r \<and>
        entries r' = swept proc is (entries ?r) \<and> effs' = (effs @ entry_unlinks e) @ swept_unlinks proc is (entries ?r) \<and>
        (rec' \<longleftrightarrow> (rec \<or> en_type e \<noteq> ENTRY_DOORBELL) \<or> swept_rings proc is (entries ?r))"
      by (rule Cons.IH[OF t(1) _ _ l]) (use Cons.prems(2,3) t(3) in simp_all)
    have ni: "i \<notin> set is" using Cons.prems(3) by simp
    have "swept proc is (entries ?r) = swept proc (i # is) (entries r)"
      using e ni by (auto simp: swept_def t(2) fun_eq_iff split: option.splits)
    moreover have "swept_unlinks proc (i # is) (entries r) = entry_unlinks e @ swept_unlinks proc is (entries ?r)"
      using e ni by (auto simp: swept_unlinks_def t(2) intro!: arg_cong[of _ _ concat])
    moreover have "swept_rings proc (i # is) (entries r) = (en_type e \<noteq> ENTRY_DOORBELL \<or> swept_rings proc is (entries ?r))"
      using e ni by (auto simp: swept_rings_def t(2))
    ultimately show ?thesis using IH t by auto
  qed
qed

lemma cleanup_loop_generation:
  assumes "wf_registry r" "\<forall>i\<in>set is. i < max_entries r"
    and "cleanup_loop proc is (r, effs, rec) = (r', effs', rec')"
  shows "\<exists>n \<le> length is. rg_generation r' = rg_generation r + of_nat n \<and> (n = 0 \<longrightarrow> r' = r)"
  using assms
proof (induction "is" arbitrary: r effs rec)
  case (Cons i "is")
  have i: "i < max_entries r" using Cons.prems by simp
  note step = Cons.prems(3)[unfolded cleanup_step[OF Cons.prems(1) i]]
  show ?case
  proof (cases "\<exists>e. entries r i = Some e \<and> dead_entry proc e")
    case False
    then have l: "cleanup_loop proc is (r, effs, rec) = (r', effs', rec')"
      using step by (auto split: option.splits)
    obtain n where "n \<le> length is" "rg_generation r' = rg_generation r + of_nat n" "n = 0 \<longrightarrow> r' = r"
      using Cons.IH[OF Cons.prems(1) _ l] Cons.prems(2) by auto
    then show ?thesis by (intro exI[of _ n]) simp
  next
    case True
    then obtain e where e: "entries r i = Some e" "dead_entry proc e" by blast
    let ?r = "fst (tear_out r i)"
    have t: "wf_registry ?r" "max_entries ?r = max_entries r" "rg_generation ?r = rg_generation r + 1"
      using tear_out_props(1,3,4)[OF Cons.prems(1) i prod.collapse[symmetric]] by blast+
    have l: "cleanup_loop proc is (?r, effs @ entry_unlinks e, rec \<or> en_type e \<noteq> ENTRY_DOORBELL) = (r', effs', rec')"
      using step e by simp
    obtain n where "n \<le> length is" "rg_generation r' = rg_generation ?r + of_nat n"
      using Cons.IH[OF t(1) _ l] Cons.prems(2) t(2) by auto
    then show ?thesis by (intro exI[of _ "Suc n"]) (simp add: t(3))
  qed
qed simp

section \<open>The operations on the map\<close>

definition sweep_map :: "(int \<Rightarrow> proc_stat) \<Rightarrow> (nat \<Rightarrow> reg_entry option) \<Rightarrow> nat \<Rightarrow> reg_entry option" where
  "sweep_map proc m i = (case m i of Some e \<Rightarrow> if dead_entry proc e then None else Some e | None \<Rightarrow> None)"

lemma registry_cleanup_stale_props:
  assumes "wf_registry r" "registry_cleanup_stale env proc r = (r', effs, rung)"
  shows "wf_registry r' \<and> max_entries r' = max_entries r \<and> entries r' = sweep_map proc (entries r) \<and>
    effs = swept_unlinks proc [0..<max_entries r] (entries r) \<and>
    rung = (if \<exists>i e. entries r i = Some e \<and> dead_entry proc e \<and> en_type e \<noteq> ENTRY_DOORBELL
            then ring_doorbells env r' else [])"
proof -
  let ?is = "[0..<min (rg_high_water r) (max_entries r)]"
  have hw: "min (rg_high_water r) (max_entries r) = rg_high_water r" "rg_high_water r \<le> max_entries r"
    using assms(1) by (simp_all add: wf_registry_def)
  obtain rec where l: "cleanup_loop proc ?is (r, [], False) = (r', effs, rec)"
    and rung: "rung = (if rec then ring_doorbells env r' else [])"
    using assms(2) by (auto simp: registry_cleanup_stale_def split: prod.splits)
  have c: "wf_registry r' \<and> max_entries r' = max_entries r \<and> rg_high_water r' = rg_high_water r \<and>
      entries r' = swept proc ?is (entries r) \<and> effs = [] @ swept_unlinks proc ?is (entries r) \<and>
      (rec \<longleftrightarrow> False \<or> swept_rings proc ?is (entries r))"
    by (rule cleanup_loop_props[OF assms(1) _ _ l]) auto
  have up: "entries r i = Some e \<Longrightarrow> i < rg_high_water r" for i e
    using entries_high_water[OF assms(1), of i] by simp
  have "swept proc ?is (entries r) = sweep_map proc (entries r)"
    using up by (auto simp: swept_def sweep_map_def hw fun_eq_iff split: option.splits)
  moreover have "swept_unlinks proc ?is (entries r) = swept_unlinks proc [0..<max_entries r] (entries r)"
  proof -
    let ?f = "\<lambda>i. case entries r i of Some e \<Rightarrow> if dead_entry proc e then entry_unlinks e else [] | None \<Rightarrow> []"
    have "concat (map ?f [rg_high_water r..<max_entries r]) = []"
      using up by (fastforce simp: concat_eq_Nil_conv split: option.splits)
    then show ?thesis
      using upt_add_eq_append[of 0 "rg_high_water r" "max_entries r - rg_high_water r"] hw
      by (simp add: swept_unlinks_def)
  qed
  moreover have "swept_rings proc ?is (entries r) \<longleftrightarrow>
      (\<exists>i e. entries r i = Some e \<and> dead_entry proc e \<and> en_type e \<noteq> ENTRY_DOORBELL)"
    using up by (force simp: swept_rings_def hw)
  ultimately show ?thesis using c rung by auto
qed

lemma registry_cleanup_stale_generation:
  assumes "wf_registry r" "registry_cleanup_stale env proc r = (r', effs, rung)"
  shows "\<exists>n < 2 ^ 31. rg_generation r' = rg_generation r + of_nat n \<and> (n = 0 \<longrightarrow> r' = r)"
proof -
  obtain rec where l: "cleanup_loop proc [0..<min (rg_high_water r) (max_entries r)] (r, [], False) = (r', effs, rec)"
    using assms(2) by (auto simp: registry_cleanup_stale_def split: prod.splits)
  have "\<exists>n \<le> length [0..<min (rg_high_water r) (max_entries r)]. rg_generation r' = rg_generation r + of_nat n \<and> (n = 0 \<longrightarrow> r' = r)"
    by (rule cleanup_loop_generation[OF assms(1) _ l]) auto
  moreover have "max_entries r < 2 ^ 31" using assms(1) by (simp add: wf_registry_def)
  ultimately show ?thesis by (auto intro: le_less_trans)
qed

lemma registry_remove_props:
  assumes "wf_registry r" "registry_remove env r index = (r', effs, rung)"
  shows "wf_registry r' \<and> max_entries r' = max_entries r \<and>
    entries r' = (if index < 0 then entries r else (entries r)(nat index := None)) \<and>
    effs = (if index < 0 then [] else case entries r (nat index) of None \<Rightarrow> [] | Some e \<Rightarrow> entry_unlinks e) \<and>
    rung = (if index < 0 then [] else case entries r (nat index) of None \<Rightarrow> []
            | Some e \<Rightarrow> if en_type e \<noteq> ENTRY_DOORBELL then ring_doorbells env r' else []) \<and>
    (rg_generation r' = rg_generation r + 1 \<or> r' = r)"
proof (cases "index < 0 \<or> int (max_entries r) \<le> index \<or> entries r (nat index) = None")
  case True
  then have "(r', effs, rung) = (r, [], [])"
    using assms(2) by (auto simp: registry_remove_def Let_def entries_def slot_entry_def occupied_def split: if_splits prod.splits)
  moreover have "index < 0 \<or> entries r (nat index) = None"
    using True by (auto simp: entries_def)
  ultimately show ?thesis using assms(1) by (auto simp: fun_eq_iff)
next
  case False
  then have i: "nat index < max_entries r" "\<not> index < 0" and e: "entries r (nat index) \<noteq> None" by auto
  have st: "sl_state (rg_slots r ! nat index) \<noteq> ENTRY_EMPTY"
    "entries r (nat index) = Some \<lparr>en_type = sl_state (rg_slots r ! nat index), en_payload = sl_payload (rg_slots r ! nat index)\<rparr>"
    using e i by (auto simp: entries_def slot_entry_def occupied_def split: if_splits)
  obtain r1 eff where t: "tear_out r (nat index) = (r1, eff)" by fastforce
  have r: "r' = r1" "effs = eff"
    "rung = (if sl_state (rg_slots r ! nat index) \<noteq> ENTRY_DOORBELL then ring_doorbells env r1 else [])"
    using assms(2) False st(1) by (auto simp: registry_remove_def Let_def t)
  show ?thesis
    using tear_out_props[OF assms(1) i(1) t] i(2) st(2) teardown_unlinks[OF st(2)] by (simp add: r)
qed

definition first_free :: "nat \<Rightarrow> (nat \<Rightarrow> reg_entry option) \<Rightarrow> nat option" where
  "first_free n m = find (\<lambda>i. m i = None) [0..<n]"

lemma first_free_SomeD: "first_free n m = Some i \<Longrightarrow> m i = None \<and> i < n"
  by (auto simp: first_free_def find_Some_iff)

definition add_spec ::
    "(int \<Rightarrow> proc_stat) \<Rightarrow> nat \<Rightarrow> (nat \<Rightarrow> reg_entry option) \<Rightarrow> reg_entry \<Rightarrow> int \<times> (nat \<Rightarrow> reg_entry option)" where
  "add_spec proc n m e =
     (case first_free n m of
        Some i \<Rightarrow> (int i, m(i \<mapsto> e))
      | None \<Rightarrow>
          (let m' = sweep_map proc m in
           case first_free n m' of Some i \<Rightarrow> (int i, m'(i \<mapsto> e)) | None \<Rightarrow> (-1, m')))"

lemma first_free_eqI:
  "i < n \<Longrightarrow> m i = None \<Longrightarrow> \<forall>j < i. m j \<noteq> None \<Longrightarrow> first_free n m = Some i"
  by (auto simp: first_free_def find_Some_iff)

lemma first_free_None: "first_free n m = None \<longleftrightarrow> (\<forall>i < n. m i \<noteq> None)"
  by (auto simp: first_free_def find_None_iff)

lemma registry_add_props:
  assumes "wf_registry r" "wf_entry e" "registry_add env proc r e = (k, r', effs, rung)"
  shows "wf_registry r' \<and> max_entries r' = max_entries r \<and>
    (k, entries r') = add_spec proc (max_entries r) (entries r) e \<and>
    effs = (if first_free (max_entries r) (entries r) = None
            then swept_unlinks proc [0..<max_entries r] (entries r) else []) \<and>
    (0 \<le> k \<longrightarrow> en_type e \<noteq> ENTRY_DOORBELL \<longrightarrow> (\<exists>before. rung = before @ ring_doorbells env r'))"
proof (cases "try_add_once env r e")
  case (fields i1 r1 rung1)
  show ?thesis
  proof (cases i1)
    case (Some i)
    then have t: "i < max_entries r" "entries r i = None" "r1 = claim_slot r i e" "\<forall>j < i. entries r j \<noteq> None"
      "rung1 = (if en_type e \<noteq> ENTRY_DOORBELL then ring_doorbells env r1 else [])"
      using try_add_once_Some fields by metis+
    have "k = int i" "r' = r1" "effs = []" "rung = rung1"
      using assms(3) fields Some by (auto simp: registry_add_def)
    then show ?thesis
      using t assms claim_slot_wf[OF assms(1) t(1) assms(2)] first_free_eqI[OF t(1,2,4)]
      by (simp add: add_spec_def claim_slot_entries)
  next
    case None
    then have r1: "r1 = r" and full: "first_free (max_entries r) (entries r) = None"
      using try_add_once_None fields by (fastforce simp: first_free_None)+
    obtain r2 e2 rung2 where c: "registry_cleanup_stale env proc r = (r2, e2, rung2)" by (cases "registry_cleanup_stale env proc r")
    have cp: "wf_registry r2 \<and> max_entries r2 = max_entries r \<and> entries r2 = sweep_map proc (entries r) \<and>
        e2 = swept_unlinks proc [0..<max_entries r] (entries r)"
      using registry_cleanup_stale_props[OF assms(1) c] by blast
    obtain i3 r3 rung3 where t3: "try_add_once env r2 e = (i3, r3, rung3)" by (cases "try_add_once env r2 e")
    show ?thesis
    proof (cases i3)
      case None
      have "k = -1" "r' = r3" "effs = e2"
        using assms(3) fields \<open>i1 = None\<close> None t3 c r1 by (auto simp: registry_add_def)
      moreover have "r3 = r2" "first_free (max_entries r2) (entries r2) = None"
        using try_add_once_None t3 None by (fastforce simp: first_free_None)+
      ultimately show ?thesis using cp full by (simp add: add_spec_def)
    next
      case (Some i)
      then have t: "i < max_entries r2" "entries r2 i = None" "r3 = claim_slot r2 i e" "\<forall>j < i. entries r2 j \<noteq> None"
        "rung3 = (if en_type e \<noteq> ENTRY_DOORBELL then ring_doorbells env r3 else [])"
        using try_add_once_Some t3 by metis+
      have "k = int i" "r' = r3" "effs = e2" "rung = rung2 @ rung3"
        using assms(3) fields \<open>i1 = None\<close> Some t3 c r1 by (auto simp: registry_add_def)
      then show ?thesis
        using t cp full claim_slot_wf[OF _ t(1) assms(2)] first_free_eqI[OF t(1,2,4)] assms(2)
        by (simp add: add_spec_def claim_slot_entries)
    qed
  qed
qed

lemma try_add_once_generation:
  "try_add_once env r e = (i, r', rung) \<Longrightarrow>
     rg_generation r' = rg_generation r + (case i of None \<Rightarrow> 0 | Some _ \<Rightarrow> 1) \<and> (i = None \<longrightarrow> r' = r)"
  by (auto simp: try_add_once_def Let_def split: option.splits if_splits)

lemma registry_add_generation:
  assumes "wf_registry r" "registry_add env proc r e = (k, r', effs, rung)"
  shows "\<exists>n \<le> 2 ^ 31. rg_generation r' = rg_generation r + of_nat n \<and> (n = 0 \<longrightarrow> r' = r)"
proof (cases "try_add_once env r e")
  case (fields i1 r1 rung1)
  obtain r2 e2 rung2 where c: "registry_cleanup_stale env proc r = (r2, e2, rung2)" by (cases "registry_cleanup_stale env proc r")
  obtain i3 r3 rung3 where t3: "try_add_once env r2 e = (i3, r3, rung3)" by (cases "try_add_once env r2 e")
  obtain n where n: "n < 2 ^ 31" "rg_generation r2 = rg_generation r + of_nat n" "n = 0 \<longrightarrow> r2 = r"
    using registry_cleanup_stale_generation[OF assms(1) c] by blast
  note g1 = try_add_once_generation[OF fields] and g3 = try_add_once_generation[OF t3]
  show ?thesis
  proof (cases i1)
    case (Some i)
    then show ?thesis using assms(2) fields g1 by (intro exI[of _ 1]) (auto simp: registry_add_def)
  next
    case i1: None
    show ?thesis
    proof (cases i3)
      case None
      then show ?thesis using assms(2) fields g1 g3 i1 t3 c n by (intro exI[of _ n]) (auto simp: registry_add_def)
    next
      case (Some i)
      then show ?thesis using assms(2) fields g1 g3 i1 t3 c n
        by (intro exI[of _ "Suc n"]) (auto simp: registry_add_def)
    qed
  qed
qed

section \<open>Queries and doorbells\<close>

definition entry_matches ::
    "entry_type \<Rightarrow> string option \<Rightarrow> string option \<Rightarrow> string option \<Rightarrow> reg_entry \<Rightarrow> bool" where
  "entry_matches tf topic node ns e = matches tf topic node ns (en_type e) (en_payload e)"

definition entry_result :: "reg_entry \<Rightarrow> query_result" where
  "entry_result e = to_result (en_type e) (en_payload e)"

definition query_spec ::
    "nat \<Rightarrow> (nat \<Rightarrow> reg_entry option) \<Rightarrow> entry_type \<Rightarrow> string option \<Rightarrow> string option \<Rightarrow> string option \<Rightarrow> query_result list" where
  "query_spec n m tf topic node ns =
     map entry_result (filter (entry_matches tf topic node ns) (List.map_filter m [0..<n]))"

lemma query_slot_spec:
  "wf_slot s \<Longrightarrow> query_slot tf topic node ns s =
     (case slot_entry s of None \<Rightarrow> [] | Some e \<Rightarrow> if entry_matches tf topic node ns e then [entry_result e] else [])"
  by (auto simp: query_slot_def snapshot_of_wf slot_entry_def occupied_def entry_matches_def entry_result_def matches_def)

lemma concat_map_filter:
  "concat (map (\<lambda>i. case m i of None \<Rightarrow> [] | Some e \<Rightarrow> if P e then [f e] else []) is)
     = map f (filter P (List.map_filter m is))"
  by (induction "is") (auto simp: List.map_filter_simps split: option.splits)

lemma registry_query_spec:
  assumes "wf_registry r"
  shows "registry_query r tf topic node ns = query_spec (max_entries r) (entries r) tf topic node ns"
proof -
  let ?f = "\<lambda>i. case entries r i of None \<Rightarrow> [] | Some e \<Rightarrow> if entry_matches tf topic node ns e then [entry_result e] else []"
  have hw: "min (rg_high_water r) (max_entries r) = rg_high_water r" "rg_high_water r \<le> max_entries r"
    using assms by (simp_all add: wf_registry_def)
  have "map (query_slot tf topic node ns) (take (rg_high_water r) (rg_slots r)) = map ?f [0..<rg_high_water r]"
    by (rule nth_equalityI)
      (use hw wf_slotD[OF assms] in \<open>auto simp: entries_def max_entries_def query_slot_spec\<close>)
  moreover have "concat (map ?f [rg_high_water r..<max_entries r]) = []"
    using entries_high_water[OF assms] by (fastforce simp: concat_eq_Nil_conv split: option.splits)
  ultimately show ?thesis
    using upt_add_eq_append[of 0 "rg_high_water r" "max_entries r - rg_high_water r"] hw
    by (simp add: registry_query_def query_spec_def concat_map_filter[symmetric])
qed

lemma ring_slots_set:
  assumes "rg_recreate_ok env" "\<forall>s\<in>set ss. wf_slot s"
  shows "set (ring_slots env ss) =
    {pl_socket_path (sl_payload s) | s. s \<in> set ss \<and> sl_state s = ENTRY_DOORBELL \<and> pl_socket_path (sl_payload s) \<noteq> []}"
  using assms
  by (induction env ss rule: ring_slots.induct) (auto simp: Let_def wf_slot_def)

lemma ring_doorbells_set:
  assumes "wf_registry r" "rg_fd_ok env" "rg_recreate_ok env"
  shows "set (ring_doorbells env r) =
    {pl_socket_path (en_payload e) | i e. entries r i = Some e \<and> en_type e = ENTRY_DOORBELL \<and>
       pl_socket_path (en_payload e) \<noteq> []}" (is "?l = ?r")
proof -
  have w: "\<forall>s\<in>set (take (rg_high_water r) (rg_slots r)). wf_slot s"
    using assms(1) by (auto simp: wf_registry_def dest: in_set_takeD)
  have l: "?l = {pl_socket_path (sl_payload s) | s. s \<in> set (take (rg_high_water r) (rg_slots r)) \<and>
      sl_state s = ENTRY_DOORBELL \<and> pl_socket_path (sl_payload s) \<noteq> []}"
    using assms(2) ring_slots_set[OF assms(3) w] by (simp add: ring_doorbells_def)
  show ?thesis
  proof
    show "?l \<subseteq> ?r"
    proof
      fix x assume "x \<in> ?l"
      then obtain i where i: "i < length (rg_slots r)" "sl_state (rg_slots r ! i) = ENTRY_DOORBELL"
        "x = pl_socket_path (sl_payload (rg_slots r ! i))" "x \<noteq> []"
        unfolding l by (auto simp: in_set_conv_nth)
      have "ENTRY_DOORBELL \<noteq> ENTRY_EMPTY" by (simp add: uds_defs)
      then have "entries r i = Some \<lparr>en_type = ENTRY_DOORBELL, en_payload = sl_payload (rg_slots r ! i)\<rparr>"
        using i by (simp add: entries_def slot_entry_def occupied_def max_entries_def)
      then show "x \<in> ?r" using i(3,4) by force
    qed
    show "?r \<subseteq> ?l"
    proof
      fix x assume "x \<in> ?r"
      then obtain i e where e: "entries r i = Some e" "en_type e = ENTRY_DOORBELL"
        "x = pl_socket_path (en_payload e)" "x \<noteq> []" by blast
      then have i: "i < rg_high_water r" "i < length (rg_slots r)"
        using entries_high_water[OF assms(1), of i] by (auto simp: entries_def max_entries_def split: if_splits)
      then have "rg_slots r ! i \<in> set (take (rg_high_water r) (rg_slots r))"
        by (auto simp: in_set_conv_nth)
      moreover have "sl_state (rg_slots r ! i) = ENTRY_DOORBELL" "x = pl_socket_path (sl_payload (rg_slots r ! i))"
        using e by (auto simp: entries_def slot_entry_def split: if_splits)
      ultimately show "x \<in> ?l" using e(4) by (auto simp: l)
    qed
  qed
qed

section \<open>Opening\<close>

definition valid_file :: "nat \<Rightarrow> reg_file \<Rightarrow> bool" where
  "valid_file hb g \<longleftrightarrow> rf_size g = compute_registry_size hb \<and> rf_version g = REGISTRY_VERSION \<and> wf_registry (rf_table g)"

lemma valid_fresh: "valid_file hb (fresh_file hb)"
  by (simp add: valid_file_def fresh_file_def wf_initialize_header)

lemma open_attempt_cases:
  assumes "\<And>i g. f = Some g \<Longrightarrow> oe_version env i = rf_version g"
    and "\<And>g. f = Some g \<Longrightarrow> rf_version g = REGISTRY_VERSION \<Longrightarrow> wf_registry (rf_table g)"
    and "open_attempt hb env f = (res, f')"
  shows "(res = Opened \<longrightarrow> (\<exists>g. f' = Some g \<and> valid_file hb g)) \<and>
    (res = Open_retry \<longrightarrow> f' = None) \<and>
    (\<forall>g. f = Some g \<longrightarrow> valid_file hb g \<longrightarrow> f' = Some g \<and> res \<noteq> Open_retry)"
proof (cases f)
  case None
  then show ?thesis using assms(3) valid_fresh by (auto simp: open_attempt_def split: if_splits)
next
  case (Some g)
  have seen: "(\<exists>i\<in>set [0..<OPEN_POLLS]. oe_version env i = REGISTRY_VERSION) \<longleftrightarrow> rf_version g = REGISTRY_VERSION"
    using assms(1)[OF Some] by (auto simp: OPEN_POLLS_def intro!: exI[of _ 0])
  have last: "oe_version env OPEN_POLLS = rf_version g" by (rule assms(1)[OF Some])
  show ?thesis
    using assms(3) valid_fresh assms(2)[OF Some] unfolding open_attempt_def Some option.case seen last Let_def
    by (auto simp: valid_file_def split: if_splits)
qed

text \<open>
  C29: opening never damages a live registry and never attaches to a foreign one. When the
  polls see the version word the file holds, the call ends within two attempts; on success
  the file under the domain's name has this build's size, carries this build's version and
  holds a well-formed table; and a file that was already valid is left as it was whatever
  the outcome.
\<close>

theorem registry_open_sound:
  assumes "\<And>k i g. f = Some g \<Longrightarrow> oe_version (env k) i = rf_version g"
    and "\<And>g. f = Some g \<Longrightarrow> rf_version g = REGISTRY_VERSION \<Longrightarrow> wf_registry (rf_table g)"
    and "registry_open hb env f = (ok, f')"
  shows "(ok \<longrightarrow> (\<exists>g. f' = Some g \<and> valid_file hb g)) \<and>
    (\<forall>g. f = Some g \<longrightarrow> valid_file hb g \<longrightarrow> f' = Some g)"
proof -
  obtain res1 f1 where a1: "open_attempt hb (env 1) f = (res1, f1)" by fastforce
  have c1: "(res1 = Opened \<longrightarrow> (\<exists>g. f1 = Some g \<and> valid_file hb g)) \<and> (res1 = Open_retry \<longrightarrow> f1 = None) \<and>
      (\<forall>g. f = Some g \<longrightarrow> valid_file hb g \<longrightarrow> f1 = Some g \<and> res1 \<noteq> Open_retry)"
    by (rule open_attempt_cases[OF assms(1,2) a1])
  show ?thesis
  proof (cases res1)
    case Open_retry
    then have f1: "f1 = None" using c1 by simp
    obtain res2 f2 where a2: "open_attempt hb (env 0) None = (res2, f2)" by fastforce
    have c2: "res2 = Opened \<longrightarrow> (\<exists>g. f2 = Some g \<and> valid_file hb g)" "res2 \<noteq> Open_retry"
      using a2 valid_fresh by (auto simp: open_attempt_def split: if_splits)
    show ?thesis
      using assms(3) c1 c2 Open_retry a1 a2 f1
      by (cases res2) (auto simp: registry_open_def numeral_2_eq_2)
  qed (use assms(3) c1 a1 in \<open>auto simp: registry_open_def numeral_2_eq_2\<close>)
qed

definition example_open_env :: open_env where
  "example_open_env = \<lparr>oe_create_ok = True, oe_truncate_ok = True, oe_reopen_ok = True, oe_stat_ok = True,
     oe_map_ok = True, oe_version = (\<lambda>_. 3)\<rparr>"

theorem registry_open_sound_witness:
  "\<exists>g. snd (registry_open 56 (\<lambda>_. example_open_env)
        (Some \<lparr>rf_size = 100, rf_version = 3, rf_table = initialize_header\<rparr>)) = Some g \<and> valid_file 56 g"
proof -
  let ?f = "Some \<lparr>rf_size = 100, rf_version = 3, rf_table = initialize_header\<rparr>"
  let ?o = "registry_open 56 (\<lambda>_. example_open_env) ?f"
  have sz: "compute_registry_size 56 \<noteq> 100" by (simp add: compute_registry_size_def REGISTRY_MAX_ENTRIES_def)
  have ok: "fst ?o"
    using sz by (simp add: registry_open_def numeral_2_eq_2 open_attempt_def example_open_env_def del: upt_Suc)
  show ?thesis
    using registry_open_sound[of ?f "\<lambda>_. example_open_env" 56 "fst ?o" "snd ?o"] ok wf_initialize_header
    by (simp add: example_open_env_def)
qed

end
