(* ===== verification/Uds_Graph_View.thy ===== *)
theory Uds_Graph_View
  imports Uds_Registry_Props
begin

text \<open>
  The registry's contract as its clients use it: the properties of single operations, and
  the generation counter as the version of the whole table. The locale \<open>versioned_view\<close>
  is that second interface; caches keyed by the generation are proved coherent inside it,
  and the interpretation discharges its laws for the registry's own operations.
\<close>

section \<open>Single operations\<close>

text \<open>
  C3: the registry is a finite map. On a well-formed table, adding stores the entry at the
  lowest free index, sweeping dead owners first only when no index is free and answering
  \<open>-1\<close> only when none is free after that; removing deletes one index; the sweep deletes
  exactly the entries of dead owners; a query returns the matching entries in index order;
  and every operation leaves the table well formed.
\<close>

theorem registry_refines_map:
  assumes "wf_registry r" "wf_entry e"
  shows "(case registry_add env proc r e of (k, r', _, _) \<Rightarrow>
            wf_registry r' \<and> (k, entries r') = add_spec proc (max_entries r) (entries r) e) \<and>
         (case registry_remove env r index of (r', _, _) \<Rightarrow>
            wf_registry r' \<and> entries r' = (if index < 0 then entries r else (entries r)(nat index := None))) \<and>
         (case registry_cleanup_stale env proc r of (r', _, _) \<Rightarrow>
            wf_registry r' \<and> entries r' = sweep_map proc (entries r)) \<and>
         registry_query r tf topic node ns = query_spec (max_entries r) (entries r) tf topic node ns"
  using registry_add_props[OF assms] registry_remove_props[OF assms(1)]
    registry_cleanup_stale_props[OF assms(1)] registry_query_spec[OF assms(1)]
  by (auto split: prod.splits)

definition example_payload :: "int \<Rightarrow> string \<Rightarrow> payload" where
  "example_payload pid path = zero_payload\<lparr>pl_pid := pid, pl_topic_name := ''/chatter'', pl_socket_path := path\<rparr>"

definition example_registry :: registry where
  "example_registry = \<lparr>rg_slots = [\<lparr>sl_seq = 2, sl_state = ENTRY_DOORBELL, sl_payload = example_payload 7 ''/d''\<rparr>,
      \<lparr>sl_seq = 2, sl_state = ENTRY_SUBSCRIPTION, sl_payload = example_payload 8 ''/s''\<rparr>],
     rg_generation = 2, rg_high_water = 2\<rparr>"

definition example_env :: ring_env where
  "example_env = \<lparr>rg_fd_ok = True, rg_send = (\<lambda>_. Ring_sent), rg_recreate_ok = True\<rparr>"

definition example_proc :: "int \<Rightarrow> proc_stat" where
  "example_proc p = (if p = 8 then Proc_enoent else Proc_present)"

lemma example_wf: "wf_registry example_registry"
  by (auto simp: wf_registry_def example_registry_def max_entries_def wf_slot_def occupied_def uds_defs
      less_2_cases_iff)

lemma example_entry: "wf_entry \<lparr>en_type = ENTRY_PUBLISHER, en_payload = example_payload 7 []\<rparr>"
  by (simp add: wf_entry_def uds_defs)

lemma example_entries:
  "entries example_registry = [0 \<mapsto> \<lparr>en_type = ENTRY_DOORBELL, en_payload = example_payload 7 ''/d''\<rparr>,
     1 \<mapsto> \<lparr>en_type = ENTRY_SUBSCRIPTION, en_payload = example_payload 8 ''/s''\<rparr>]"
  by (auto simp: fun_eq_iff entries_def slot_entry_def occupied_def example_registry_def max_entries_def uds_defs
      less_2_cases_iff)

lemma example_max [simp]: "max_entries example_registry = 2"
  by (simp add: example_registry_def max_entries_def)

lemma example_dead:
  "dead_entry example_proc \<lparr>en_type = t, en_payload = example_payload p path\<rparr> \<longleftrightarrow> p < 0 \<or> p = 8"
  by (auto simp: dead_entry_def example_payload_def pid_is_alive_or_unreachable_def example_proc_def)

theorem registry_refines_map_witness:
  "case registry_add example_env example_proc example_registry
      \<lparr>en_type = ENTRY_PUBLISHER, en_payload = example_payload 7 []\<rparr> of (k, r', _, _) \<Rightarrow>
     wf_registry r' \<and> (k, entries r') = add_spec example_proc 2 (entries example_registry)
       \<lparr>en_type = ENTRY_PUBLISHER, en_payload = example_payload 7 []\<rparr>"
  by (rule conjunct1[OF registry_refines_map[OF example_wf example_entry, of example_proc example_env, unfolded example_max]])

lemma swept_unlinks_set:
  assumes "\<And>i e. m i = Some e \<Longrightarrow> i < n"
  shows "set (swept_unlinks proc [0..<n] m) = (\<Union>e \<in> {e. \<exists>i. m i = Some e \<and> dead_entry proc e}. set (entry_unlinks e))"
    (is "?l = ?r")
proof
  show "?l \<subseteq> ?r" by (force simp: swept_unlinks_def split: option.splits if_splits)
  show "?r \<subseteq> ?l"
  proof
    fix x assume "x \<in> ?r"
    then obtain i e where e: "m i = Some e" "dead_entry proc e" "x \<in> set (entry_unlinks e)" by blast
    then show "x \<in> ?l"
      using assms[OF e(1)] by (auto simp: swept_unlinks_def intro!: bexI[of _ i])
  qed
qed

text \<open>
  C26: the sweep reclaims exactly the dead. Every entry of a live or unreachable process
  stays, every entry whose process has no \<^verbatim>\<open>/proc\<close> entry goes, and the files and shared
  objects unlinked are exactly those named by the entries that went.
\<close>

theorem registry_sweep_exact:
  assumes "wf_registry r" "registry_cleanup_stale env proc r = (r', effs, rung)"
  shows "(\<forall>i e. entries r' i = Some e \<longleftrightarrow> entries r i = Some e \<and> \<not> dead_entry proc e) \<and>
    set effs = (\<Union>e \<in> {e. \<exists>i. entries r i = Some e \<and> dead_entry proc e}. set (entry_unlinks e)) \<and>
    ((\<forall>i e. entries r i = Some e \<longrightarrow> \<not> dead_entry proc e) \<longrightarrow> entries r' = entries r \<and> effs = [] \<and> rung = [])"
proof -
  have p: "entries r' = sweep_map proc (entries r)"
    "effs = swept_unlinks proc [0..<max_entries r] (entries r)"
    "rung = (if \<exists>i e. entries r i = Some e \<and> dead_entry proc e \<and> en_type e \<noteq> ENTRY_DOORBELL
            then ring_doorbells env r' else [])"
    using registry_cleanup_stale_props[OF assms] by blast+
  have up: "entries r i = Some e \<Longrightarrow> i < max_entries r" for i e
    by (simp add: entries_def split: if_splits)
  have "set effs = (\<Union>e \<in> {e. \<exists>i. entries r i = Some e \<and> dead_entry proc e}. set (entry_unlinks e))"
    unfolding p(2) by (rule swept_unlinks_set[OF up])
  moreover have "\<forall>i e. entries r' i = Some e \<longleftrightarrow> entries r i = Some e \<and> \<not> dead_entry proc e"
    by (auto simp: p(1) sweep_map_def split: option.splits)
  moreover have "entries r' = entries r \<and> effs = [] \<and> rung = []"
    if "\<forall>i e. entries r i = Some e \<longrightarrow> \<not> dead_entry proc e"
  proof -
    have "entries r' = entries r" using that by (auto simp: p(1) sweep_map_def fun_eq_iff split: option.splits)
    moreover have "effs = []" using that by (auto simp: p(2) swept_unlinks_def split: option.splits)
    moreover have "rung = []" using that unfolding p(3) by auto
    ultimately show ?thesis by blast
  qed
  ultimately show ?thesis by blast
qed

theorem registry_sweep_exact_witness:
  "entries (fst (registry_cleanup_stale example_env example_proc example_registry)) 1 = None \<and>
   entries (fst (registry_cleanup_stale example_env example_proc example_registry)) 0 \<noteq> None"
proof -
  let ?r = "fst (registry_cleanup_stale example_env example_proc example_registry)"
  have iff: "entries ?r i = Some e \<longleftrightarrow> entries example_registry i = Some e \<and> \<not> dead_entry example_proc e" for i e
    using registry_sweep_exact[OF example_wf, of example_env example_proc ?r] by (simp add: prod_eq_iff)
  have "entries ?r 1 \<noteq> Some e" for e
    unfolding iff by (auto simp: example_entries example_dead)
  moreover have "entries ?r 0 = Some \<lparr>en_type = ENTRY_DOORBELL, en_payload = example_payload 7 ''/d''\<rparr>"
    unfolding iff by (simp add: example_entries example_dead)
  ultimately show ?thesis by (simp add: not_Some_eq[symmetric])
qed

text \<open>
  C27: registration makes an entity discoverable, and fails only against a table full of live
  owners. A non-negative index from \<open>registry_add\<close> means every query whose filters match
  the entry returns it, as long as no removal follows; \<open>-1\<close> is returned if and only if
  every slot holds an entry whose owner is not known to be dead.
\<close>

theorem registry_add_discoverable:
  assumes "wf_registry r" "wf_entry e" "registry_add env proc r e = (k, r', effs, rung)"
  shows "(0 \<le> k \<longrightarrow> entry_matches tf topic node ns e \<longrightarrow> entry_result e \<in> set (registry_query r' tf topic node ns)) \<and>
    (k = -1 \<longleftrightarrow> (\<forall>i < max_entries r. \<exists>e'. entries r i = Some e' \<and> \<not> dead_entry proc e')) \<and> -1 \<le> k"
proof -
  let ?n = "max_entries r"
  have p: "wf_registry r'" "max_entries r' = ?n" "(k, entries r') = add_spec proc ?n (entries r) e"
    using registry_add_props[OF assms] by blast+
  have ff: "i < ?n \<and> m i = None" if "first_free ?n m = Some i" for m i
    using that by (auto simp: first_free_def find_Some_iff)
  have k: "0 \<le> k \<Longrightarrow> nat k < ?n \<and> entries r' (nat k) = Some e"
    using p(3) ff by (auto simp: add_spec_def Let_def split: option.splits)
  have "entry_result e \<in> set (registry_query r' tf topic node ns)"
    if "0 \<le> k" "entry_matches tf topic node ns e"
    using k[OF that(1)] that(2)
    by (auto simp: registry_query_spec[OF p(1)] query_spec_def List.map_filter_def p(2) image_iff
        intro!: bexI[of _ "nat k"] bexI[of _ e] exI[of _ "nat k"])
  moreover have "k = -1 \<longleftrightarrow> first_free ?n (sweep_map proc (entries r)) = None"
  proof -
    have "first_free ?n (entries r) = None" if "first_free ?n (sweep_map proc (entries r)) = None"
      using that by (auto simp: first_free_None sweep_map_def split: option.splits)
    then show ?thesis using p(3) by (auto simp: add_spec_def Let_def split: option.splits)
  qed
  moreover have "first_free ?n (sweep_map proc (entries r)) = None \<longleftrightarrow>
      (\<forall>i < ?n. \<exists>e'. entries r i = Some e' \<and> \<not> dead_entry proc e')"
    by (auto simp: first_free_None sweep_map_def split: option.splits)
  moreover have "-1 \<le> k"
    using p(3) by (auto simp: add_spec_def Let_def split: option.splits)
  ultimately show ?thesis by simp
qed

theorem registry_add_discoverable_witness:
  "fst (registry_add example_env example_proc example_registry
      \<lparr>en_type = ENTRY_PUBLISHER, en_payload = example_payload 7 []\<rparr>) \<noteq> -1 \<and>
   fst (registry_add example_env (\<lambda>_. Proc_present) example_registry
      \<lparr>en_type = ENTRY_PUBLISHER, en_payload = example_payload 7 []\<rparr>) = -1"
proof -
  let ?e = "\<lparr>en_type = ENTRY_PUBLISHER, en_payload = example_payload 7 []\<rparr>"
  have iff: "fst (registry_add example_env proc example_registry ?e) = -1 \<longleftrightarrow>
      (\<forall>i < 2. \<exists>e'. entries example_registry i = Some e' \<and> \<not> dead_entry proc e')" for proc
    using registry_add_discoverable[OF example_wf example_entry, of example_env proc "fst (registry_add example_env proc example_registry ?e)"]
    by (simp add: prod_eq_iff)
  show ?thesis
    unfolding iff by (auto simp: less_2_cases_iff example_entries example_dead)
      (simp_all add: dead_entry_def example_payload_def pid_is_alive_or_unreachable_def)
qed

text \<open>
  C28: no missed wakeup. Whenever an operation changes the table by an entry other than a
  doorbell, and sockets can be created, every doorbell registered in the resulting table has
  an octet offered to it, and the ringing looks at the table after the change; registering a
  doorbell in a free slot rings nobody.
\<close>

theorem registry_rings_every_doorbell:
  assumes "wf_registry r" "wf_entry e" "rg_fd_ok env" "rg_recreate_ok env"
    and "entries r' d = Some door" "en_type door = ENTRY_DOORBELL" "pl_socket_path (en_payload door) \<noteq> []"
  shows "(registry_add env proc r e = (k, r', effs, rung) \<longrightarrow> 0 \<le> k \<longrightarrow> en_type e \<noteq> ENTRY_DOORBELL \<longrightarrow>
            pl_socket_path (en_payload door) \<in> set rung) \<and>
    (registry_remove env r index = (r', effs, rung) \<longrightarrow> 0 \<le> index \<longrightarrow>
            entries r (nat index) = Some gone \<longrightarrow> en_type gone \<noteq> ENTRY_DOORBELL \<longrightarrow>
            pl_socket_path (en_payload door) \<in> set rung) \<and>
    (registry_cleanup_stale env proc r = (r', effs, rung) \<longrightarrow>
            entries r j = Some gone \<longrightarrow> dead_entry proc gone \<longrightarrow> en_type gone \<noteq> ENTRY_DOORBELL \<longrightarrow>
            pl_socket_path (en_payload door) \<in> set rung)"
proof -
  have hit: "pl_socket_path (en_payload door) \<in> set (ring_doorbells env r')" if "wf_registry r'"
    unfolding ring_doorbells_set[OF that assms(3,4)] using assms(5-7) by blast
  have "pl_socket_path (en_payload door) \<in> set rung"
    if a: "registry_add env proc r e = (k, r', effs, rung)" "0 \<le> k" "en_type e \<noteq> ENTRY_DOORBELL"
    using registry_add_props[OF assms(1,2) a(1)] hit a(2,3) by auto
  moreover have "pl_socket_path (en_payload door) \<in> set rung"
    if a: "registry_remove env r index = (r', effs, rung)" "0 \<le> index" "entries r (nat index) = Some gone"
      "en_type gone \<noteq> ENTRY_DOORBELL"
  proof -
    have "wf_registry r'" "rung = ring_doorbells env r'"
      using registry_remove_props[OF assms(1) a(1)] a(2-4) by simp_all
    then show ?thesis using hit by simp
  qed
  moreover have "pl_socket_path (en_payload door) \<in> set rung"
    if a: "registry_cleanup_stale env proc r = (r', effs, rung)" "entries r j = Some gone"
      "dead_entry proc gone" "en_type gone \<noteq> ENTRY_DOORBELL"
  proof -
    have "wf_registry r'" "rung = ring_doorbells env r'"
      using registry_cleanup_stale_props[OF assms(1) a(1)] a(2-4) by (simp_all, blast)
    then show ?thesis using hit by simp
  qed
  ultimately show ?thesis by blast
qed

theorem registry_rings_every_doorbell_witness:
  "''/d'' \<in> set (snd (snd (registry_remove example_env example_registry 1)))"
proof -
  obtain r' effs rung where rm: "registry_remove example_env example_registry 1 = (r', effs, rung)"
    by (cases "registry_remove example_env example_registry 1")
  have e: "entries r' 0 = Some \<lparr>en_type = ENTRY_DOORBELL, en_payload = example_payload 7 ''/d''\<rparr>"
    using registry_remove_props[OF example_wf rm] by (simp add: example_entries)
  have "pl_socket_path (en_payload \<lparr>en_type = ENTRY_DOORBELL, en_payload = example_payload 7 ''/d''\<rparr>) \<in> set rung"
    using registry_rings_every_doorbell[OF example_wf example_entry _ _ e, of example_env _ _ _ _ 1
        "\<lparr>en_type = ENTRY_SUBSCRIPTION, en_payload = example_payload 8 ''/s''\<rparr>"] rm
    by (simp add: example_env_def example_entries example_payload_def uds_defs)
  then show ?thesis by (simp add: rm example_payload_def)
qed

lemma in_set_map_filter: "y \<in> set (List.map_filter f xs) \<longleftrightarrow> (\<exists>x\<in>set xs. f x = Some y)"
  by (induction xs) (auto simp: List.map_filter_simps split: option.splits)

text \<open>A query as a set of entries.\<close>

lemma registry_query_set:
  assumes "wf_registry r"
  shows "set (registry_query r tf topic node ns) =
    entry_result ` {e. (\<exists>i. entries r i = Some e) \<and> entry_matches tf topic node ns e}"
proof -
  have "(\<exists>i. entries r i = Some e) \<longleftrightarrow> e \<in> set (List.map_filter (entries r) [0..<max_entries r])" for e
  proof -
    have "entries r i = Some e \<Longrightarrow> i < max_entries r" for i by (simp add: entries_def split: if_splits)
    then show ?thesis by (auto simp: in_set_map_filter)
  qed
  then show ?thesis by (auto simp: registry_query_spec[OF assms] query_spec_def)
qed

lemmas query_facts = entry_matches_def matches_def entry_result_def to_result_def

section \<open>The generation as the version of the table\<close>

text \<open>
  A source whose content can only change together with a growing version number. The
  publisher's subscriber list, the client's service path and the service's client list are
  all caches of such a source, refreshed by \<open>memo_refresh\<close>.
\<close>

definition memo_refresh :: "u64 \<Rightarrow> 'v \<Rightarrow> u64 \<times> 'v \<Rightarrow> u64 \<times> 'v" where
  "memo_refresh current fresh c = (if fst c < current then (current, fresh) else c)"

text \<open>The variant of the service caches: refreshed whenever the numbers differ.\<close>

definition memo_replace :: "u64 \<Rightarrow> 'v \<Rightarrow> u64 \<times> 'v \<Rightarrow> u64 \<times> 'v" where
  "memo_replace current fresh c = (if current \<noteq> fst c then (current, fresh) else c)"

definition memo_coherent :: "('s \<Rightarrow> u64) \<Rightarrow> ('s \<Rightarrow> 'v) \<Rightarrow> 's \<Rightarrow> u64 \<times> 'v \<Rightarrow> bool" where
  "memo_coherent ver view s c \<longleftrightarrow> fst c \<le> ver s \<and> (fst c = ver s \<longrightarrow> snd c = view s)"

locale versioned_view =
  fixes step :: "'s \<Rightarrow> 's \<Rightarrow> bool"
    and ver :: "'s \<Rightarrow> u64"
    and view :: "'s \<Rightarrow> 'v"
  assumes ver_mono: "step s s' \<Longrightarrow> ver s \<le> ver s'"
    and same_ver_same_view: "step s s' \<Longrightarrow> ver s' = ver s \<Longrightarrow> view s' = view s"

text \<open>Seen from any state, everything later is newer or shows the same.\<close>

sublocale versioned_view \<subseteq> since: transition_invariant step "\<lambda>s. ver s0 \<le> ver s \<and> (ver s = ver s0 \<longrightarrow> view s = view s0)" for s0
  by unfold_locales (metis ver_mono same_ver_same_view order_antisym_conv order_trans)

context versioned_view
begin

lemma steps_mono: "step\<^sup>*\<^sup>* s s' \<Longrightarrow> ver s \<le> ver s' \<and> (ver s' = ver s \<longrightarrow> view s' = view s)"
  using since.steps_keep[of s s' s] by simp

lemma coherent_steps:
  assumes "memo_coherent ver view s c" "step\<^sup>*\<^sup>* s s'"
  shows "memo_coherent ver view s' c"
  using assms(1) steps_mono[OF assms(2)] unfolding memo_coherent_def
  by (metis order_antisym_conv order_trans)

text \<open>
  The version is read first, the content later: any steps in between leave a cache that is
  coherent with the later state.
\<close>

lemma refresh_coherent:
  assumes "memo_coherent ver view s c" "step\<^sup>*\<^sup>* s s'"
  shows "memo_coherent ver view s' (memo_refresh (ver s) (view s') c)"
  using coherent_steps[OF assms] steps_mono[OF assms(2)]
  by (auto simp: memo_refresh_def memo_coherent_def)

text \<open>
  The variant needs the cache to be coherent only when it is used: another thread may have
  refreshed it with a version newer than the one this thread has read.
\<close>

lemma replace_coherent:
  assumes "memo_coherent ver view s' c" "step\<^sup>*\<^sup>* s s'"
  shows "memo_coherent ver view s' (memo_replace (ver s) (view s') c)"
  using assms(1) steps_mono[OF assms(2)] by (auto simp: memo_replace_def memo_coherent_def)

lemma replace_now: "memo_coherent ver view s c \<Longrightarrow> snd (memo_replace (ver s) (view s) c) = view s"
  by (auto simp: memo_replace_def memo_coherent_def)

lemma refresh_now: "memo_coherent ver view s c \<Longrightarrow> snd (memo_refresh (ver s) (view s) c) = view s"
  by (auto simp: memo_refresh_def memo_coherent_def)

end

text \<open>
  The registry's steps: any operation by any process, short of the counter's wrap after
  \<open>2 ^ 64\<close> mutations.
\<close>

inductive reg_step :: "registry \<Rightarrow> registry \<Rightarrow> bool" where
  add: "wf_registry r \<Longrightarrow> wf_entry e \<Longrightarrow> unat (rg_generation r) + 2 ^ 31 < 2 ^ 64 \<Longrightarrow>
    registry_add env proc r e = (k, r', effs, rung) \<Longrightarrow> reg_step r r'"
| remove: "wf_registry r \<Longrightarrow> unat (rg_generation r) + 2 ^ 31 < 2 ^ 64 \<Longrightarrow>
    registry_remove env r index = (r', effs, rung) \<Longrightarrow> reg_step r r'"
| sweep: "wf_registry r \<Longrightarrow> unat (rg_generation r) + 2 ^ 31 < 2 ^ 64 \<Longrightarrow>
    registry_cleanup_stale env proc r = (r', effs, rung) \<Longrightarrow> reg_step r r'"

lemma no_wrap:
  fixes g g' :: u64
  assumes "unat g + 2 ^ 31 < 2 ^ 64" "g' = g + of_nat n" "n \<le> 2 ^ 31"
  shows "g \<le> g' \<and> (g' = g \<longrightarrow> n = 0)"
proof -
  have nb: "n < 2 ^ 64" "unat g + n < 2 ^ 64" using assms by linarith+
  have n: "unat (of_nat n :: u64) = n"
    using nb(1) by (simp add: unsigned_of_nat take_bit_nat_eq_self)
  have "unat g' = (unat g + n) mod 2 ^ 64" by (simp only: assms(2) unat_word_ariths(1) n) simp
  then have "unat g' = unat g + n" using nb(2) by (simp only: mod_less)
  then show ?thesis by (auto simp: word_le_nat_alt)
qed

lemma reg_step_generation:
  assumes "reg_step r r'"
  shows "wf_registry r' \<and> rg_generation r \<le> rg_generation r' \<and> (rg_generation r' = rg_generation r \<longrightarrow> r' = r)"
  using assms
proof cases
  case (add e env proc k effs rung)
  obtain n where "n \<le> 2 ^ 31" "rg_generation r' = rg_generation r + of_nat n" "n = 0 \<longrightarrow> r' = r"
    using registry_add_generation[OF add(1,4)] by blast
  then show ?thesis using no_wrap[OF add(3), of "rg_generation r'" n] registry_add_props[OF add(1,2,4)] by simp
next
  case (remove env index effs rung)
  have "rg_generation r' = rg_generation r + of_nat 1 \<or> r' = r"
    using registry_remove_props[OF remove(1,3)] by auto
  moreover have "rg_generation r \<le> rg_generation r + of_nat 1 \<and> rg_generation r + of_nat 1 \<noteq> rg_generation r"
    using no_wrap[OF remove(2) refl, of 1] by simp
  ultimately show ?thesis using registry_remove_props[OF remove(1,3)] by (metis order_refl)
next
  case (sweep env proc effs rung)
  obtain n where "n < 2 ^ 31" "rg_generation r' = rg_generation r + of_nat n" "n = 0 \<longrightarrow> r' = r"
    using registry_cleanup_stale_generation[OF sweep(1,3)] by blast
  then show ?thesis
    using no_wrap[OF sweep(2), of "rg_generation r'" n] registry_cleanup_stale_props[OF sweep(1,3)] by simp
qed

interpretation reg_wf: transition_invariant reg_step wf_registry
  by unfold_locales (auto dest: reg_step_generation)

interpretation reg_view: versioned_view reg_step registry_generation registry_query
  by unfold_locales (auto simp: registry_generation_def dest: reg_step_generation)

end
