(* ===== verification/Uds_Slot_Race.thy ===== *)
theory Uds_Slot_Race
  imports Uds_Registry
begin

text \<open>
  The interleavings of one registry slot (\<^verbatim>\<open>registry.cpp\<close>): adders and removers take one
  atomic access or one field write at a time, in the order of \<^verbatim>\<open>try_add_once\<close>,
  \<^verbatim>\<open>write_slot_payload\<close>, \<^verbatim>\<open>registry_remove\<close> and \<^verbatim>\<open>teardown_slot\<close>; a reader's snapshot sees
  the slot at several moments of such a run. \<open>rc_writes\<close> counts the increments of the
  32-bit sequence word, which is that count modulo \<open>2 ^ 32\<close>.
\<close>

section \<open>Fields\<close>

datatype field = F_pid | F_gid | F_node_name | F_node_namespace | F_topic_name | F_type_name
  | F_socket_path | F_reliability | F_durability | F_history | F_depth

definition field_order :: "field list" where
  "field_order = [F_pid, F_gid, F_node_name, F_node_namespace, F_topic_name, F_type_name, F_socket_path,
     F_reliability, F_durability, F_history, F_depth]"

fun put_field :: "field \<Rightarrow> payload \<Rightarrow> payload \<Rightarrow> payload" where
  "put_field F_pid src dst = dst\<lparr>pl_pid := pl_pid src\<rparr>"
| "put_field F_gid src dst = dst\<lparr>pl_gid := pl_gid src\<rparr>"
| "put_field F_node_name src dst = dst\<lparr>pl_node_name := pl_node_name src\<rparr>"
| "put_field F_node_namespace src dst = dst\<lparr>pl_node_namespace := pl_node_namespace src\<rparr>"
| "put_field F_topic_name src dst = dst\<lparr>pl_topic_name := pl_topic_name src\<rparr>"
| "put_field F_type_name src dst = dst\<lparr>pl_type_name := pl_type_name src\<rparr>"
| "put_field F_socket_path src dst = dst\<lparr>pl_socket_path := pl_socket_path src\<rparr>"
| "put_field F_reliability src dst = dst\<lparr>pl_qos_reliability := pl_qos_reliability src\<rparr>"
| "put_field F_durability src dst = dst\<lparr>pl_qos_durability := pl_qos_durability src\<rparr>"
| "put_field F_history src dst = dst\<lparr>pl_qos_history := pl_qos_history src\<rparr>"
| "put_field F_depth src dst = dst\<lparr>pl_qos_depth := pl_qos_depth src\<rparr>"

fun field_eq :: "field \<Rightarrow> payload \<Rightarrow> payload \<Rightarrow> bool" where
  "field_eq F_pid p q = (pl_pid p = pl_pid q)"
| "field_eq F_gid p q = (pl_gid p = pl_gid q)"
| "field_eq F_node_name p q = (pl_node_name p = pl_node_name q)"
| "field_eq F_node_namespace p q = (pl_node_namespace p = pl_node_namespace q)"
| "field_eq F_topic_name p q = (pl_topic_name p = pl_topic_name q)"
| "field_eq F_type_name p q = (pl_type_name p = pl_type_name q)"
| "field_eq F_socket_path p q = (pl_socket_path p = pl_socket_path q)"
| "field_eq F_reliability p q = (pl_qos_reliability p = pl_qos_reliability q)"
| "field_eq F_durability p q = (pl_qos_durability p = pl_qos_durability q)"
| "field_eq F_history p q = (pl_qos_history p = pl_qos_history q)"
| "field_eq F_depth p q = (pl_qos_depth p = pl_qos_depth q)"

lemma set_field_order: "set field_order = UNIV"
proof -
  have "f \<in> set field_order" for f by (cases f) (simp_all add: field_order_def)
  then show ?thesis by blast
qed

lemma all_fields_eq:
  assumes "\<And>f. field_eq f p q"
  shows "p = q"
  using assms[of F_pid] assms[of F_gid] assms[of F_node_name] assms[of F_node_namespace] assms[of F_topic_name]
    assms[of F_type_name] assms[of F_socket_path] assms[of F_reliability] assms[of F_durability]
    assms[of F_history] assms[of F_depth]
  by simp

lemma field_eq_put: "field_eq j src (put_field k src dst) \<longleftrightarrow> j = k \<or> field_eq j src dst"
  by (cases k; cases j) simp_all

section \<open>Threads\<close>

datatype role = Adder reg_entry | Remover

datatype pc =
    Idle
  | A_claimed | A_write "field list" | A_wrote | A_done
  | R_won | R_begun | R_zero string "field list" | R_unlink string | R_done

record race =
  rc_state :: entry_type
  rc_writes :: nat
  rc_payload :: payload
  rc_pc :: "nat \<Rightarrow> pc"
  rc_unlinked :: "string list"

definition rc_seq :: "race \<Rightarrow> u32" where "rc_seq s = of_nat (rc_writes s)"

definition goto :: "nat \<Rightarrow> pc \<Rightarrow> race \<Rightarrow> race" where
  "goto t l s = s\<lparr>rc_pc := (rc_pc s)(t := l)\<rparr>"

text \<open>The next access of thread \<open>t\<close>; \<open>None\<close> when it has finished or its claim does not succeed.\<close>

definition adder_step :: "nat \<Rightarrow> reg_entry \<Rightarrow> race \<Rightarrow> race option" where
  "adder_step t e s =
     (case rc_pc s t of
        Idle \<Rightarrow> if rc_state s = ENTRY_EMPTY then Some (goto t A_claimed (s\<lparr>rc_state := ENTRY_RESERVED\<rparr>)) else None
      | A_claimed \<Rightarrow> Some (goto t (A_write field_order) (s\<lparr>rc_writes := rc_writes s + 1\<rparr>))
      | A_write (f # fs) \<Rightarrow> Some (goto t (A_write fs) (s\<lparr>rc_payload := put_field f (en_payload e) (rc_payload s)\<rparr>))
      | A_write [] \<Rightarrow> Some (goto t A_wrote (s\<lparr>rc_writes := rc_writes s + 1\<rparr>))
      | A_wrote \<Rightarrow> Some (goto t A_done (s\<lparr>rc_state := en_type e\<rparr>))
      | _ \<Rightarrow> None)"

definition remover_step :: "nat \<Rightarrow> race \<Rightarrow> race option" where
  "remover_step t s =
     (case rc_pc s t of
        Idle \<Rightarrow> if rc_state s \<noteq> ENTRY_EMPTY then Some (goto t R_won (s\<lparr>rc_state := ENTRY_EMPTY\<rparr>)) else None
      | R_won \<Rightarrow> Some (goto t R_begun (s\<lparr>rc_writes := rc_writes s + 1\<rparr>))
      | R_begun \<Rightarrow> Some (goto t (R_zero (pl_socket_path (rc_payload s)) field_order) s)
      | R_zero path (f # fs) \<Rightarrow> Some (goto t (R_zero path fs) (s\<lparr>rc_payload := put_field f zero_payload (rc_payload s)\<rparr>))
      | R_zero path [] \<Rightarrow> Some (goto t (R_unlink path) (s\<lparr>rc_writes := rc_writes s + 1\<rparr>))
      | R_unlink path \<Rightarrow>
          Some (goto t R_done (if path \<noteq> [] then s\<lparr>rc_unlinked := rc_unlinked s @ [path]\<rparr> else s))
      | _ \<Rightarrow> None)"

definition thread_step :: "(nat \<Rightarrow> role) \<Rightarrow> nat \<Rightarrow> race \<Rightarrow> race option" where
  "thread_step roles t s = (case roles t of Adder e \<Rightarrow> adder_step t e s | Remover \<Rightarrow> remover_step t s)"

definition race_start :: race where
  "race_start = \<lparr>rc_state = ENTRY_EMPTY, rc_writes = 0, rc_payload = zero_payload, rc_pc = (\<lambda>_. Idle), rc_unlinked = []\<rparr>"

inductive race_step :: "(nat \<Rightarrow> role) \<Rightarrow> race \<Rightarrow> race \<Rightarrow> bool" for roles where
  "thread_step roles t s = Some s' \<Longrightarrow> race_step roles s s'"

fun run_threads :: "(nat \<Rightarrow> role) \<Rightarrow> nat list \<Rightarrow> race \<Rightarrow> race option" where
  "run_threads roles [] s = Some s"
| "run_threads roles (t # ts) s =
     (case thread_step roles t s of None \<Rightarrow> None | Some s' \<Rightarrow> run_threads roles ts s')"

lemma run_threads_reach: "run_threads roles ts s = Some s' \<Longrightarrow> (race_step roles)\<^sup>*\<^sup>* s s'"
  by (induction ts arbitrary: s) (auto split: option.splits intro: converse_rtranclp_into_rtranclp race_step.intros)

section \<open>The discipline under which the protocol is sound\<close>

fun tearing :: "pc \<Rightarrow> bool" where
  "tearing R_won = True"
| "tearing R_begun = True"
| "tearing (R_zero _ _) = True"
| "tearing _ = False"

fun adding :: "pc \<Rightarrow> bool" where
  "adding A_claimed = True"
| "adding (A_write _) = True"
| "adding A_wrote = True"
| "adding _ = False"

fun in_section :: "pc \<Rightarrow> bool" where
  "in_section (A_write _) = True"
| "in_section R_begun = True"
| "in_section (R_zero _ _) = True"
| "in_section _ = False"

text \<open>
  A slot is claimed only when no teardown of it is under way, and a removal addresses a
  published slot. Nothing in the code enforces the first condition.
\<close>

definition disciplined :: "race \<Rightarrow> race \<Rightarrow> bool" where
  "disciplined s s' \<longleftrightarrow>
     (rc_state s = ENTRY_EMPTY \<and> rc_state s' = ENTRY_RESERVED \<longrightarrow> (\<forall>t. \<not> tearing (rc_pc s t))) \<and>
     \<not> (rc_state s = ENTRY_RESERVED \<and> rc_state s' = ENTRY_EMPTY)"

inductive excl_step :: "(nat \<Rightarrow> role) \<Rightarrow> race \<Rightarrow> race \<Rightarrow> bool" for roles where
  "race_step roles s s' \<Longrightarrow> disciplined s s' \<Longrightarrow> excl_step roles s s'"

definition slot_inv :: "(nat \<Rightarrow> role) \<Rightarrow> race \<Rightarrow> bool" where
  "slot_inv roles s \<longleftrightarrow>
     (\<forall>t u. (adding (rc_pc s t) \<or> tearing (rc_pc s t)) \<longrightarrow> (adding (rc_pc s u) \<or> tearing (rc_pc s u)) \<longrightarrow> t = u) \<and>
     (\<forall>t. adding (rc_pc s t) \<longrightarrow> rc_state s = ENTRY_RESERVED) \<and>
     (\<forall>t. tearing (rc_pc s t) \<longrightarrow> rc_state s = ENTRY_EMPTY) \<and>
     (odd (rc_writes s) \<longleftrightarrow> (\<exists>t. in_section (rc_pc s t))) \<and>
     (\<forall>t fs. rc_pc s t = A_write fs \<longrightarrow> (\<exists>e. roles t = Adder e \<and> (\<forall>f. f \<notin> set fs \<longrightarrow> field_eq f (en_payload e) (rc_payload s)))) \<and>
     (\<forall>t. rc_pc s t = A_wrote \<longrightarrow> (\<exists>e. roles t = Adder e \<and> rc_payload s = en_payload e)) \<and>
     (rc_state s \<noteq> ENTRY_EMPTY \<and> rc_state s \<noteq> ENTRY_RESERVED \<longrightarrow>
        (\<exists>a e. roles a = Adder e \<and> rc_state s = en_type e \<and> rc_payload s = en_payload e))"

lemma wf_entry_types:
  "en_type e \<noteq> ENTRY_EMPTY \<and> en_type e \<noteq> ENTRY_RESERVED \<Longrightarrow> ENTRY_EMPTY \<noteq> en_type e"
  "ENTRY_EMPTY \<noteq> ENTRY_RESERVED" "ENTRY_RESERVED \<noteq> ENTRY_EMPTY"
  by (auto simp: uds_defs)

definition busy :: "pc \<Rightarrow> bool" where
  "busy l \<longleftrightarrow> adding l \<or> tearing l"

lemma in_section_busy: "in_section l \<Longrightarrow> busy l"
  by (cases l) (auto simp: busy_def)

text \<open>What the invariant says of the thread that moves, and of the others.\<close>

lemma slot_inv_others:
  assumes "slot_inv roles s" "busy (rc_pc s t)" "u \<noteq> t"
  shows "\<not> busy (rc_pc s u)" "\<not> in_section (rc_pc s u)"
  using assms in_section_busy unfolding slot_inv_def busy_def by blast+

lemma slot_inv_alone:
  assumes "slot_inv roles s" "\<And>u. \<not> busy (rc_pc s u) \<or> u = t"
    and "rc_pc s' = (rc_pc s)(t := l)"
    and "adding l \<longrightarrow> rc_state s' = ENTRY_RESERVED" "tearing l \<longrightarrow> rc_state s' = ENTRY_EMPTY"
    and "odd (rc_writes s') \<longleftrightarrow> in_section l"
    and "\<And>fs. l = A_write fs \<Longrightarrow> \<exists>e. roles t = Adder e \<and> (\<forall>f. f \<notin> set fs \<longrightarrow> field_eq f (en_payload e) (rc_payload s'))"
    and "l = A_wrote \<Longrightarrow> \<exists>e. roles t = Adder e \<and> rc_payload s' = en_payload e"
    and "rc_state s' \<noteq> ENTRY_EMPTY \<Longrightarrow> rc_state s' \<noteq> ENTRY_RESERVED \<Longrightarrow>
      \<exists>a e. roles a = Adder e \<and> rc_state s' = en_type e \<and> rc_payload s' = en_payload e"
  shows "slot_inv roles s'"
proof -
  have idle: "\<not> adding (rc_pc s u) \<and> \<not> tearing (rc_pc s u) \<and> \<not> in_section (rc_pc s u)" if "u \<noteq> t" for u
    using assms(2)[of u] that in_section_busy by (auto simp: busy_def)
  have w: "rc_pc s u \<noteq> A_write fs \<and> rc_pc s u \<noteq> A_wrote" if "u \<noteq> t" for u fs
    using idle[OF that] by auto
  show ?thesis
    unfolding slot_inv_def assms(3)
  proof (intro conjI allI impI)
    fix u v assume "adding (((rc_pc s)(t := l)) u) \<or> tearing (((rc_pc s)(t := l)) u)"
      "adding (((rc_pc s)(t := l)) v) \<or> tearing (((rc_pc s)(t := l)) v)"
    then show "u = v" using idle by (auto split: if_splits)
  next
    fix u assume "adding (((rc_pc s)(t := l)) u)" then show "rc_state s' = ENTRY_RESERVED"
      using idle assms(4) by (auto split: if_splits)
  next
    fix u assume "tearing (((rc_pc s)(t := l)) u)" then show "rc_state s' = ENTRY_EMPTY"
      using idle assms(5) by (auto split: if_splits)
  next
    show "odd (rc_writes s') = (\<exists>u. in_section (((rc_pc s)(t := l)) u))"
      unfolding assms(6) using idle by auto
  next
    fix u fs assume "((rc_pc s)(t := l)) u = A_write fs"
    then show "\<exists>e. roles u = Adder e \<and> (\<forall>f. f \<notin> set fs \<longrightarrow> field_eq f (en_payload e) (rc_payload s'))"
      using w assms(7)[of fs] by (auto split: if_splits)
  next
    fix u assume "((rc_pc s)(t := l)) u = A_wrote"
    then show "\<exists>e. roles u = Adder e \<and> rc_payload s' = en_payload e"
      using w assms(8) by (auto split: if_splits)
  next
    assume "rc_state s' \<noteq> ENTRY_EMPTY \<and> rc_state s' \<noteq> ENTRY_RESERVED"
    then show "\<exists>a e. roles a = Adder e \<and> rc_state s' = en_type e \<and> rc_payload s' = en_payload e"
      using assms(9) by blast
  qed
qed

lemma slot_inv_parity:
  assumes "slot_inv roles s" "\<And>u. \<not> busy (rc_pc s u) \<or> u = t"
  shows "odd (rc_writes s) \<longleftrightarrow> in_section (rc_pc s t)"
  using assms in_section_busy unfolding slot_inv_def by blast

lemma adder_step_inv:
  assumes inv: "slot_inv roles s" and st: "adder_step t e s = Some s'" and role: "roles t = Adder e"
    and d: "disciplined s s'" and wf: "en_type e \<noteq> ENTRY_EMPTY" "en_type e \<noteq> ENTRY_RESERVED"
  shows "slot_inv roles s'"
proof (cases "rc_pc s t")
  case Idle
  then have s: "rc_state s = ENTRY_EMPTY" "s' = goto t A_claimed (s\<lparr>rc_state := ENTRY_RESERVED\<rparr>)"
    using st by (auto simp: adder_step_def split: if_splits)
  have nt: "\<not> tearing (rc_pc s u)" for u using d s by (auto simp: disciplined_def goto_def)
  moreover have "\<not> adding (rc_pc s u)" for u
    using inv s(1) wf_entry_types(2) unfolding slot_inv_def by metis
  ultimately have b: "\<not> busy (rc_pc s u) \<or> u = t" for u by (simp add: busy_def)
  show ?thesis
    by (rule slot_inv_alone[OF inv b, of _ A_claimed])
      (use slot_inv_parity[OF inv b] s Idle wf_entry_types in \<open>auto simp: goto_def\<close>)
next
  case A_claimed
  then have b: "\<not> busy (rc_pc s u) \<or> u = t" for u
    using slot_inv_others(1)[OF inv, of t u] by (auto simp: busy_def)
  have s: "s' = goto t (A_write field_order) (s\<lparr>rc_writes := rc_writes s + 1\<rparr>)"
    using st A_claimed by (auto simp: adder_step_def)
  have "rc_state s = ENTRY_RESERVED" using inv A_claimed unfolding slot_inv_def by (metis adding.simps(1))
  then show ?thesis
    by (intro slot_inv_alone[OF inv b, of _ "A_write field_order"])
      (use slot_inv_parity[OF inv b] s A_claimed wf_entry_types role in \<open>auto simp: goto_def set_field_order\<close>)
next
  case (A_write fs)
  then have b: "\<not> busy (rc_pc s u) \<or> u = t" for u
    using slot_inv_others(1)[OF inv, of t u] by (auto simp: busy_def)
  have r: "rc_state s = ENTRY_RESERVED" using inv A_write unfolding slot_inv_def by (metis adding.simps(2))
  have f: "f \<notin> set fs \<Longrightarrow> field_eq f (en_payload e) (rc_payload s)" for f
    using inv A_write role unfolding slot_inv_def by (metis role.inject)
  show ?thesis
  proof (cases fs)
    case Nil
    then have s: "s' = goto t A_wrote (s\<lparr>rc_writes := rc_writes s + 1\<rparr>)"
      using st A_write by (auto simp: adder_step_def)
    have "rc_payload s = en_payload e" using f Nil all_fields_eq[of "en_payload e" "rc_payload s"] by simp
    then show ?thesis
      by (intro slot_inv_alone[OF inv b, of _ A_wrote])
        (use slot_inv_parity[OF inv b] s A_write r wf_entry_types role in \<open>auto simp: goto_def\<close>)
  next
    case (Cons g gs)
    then have s: "s' = goto t (A_write gs) (s\<lparr>rc_payload := put_field g (en_payload e) (rc_payload s)\<rparr>)"
      using st A_write by (auto simp: adder_step_def)
    then show ?thesis
      by (intro slot_inv_alone[OF inv b, of _ "A_write gs"])
        (use slot_inv_parity[OF inv b] s A_write r wf_entry_types role f Cons in \<open>auto simp: goto_def field_eq_put\<close>)
  qed
next
  case A_wrote
  then have b: "\<not> busy (rc_pc s u) \<or> u = t" for u
    using slot_inv_others(1)[OF inv, of t u] by (auto simp: busy_def)
  have s: "s' = goto t A_done (s\<lparr>rc_state := en_type e\<rparr>)"
    using st A_wrote by (auto simp: adder_step_def)
  have "rc_payload s = en_payload e" using inv A_wrote role unfolding slot_inv_def by (metis role.inject)
  then show ?thesis
    by (intro slot_inv_alone[OF inv b, of _ A_done])
      (use slot_inv_parity[OF inv b] s A_wrote role in \<open>auto simp: goto_def\<close>)
qed (use st in \<open>auto simp: adder_step_def\<close>)

lemma remover_step_inv:
  assumes inv: "slot_inv roles s" and st: "remover_step t s = Some s'" and role: "roles t = Remover"
    and d: "disciplined s s'"
  shows "slot_inv roles s'"
proof (cases "rc_pc s t")
  case Idle
  then have s: "rc_state s \<noteq> ENTRY_EMPTY" "s' = goto t R_won (s\<lparr>rc_state := ENTRY_EMPTY\<rparr>)"
    using st by (auto simp: remover_step_def split: if_splits)
  have "rc_state s \<noteq> ENTRY_RESERVED" using d s by (auto simp: disciplined_def goto_def)
  then have b: "\<not> busy (rc_pc s u) \<or> u = t" for u
    using inv s(1) unfolding slot_inv_def busy_def by metis
  show ?thesis
    by (rule slot_inv_alone[OF inv b, of _ R_won])
      (use slot_inv_parity[OF inv b] s Idle wf_entry_types in \<open>auto simp: goto_def\<close>)
next
  case R_won
  then have b: "\<not> busy (rc_pc s u) \<or> u = t" for u
    using slot_inv_others(1)[OF inv, of t u] by (auto simp: busy_def)
  have "rc_state s = ENTRY_EMPTY" using inv R_won unfolding slot_inv_def by (metis tearing.simps(1))
  then show ?thesis
    by (intro slot_inv_alone[OF inv b, of _ R_begun])
      (use slot_inv_parity[OF inv b] st R_won in \<open>auto simp: goto_def remover_step_def\<close>)
next
  case R_begun
  then have b: "\<not> busy (rc_pc s u) \<or> u = t" for u
    using slot_inv_others(1)[OF inv, of t u] by (auto simp: busy_def)
  have "rc_state s = ENTRY_EMPTY" using inv R_begun unfolding slot_inv_def by (metis tearing.simps(2))
  then show ?thesis
    by (intro slot_inv_alone[OF inv b, of _ "R_zero (pl_socket_path (rc_payload s)) field_order"])
      (use slot_inv_parity[OF inv b] st R_begun in \<open>auto simp: goto_def remover_step_def\<close>)
next
  case (R_zero path fs)
  then have b: "\<not> busy (rc_pc s u) \<or> u = t" for u
    using slot_inv_others(1)[OF inv, of t u] by (auto simp: busy_def)
  have e: "rc_state s = ENTRY_EMPTY" using inv R_zero unfolding slot_inv_def by (metis tearing.simps(3))
  show ?thesis
  proof (cases fs)
    case Nil
    then show ?thesis
      by (intro slot_inv_alone[OF inv b, of _ "R_unlink path"])
        (use slot_inv_parity[OF inv b] st R_zero e in \<open>auto simp: goto_def remover_step_def\<close>)
  next
    case (Cons g gs)
    then show ?thesis
      by (intro slot_inv_alone[OF inv b, of _ "R_zero path gs"])
        (use slot_inv_parity[OF inv b] st R_zero e in \<open>auto simp: goto_def remover_step_def\<close>)
  qed
next
  case (R_unlink path)
  have "s' = goto t R_done (if path \<noteq> [] then s\<lparr>rc_unlinked := rc_unlinked s @ [path]\<rparr> else s)"
    using st R_unlink by (simp add: remover_step_def)
  then have same: "rc_state s' = rc_state s" "rc_writes s' = rc_writes s" "rc_payload s' = rc_payload s"
    "rc_pc s' = (rc_pc s)(t := R_done)" by (simp_all add: goto_def)
  have eq: "P (rc_pc s' u) = P (rc_pc s u)" if "P R_done = P (R_unlink path)" for P :: "pc \<Rightarrow> bool" and u
    using that R_unlink by (simp add: same)
  show ?thesis
    using inv unfolding slot_inv_def same(1-3)
    by (simp add: eq[of adding] eq[of tearing] eq[of in_section] eq[of "\<lambda>l. l = A_write _"] eq[of "\<lambda>l. l = A_wrote"])
qed (use st in \<open>auto simp: remover_step_def\<close>)

definition wf_roles :: "(nat \<Rightarrow> role) \<Rightarrow> bool" where
  "wf_roles roles \<longleftrightarrow> (\<forall>t e. roles t = Adder e \<longrightarrow> en_type e \<noteq> ENTRY_EMPTY \<and> en_type e \<noteq> ENTRY_RESERVED)"

lemma excl_step_inv:
  assumes "slot_inv roles s" "excl_step roles s s'"
    and "wf_roles roles"
  shows "slot_inv roles s'"
proof -
  obtain t where t: "thread_step roles t s = Some s'" and d: "disciplined s s'"
    using assms(2) by (auto elim: excl_step.cases race_step.cases)
  show ?thesis
  proof (cases "roles t")
    case (Adder e)
    then show ?thesis using adder_step_inv[OF assms(1) _ Adder d] assms(3) Adder t by (simp add: thread_step_def wf_roles_def)
  next
    case Remover
    then show ?thesis using remover_step_inv[OF assms(1) _ Remover d] t by (simp add: thread_step_def)
  qed
qed

lemma slot_inv_start: "slot_inv roles race_start"
  by (simp add: slot_inv_def race_start_def)

section \<open>Between two equal even sequence numbers nothing moves\<close>

lemma thread_step_payload:
  assumes "thread_step roles t s = Some s'"
  shows "rc_writes s \<le> rc_writes s' \<and> (rc_payload s' = rc_payload s \<or> in_section (rc_pc s t))"
  using assms
  by (auto simp: thread_step_def adder_step_def remover_step_def goto_def
      split: role.splits pc.splits list.splits if_splits)

lemma excl_step_frozen:
  assumes "slot_inv roles s" "excl_step roles s s'"
  shows "rc_writes s \<le> rc_writes s' \<and> (even (rc_writes s) \<longrightarrow> rc_payload s' = rc_payload s)"
proof -
  obtain t where "thread_step roles t s = Some s'"
    using assms(2) by (auto elim: excl_step.cases race_step.cases)
  then show ?thesis using thread_step_payload assms(1) unfolding slot_inv_def by blast
qed

text \<open>Seen from any state: while the write counter stands still at an even value, so does the payload.\<close>

interpretation frozen: transition_invariant "excl_step roles"
    "\<lambda>s'. wf_roles roles \<longrightarrow> slot_inv roles s' \<and> rc_writes s \<le> rc_writes s' \<and>
       (even (rc_writes s) \<longrightarrow> rc_writes s' = rc_writes s \<longrightarrow> rc_payload s' = rc_payload s)" for roles s
proof unfold_locales
  fix y z
  assume st: "excl_step roles y z" and y: "wf_roles roles \<longrightarrow> slot_inv roles y \<and> rc_writes s \<le> rc_writes y \<and>
       (even (rc_writes s) \<longrightarrow> rc_writes y = rc_writes s \<longrightarrow> rc_payload y = rc_payload s)"
  show "wf_roles roles \<longrightarrow> slot_inv roles z \<and> rc_writes s \<le> rc_writes z \<and>
       (even (rc_writes s) \<longrightarrow> rc_writes z = rc_writes s \<longrightarrow> rc_payload z = rc_payload s)"
    using y excl_step_inv[OF _ st] excl_step_frozen[OF _ st] by auto
qed

lemma excl_steps_frozen:
  assumes "(excl_step roles)\<^sup>*\<^sup>* s s'" "slot_inv roles s"
    and wf: "wf_roles roles"
  shows "slot_inv roles s' \<and> rc_writes s \<le> rc_writes s' \<and>
    (even (rc_writes s) \<longrightarrow> rc_writes s' = rc_writes s \<longrightarrow> rc_payload s' = rc_payload s)"
  using frozen.steps_keep[OF assms(1), of s] assms(2) wf by simp

text \<open>
  One pass of the reader's loop along a run: the counter is read in \<open>s1\<close>, the state in \<open>sm\<close>,
  every field somewhere between \<open>sm\<close> and \<open>s2\<close>, the counter again in \<open>s2\<close>, with fewer than
  \<open>2 ^ 32\<close> increments in between.
\<close>

definition pass_along :: "(race \<Rightarrow> race \<Rightarrow> bool) \<Rightarrow> slot_read \<Rightarrow> bool" where
  "pass_along step r \<longleftrightarrow>
     (\<exists>s1 sm s2. step\<^sup>*\<^sup>* race_start s1 \<and> step\<^sup>*\<^sup>* s1 sm \<and> step\<^sup>*\<^sup>* sm s2 \<and>
        rd_s1 r = rc_seq s1 \<and> rd_state r = rc_state sm \<and> rd_s2 r = rc_seq s2 \<and>
        rc_writes s2 < rc_writes s1 + 2 ^ 32 \<and>
        (\<forall>f. \<exists>sf. step\<^sup>*\<^sup>* sm sf \<and> step\<^sup>*\<^sup>* sf s2 \<and> field_eq f (rd_payload r) (rc_payload sf)))"

lemma same_seq_same_count:
  assumes "(of_nat a :: u32) = of_nat b" "a \<le> b" "b < a + 2 ^ 32"
  shows "a = b"
proof -
  have "a mod 2 ^ 32 = b mod 2 ^ 32"
    using assms(1) by (simp add: of_nat_eq_iff word_of_nat_eq_iff take_bit_eq_mod)
  then have "2 ^ 32 dvd b - a" using assms(2) mod_eq_dvd_iff_nat[of a b "2 ^ 32"] by simp
  then show ?thesis using assms(2,3) by (auto dest: dvd_imp_le)
qed

lemma even_seq: "even (unat (of_nat n :: u32)) \<longleftrightarrow> even n"
proof -
  have "unat (of_nat n :: u32) = n mod 2 ^ 32" by (simp add: unsigned_of_nat take_bit_eq_mod)
  then show ?thesis by (simp add: dvd_mod_iff)
qed

lemma pass_consistent:
  assumes "pass_along (excl_step roles) r" "even (unat (rd_s1 r))" "rd_s1 r = rd_s2 r"
    and "rd_state r \<noteq> ENTRY_EMPTY" "rd_state r \<noteq> ENTRY_RESERVED"
    and wf: "wf_roles roles"
  shows "\<exists>a e. roles a = Adder e \<and> rd_state r = en_type e \<and> rd_payload r = en_payload e"
proof -
  obtain s1 sm s2 where run: "(excl_step roles)\<^sup>*\<^sup>* race_start s1" "(excl_step roles)\<^sup>*\<^sup>* s1 sm" "(excl_step roles)\<^sup>*\<^sup>* sm s2"
    and rd: "rd_s1 r = rc_seq s1" "rd_state r = rc_state sm" "rd_s2 r = rc_seq s2" "rc_writes s2 < rc_writes s1 + 2 ^ 32"
    and flds: "\<And>f. \<exists>sf. (excl_step roles)\<^sup>*\<^sup>* sm sf \<and> (excl_step roles)\<^sup>*\<^sup>* sf s2 \<and> field_eq f (rd_payload r) (rc_payload sf)"
    using assms(1) unfolding pass_along_def by blast
  have i1: "slot_inv roles s1" using excl_steps_frozen[OF run(1) slot_inv_start wf] by blast
  have m: "slot_inv roles sm" "rc_writes s1 \<le> rc_writes sm"
    using excl_steps_frozen[OF run(2) i1 wf] by blast+
  have le: "rc_writes sm \<le> rc_writes s2" using excl_steps_frozen[OF run(3) m(1) wf] by blast
  have eq: "rc_writes s1 = rc_writes s2"
    using same_seq_same_count[of "rc_writes s1" "rc_writes s2"] assms(3) rd m(2) le by (simp add: rc_seq_def)
  have ev: "even (rc_writes sm)" and wm: "rc_writes sm = rc_writes s2"
    using assms(2) rd(1) eq m(2) le even_seq by (simp_all add: rc_seq_def)
  have "field_eq f (rd_payload r) (rc_payload sm)" for f
  proof -
    obtain sf where sf: "(excl_step roles)\<^sup>*\<^sup>* sm sf" "(excl_step roles)\<^sup>*\<^sup>* sf s2" "field_eq f (rd_payload r) (rc_payload sf)"
      using flds by blast
    have a: "slot_inv roles sf" "rc_writes sm \<le> rc_writes sf"
      "rc_writes sf = rc_writes sm \<longrightarrow> rc_payload sf = rc_payload sm"
      using excl_steps_frozen[OF sf(1) m(1) wf] ev by blast+
    have "rc_writes sf \<le> rc_writes s2" using excl_steps_frozen[OF sf(2) a(1) wf] by blast
    then show ?thesis using a sf(3) wm by simp
  qed
  then have "rd_payload r = rc_payload sm" by (rule all_fields_eq)
  moreover have "rc_state sm \<noteq> ENTRY_EMPTY \<and> rc_state sm \<noteq> ENTRY_RESERVED" using assms(4,5) rd(2) by simp
  ultimately show ?thesis using m(1) rd(2) unfolding slot_inv_def by metis
qed

lemma snapshot_loop_pass:
  "snapshot_loop n obs = Some (st, p, sq) \<Longrightarrow>
     \<exists>k. even (unat (rd_s1 (obs k))) \<and> rd_s1 (obs k) = rd_s2 (obs k) \<and> rd_state (obs k) \<noteq> ENTRY_EMPTY \<and>
       rd_state (obs k) \<noteq> ENTRY_RESERVED \<and> st = rd_state (obs k) \<and> p = rd_payload (obs k)"
  by (induction n) (auto simp: Let_def split: if_splits)

text \<open>
  C4: a snapshot is never torn while slots are claimed only after their teardown. In every
  interleaving of adders and removers that keeps this discipline, whatever the reader's
  passes see, a snapshot that succeeds carries the type and the whole payload of one entry
  that an adder registered, with every field read at its own moment.
\<close>

theorem snapshot_never_torn:
  assumes "\<And>k. pass_along (excl_step roles) (obs k)"
    and "wf_roles roles"
    and "snapshot_loop MAX_READ_RETRIES obs = Some (st, p, sq)"
  shows "\<exists>a e. roles a = Adder e \<and> st = en_type e \<and> p = en_payload e"
proof -
  obtain k where k: "even (unat (rd_s1 (obs k)))" "rd_s1 (obs k) = rd_s2 (obs k)" "rd_state (obs k) \<noteq> ENTRY_EMPTY"
    "rd_state (obs k) \<noteq> ENTRY_RESERVED" "st = rd_state (obs k)" "p = rd_payload (obs k)"
    using snapshot_loop_pass[OF assms(3)] by blast
  show ?thesis using pass_consistent[OF assms(1) k(1-4) assms(2)] k(5,6) by simp
qed

section \<open>Concrete runs\<close>

text \<open>A run in which only adders move keeps the discipline.\<close>

lemma adder_run_excl:
  assumes "run_threads roles ts s = Some s'" "\<forall>t\<in>set ts. roles t \<noteq> Remover" "wf_roles roles"
    and "\<forall>t. \<not> tearing (rc_pc s t)"
  shows "(excl_step roles)\<^sup>*\<^sup>* s s'"
  using assms
proof (induction ts arbitrary: s)
  case (Cons t ts)
  obtain s1 where s1: "thread_step roles t s = Some s1" "run_threads roles ts s1 = Some s'"
    using Cons.prems(1) by (auto split: option.splits)
  obtain e where e: "roles t = Adder e" using Cons.prems(2) by (cases "roles t") auto
  have wf: "en_type e \<noteq> ENTRY_EMPTY" using Cons.prems(3) e by (simp add: wf_roles_def)
  have st: "adder_step t e s = Some s1" using s1(1) e by (simp add: thread_step_def)
  have nt: "\<forall>u. \<not> tearing (rc_pc s1 u)"
    using st Cons.prems(4) by (auto simp: adder_step_def goto_def split: pc.splits list.splits if_splits)
  have "disciplined s s1"
    using st Cons.prems(4) wf wf_entry_types(2,3) by (auto simp: disciplined_def adder_step_def goto_def split: pc.splits list.splits if_splits)
  then have "excl_step roles s s1" using s1(1) by (auto intro: excl_step.intros race_step.intros)
  then show ?case using Cons.IH[OF s1(2) _ Cons.prems(3) nt] Cons.prems(2) by (simp add: converse_rtranclp_into_rtranclp)
qed simp

lemma run_threads_append:
  "run_threads roles (ts @ us) s = (case run_threads roles ts s of None \<Rightarrow> None | Some s' \<Rightarrow> run_threads roles us s')"
  by (induction ts arbitrary: s) (auto split: option.splits)

lemma run_threads_trans:
  "run_threads roles ts s = Some s1 \<Longrightarrow> run_threads roles us s1 = Some s2 \<Longrightarrow> run_threads roles (ts @ us) s = Some s2"
  by (simp add: run_threads_append)

text \<open>One uninterrupted addition, as the steps of its thread.\<close>

lemma run_writes:
  "rc_pc s t = A_write fs \<Longrightarrow> roles t = Adder e \<Longrightarrow>
     run_threads roles (replicate (length fs) t) s =
       Some (s\<lparr>rc_payload := fold (\<lambda>f. put_field f (en_payload e)) fs (rc_payload s), rc_pc := (rc_pc s)(t := A_write [])\<rparr>)"
proof (induction fs arbitrary: s)
  case Nil
  then show ?case by (cases s) (auto simp: fun_upd_idem)
next
  case (Cons f fs)
  let ?s = "goto t (A_write fs) (s\<lparr>rc_payload := put_field f (en_payload e) (rc_payload s)\<rparr>)"
  have "thread_step roles t s = Some ?s" using Cons.prems by (simp add: thread_step_def adder_step_def)
  moreover have "rc_pc ?s t = A_write fs" by (simp add: goto_def)
  ultimately show ?case using Cons.IH[of ?s] Cons.prems(2) by (simp add: goto_def cong: if_cong)
qed

lemma run_zeroes:
  "rc_pc s t = R_zero path fs \<Longrightarrow> roles t = Remover \<Longrightarrow>
     run_threads roles (replicate (length fs) t) s =
       Some (s\<lparr>rc_payload := fold (\<lambda>f. put_field f zero_payload) fs (rc_payload s), rc_pc := (rc_pc s)(t := R_zero path [])\<rparr>)"
proof (induction fs arbitrary: s)
  case Nil
  then show ?case by (cases s) (auto simp: fun_upd_idem)
next
  case (Cons f fs)
  let ?s = "goto t (R_zero path fs) (s\<lparr>rc_payload := put_field f zero_payload (rc_payload s)\<rparr>)"
  have "thread_step roles t s = Some ?s" using Cons.prems by (simp add: thread_step_def remover_step_def)
  moreover have "rc_pc ?s t = R_zero path fs" by (simp add: goto_def)
  ultimately show ?case using Cons.IH[of ?s] Cons.prems(2) by (simp add: goto_def cong: if_cong)
qed

lemma fold_put_all: "fold (\<lambda>f. put_field f src) field_order dst = src"
  by (rule all_fields_eq[symmetric]) (simp add: field_order_def field_eq_put, case_tac f, simp_all)

lemma length_field_order: "length field_order = 11"
  by (simp add: field_order_def)

lemma add_alone:
  assumes "rc_pc s t = Idle" "roles t = Adder e" "rc_state s = ENTRY_EMPTY"
  shows "run_threads roles (replicate 15 t) s =
    Some (s\<lparr>rc_state := en_type e, rc_writes := rc_writes s + 2, rc_payload := en_payload e, rc_pc := (rc_pc s)(t := A_done)\<rparr>)"
proof -
  let ?s = "s\<lparr>rc_state := ENTRY_RESERVED, rc_writes := rc_writes s + 1, rc_pc := (rc_pc s)(t := A_write field_order)\<rparr>"
  let ?w = "?s\<lparr>rc_payload := en_payload e, rc_pc := (rc_pc s)(t := A_write [])\<rparr>"
  let ?f = "s\<lparr>rc_state := en_type e, rc_writes := rc_writes s + 2, rc_payload := en_payload e, rc_pc := (rc_pc s)(t := A_done)\<rparr>"
  have "run_threads roles [t, t] s = Some ?s"
    using assms by (simp add: thread_step_def adder_step_def goto_def)
  moreover have "run_threads roles (replicate (length field_order) t) ?s = Some ?w"
    using run_writes[of ?s t field_order roles e] assms(2) fold_put_all by simp
  moreover have "run_threads roles [t, t] ?w = Some ?f"
    using assms(2) by (simp add: thread_step_def adder_step_def goto_def)
  ultimately have "run_threads roles ([t, t] @ replicate (length field_order) t @ [t, t]) s = Some ?f"
    by (intro run_threads_trans)
  moreover have "[t, t] @ replicate (length field_order) t @ [t, t] = replicate 15 t"
    by (simp add: length_field_order eval_nat_numeral)
  ultimately show ?thesis by (simp only:)
qed

lemma read_retries_Suc: "MAX_READ_RETRIES = Suc 15"
  by (simp add: MAX_READ_RETRIES_def)

theorem snapshot_never_torn_witness:
  "\<exists>a e. (\<lambda>_. Adder \<lparr>en_type = ENTRY_SUBSCRIPTION, en_payload = zero_payload\<lparr>pl_pid := 7\<rparr>\<rparr>) (a :: nat) = Adder e \<and>
     ENTRY_SUBSCRIPTION = en_type e \<and> zero_payload\<lparr>pl_pid := 7\<rparr> = en_payload e"
proof -
  let ?e = "\<lparr>en_type = ENTRY_SUBSCRIPTION, en_payload = zero_payload\<lparr>pl_pid := 7\<rparr>\<rparr>"
  let ?roles = "\<lambda>_ :: nat. Adder ?e"
  let ?s = "race_start\<lparr>rc_state := en_type ?e, rc_writes := rc_writes race_start + 2, rc_payload := en_payload ?e,
    rc_pc := (rc_pc race_start)(0 := A_done)\<rparr>"
  have wf: "wf_roles ?roles" by (simp add: wf_roles_def uds_defs)
  have "run_threads ?roles (replicate 15 0) race_start = Some ?s"
    by (rule add_alone) (simp_all add: race_start_def)
  then have run: "(excl_step ?roles)\<^sup>*\<^sup>* race_start ?s"
    by (rule adder_run_excl) (use wf in \<open>auto simp: race_start_def\<close>)
  let ?obs = "\<lambda>_ :: nat. \<lparr>rd_s1 = 2, rd_state = ENTRY_SUBSCRIPTION, rd_payload = zero_payload\<lparr>pl_pid := 7\<rparr>, rd_s2 = 2\<rparr>"
  have fe: "field_eq f p p" for f p by (cases f) simp_all
  have pass: "pass_along (excl_step ?roles) (?obs k)" for k
    unfolding pass_along_def
    by (intro exI[of _ ?s] conjI allI rtranclp.rtrancl_refl run exI[of _ ?s])
      (simp_all add: rc_seq_def race_start_def fe)
  have "snapshot_loop MAX_READ_RETRIES ?obs = Some (ENTRY_SUBSCRIPTION, zero_payload\<lparr>pl_pid := 7\<rparr>, 2)"
    unfolding read_retries_Suc snapshot_loop.simps by (simp add: uds_defs)
  then show ?thesis by (rule snapshot_never_torn[OF pass wf])
qed

text \<open>
  C30: outside that discipline a live entry can be destroyed. A remover that is preempted
  between its successful exchange to \<open>EMPTY\<close> and its teardown lets another process claim the
  slot, publish its entry and return success; the late teardown then zeroes the new
  entry's payload and unlinks the new entry's socket. The slot ends published with an even
  counter, so snapshots succeed and return an all-zero payload.
\<close>

theorem late_teardown_destroys_live_entry:
  assumes "wf_roles roles" "roles 0 = Adder old" "roles 1 = Remover" "roles 2 = Adder live"
    and "pl_socket_path (en_payload live) \<noteq> []"
  shows "\<exists>s. (race_step roles)\<^sup>*\<^sup>* race_start s \<and> rc_pc s 1 = R_done \<and> rc_pc s 2 = A_done \<and>
    rc_state s = en_type live \<and> rc_payload s = zero_payload \<and>
    rc_unlinked s = [pl_socket_path (en_payload live)] \<and>
    snapshot_slot \<lparr>sl_seq = rc_seq s, sl_state = rc_state s, sl_payload = rc_payload s\<rparr> = Some (en_type live, zero_payload, 6)"
proof -
  have wf: "en_type old \<noteq> ENTRY_EMPTY" "en_type live \<noteq> ENTRY_EMPTY" "en_type live \<noteq> ENTRY_RESERVED"
    using assms by (auto simp: wf_roles_def)
  let ?path = "pl_socket_path (en_payload live)"
  let ?a = "race_start\<lparr>rc_state := en_type old, rc_writes := 2, rc_payload := en_payload old, rc_pc := (\<lambda>_. Idle)(0 := A_done)\<rparr>"
  let ?b = "?a\<lparr>rc_state := ENTRY_EMPTY, rc_pc := (rc_pc ?a)(1 := R_won)\<rparr>"
  let ?c = "?b\<lparr>rc_state := en_type live, rc_writes := 4, rc_payload := en_payload live, rc_pc := (rc_pc ?b)(2 := A_done)\<rparr>"
  let ?d = "?c\<lparr>rc_writes := 5, rc_pc := (rc_pc ?c)(1 := R_zero ?path field_order)\<rparr>"
  let ?z = "?d\<lparr>rc_payload := zero_payload, rc_pc := (rc_pc ?c)(1 := R_zero ?path [])\<rparr>"
  let ?f = "?z\<lparr>rc_writes := 6, rc_unlinked := [?path], rc_pc := (rc_pc ?c)(1 := R_done)\<rparr>"
  have "run_threads roles (replicate 15 0) race_start = Some ?a"
    using add_alone[of race_start 0 roles old] assms(2) by (simp add: race_start_def numeral_2_eq_2)
  moreover have "run_threads roles [1] ?a = Some ?b"
    using assms(3) wf(1) by (simp add: thread_step_def remover_step_def goto_def)
  moreover have "run_threads roles (replicate 15 2) ?b = Some ?c"
    using add_alone[of ?b 2 roles live] assms(4) by simp
  moreover have "run_threads roles [1, 1] ?c = Some ?d"
    using assms(3) by (simp add: thread_step_def remover_step_def goto_def)
  moreover have "run_threads roles (replicate (length field_order) 1) ?d = Some ?z"
    using run_zeroes[of ?d 1 ?path field_order roles] assms(3) by (simp add: fold_put_all)
  moreover have "run_threads roles [1, 1] ?z = Some ?f"
    using assms(3,5) by (simp add: thread_step_def remover_step_def goto_def race_start_def)
  ultimately have "(race_step roles)\<^sup>*\<^sup>* race_start ?f"
    by (meson run_threads_reach rtranclp_trans)
  moreover have "snapshot_slot \<lparr>sl_seq = rc_seq ?f, sl_state = rc_state ?f, sl_payload = rc_payload ?f\<rparr> = Some (en_type live, zero_payload, 6)"
    using wf(2,3) unfolding snapshot_slot_def read_retries_Suc snapshot_loop.simps
    by (simp add: read_still_def rc_seq_def)
  ultimately show ?thesis by (intro exI[of _ ?f]) simp
qed

theorem late_teardown_destroys_live_entry_witness:
  "\<exists>s. (race_step (\<lambda>t. if t = 1 then Remover else Adder \<lparr>en_type = ENTRY_SUBSCRIPTION,
        en_payload = zero_payload\<lparr>pl_pid := 7, pl_socket_path := ''/s''\<rparr>\<rparr>))\<^sup>*\<^sup>* race_start s \<and>
     rc_state s = ENTRY_SUBSCRIPTION \<and> rc_payload s = zero_payload \<and> rc_unlinked s = [''/s'']"
proof -
  let ?e = "\<lparr>en_type = ENTRY_SUBSCRIPTION, en_payload = zero_payload\<lparr>pl_pid := 7, pl_socket_path := ''/s''\<rparr>\<rparr>"
  let ?roles = "\<lambda>t :: nat. if t = 1 then Remover else Adder ?e"
  have "wf_roles ?roles" by (simp add: wf_roles_def uds_defs)
  then show ?thesis using late_teardown_destroys_live_entry[of ?roles ?e ?e] by auto
qed

end
