(* ===== verification/Uds_Latched.thy ===== *)
theory Uds_Latched
  imports Uds_Shm_Ring
begin

text \<open>
  Durable segments and the latched cache of a TRANSIENT_LOCAL publisher
  (\<^verbatim>\<open>shm_transport.cpp\<close>, second half): a segment of fixed-stride slots, each holding one
  sample under its own sequence lock, written at publish time and read by the late joiner
  itself. Payloads above the embedding cap live in segments of their own, owned by the slot.
\<close>

definition TL_EMBED_CAP :: nat where "TL_EMBED_CAP = 1024"
definition TL_RING_MAX_BYTES :: nat where "TL_RING_MAX_BYTES = 2 * 1024 * 1024"
definition TL_RING_MAGIC :: u32 where "TL_RING_MAGIC = 0x4C544455"
definition TL_RING_VERSION :: u32 where "TL_RING_VERSION = 1"
definition TL_SLOT_BYTES_UNALIGNED :: nat where
  "TL_SLOT_BYTES_UNALIGNED = sizeof_ShmRecordHeader + 37 + TL_EMBED_CAP"

section \<open>Durable segments\<close>

record durable_segment =
  ds_base :: nat
  ds_map_size :: nat
  ds_shm_name :: string

text \<open>\<^verbatim>\<open>~DurableShmSegment\<close>\<close>

definition durable_close :: "shm_fs \<Rightarrow> durable_segment option \<Rightarrow> shm_fs" where
  "durable_close fs seg =
     (case seg of None \<Rightarrow> fs
      | Some s \<Rightarrow> if ds_shm_name s \<noteq> [] then shm_unlink fs (ds_shm_name s) else fs)"

definition write_durable :: "nat \<Rightarrow> bytes \<Rightarrow> mem \<Rightarrow> mem" where
  "write_durable area payload m =
     (let m1 = write_ring_header area m;
          m2 = mem_write32 m1 (sizeof_ShmRingHeader + 4) (of_nat (length payload));
          m3 = mem_write m2 (sizeof_ShmRingHeader + sizeof_ShmRecordHeader) payload
      in mem_write32 m3 sizeof_ShmRingHeader 2)"

definition shm_stage_durable ::
    "shm_env \<Rightarrow> u64 \<Rightarrow> bytes \<Rightarrow> shm_fs \<Rightarrow> u32 \<Rightarrow> (shm_desc \<times> durable_segment) option \<times> shm_fs \<times> u32" where
  "shm_stage_durable env domain_id payload fs ctr =
     (if length payload > UINT32_MAX then (None, fs, ctr)
      else if se_force_fail env then (None, fs, ctr)
      else (let record_area = align_n (record_bytes (length payload)) (unat (se_page env));
                total = sizeof_ShmRingHeader + record_area;
                owner_id = mix_owner_id ctr (se_now_us env);
                name = make_segment_name domain_id (se_pid env) owner_id 1
            in case open_fresh env fs name of
                 (None, fs1) \<Rightarrow> (None, fs1, ctr + 1)
               | (Some ob, fs1) \<Rightarrow>
                   if \<not> se_alloc_ok env then (None, shm_unlink fs1 name, ctr + 1)
                   else if \<not> se_map_ok env then (None, shm_unlink (obj_grow fs1 ob total) name, ctr + 1)
                   else (Some (\<lparr>d_segment_id = 1, d_offset = 0, d_seq = 2, d_payload_size = of_nat (length payload),
                                d_owner_pid = of_int (se_pid env), d_owner_id = owner_id\<rparr>,
                               \<lparr>ds_base = ob, ds_map_size = total, ds_shm_name = name\<rparr>),
                         obj_map_mem (obj_grow fs1 ob total) ob (write_durable record_area payload),
                         ctr + 1)))"

section \<open>The latched ring: writer\<close>

record tl_writer =
  tw_base :: "nat option"
  tw_map_size :: nat
  tw_slots :: nat
  tw_slot_bytes :: nat
  tw_next_index :: u64
  tw_shm_name :: string
  tw_durable_segs :: "durable_segment option list"

definition new_tl_writer :: tl_writer where
  "new_tl_writer = \<lparr>tw_base = None, tw_map_size = 0, tw_slots = 0, tw_slot_bytes = 0, tw_next_index = 1,
     tw_shm_name = [], tw_durable_segs = []\<rparr>"

definition tl_slot_stride :: nat where
  "tl_slot_stride = align_n TL_SLOT_BYTES_UNALIGNED SHM_RECORD_ALIGN"

definition tl_slot_at :: "nat \<Rightarrow> nat \<Rightarrow> nat" where
  "tl_slot_at slot_bytes slot = SHM_RECORD_ALIGN + slot * slot_bytes"

definition write_tl_header :: "gid \<Rightarrow> nat \<Rightarrow> nat \<Rightarrow> mem \<Rightarrow> mem" where
  "write_tl_header gid slots stride m =
     mem_write32 (mem_write32 (mem_write (mem_write32 (mem_write32 m 0 TL_RING_MAGIC) 4 TL_RING_VERSION) 8 gid)
       24 (of_nat slots)) 28 (of_nat stride)"

definition tl_slot_count :: "nat \<Rightarrow> nat" where
  "tl_slot_count depth = (let slots = (if depth = 0 then 1 else depth); max_slots = TL_RING_MAX_BYTES div tl_slot_stride
                          in if slots > max_slots then max_slots else slots)"

text \<open>
  \<open>tl_ring_create\<close>: \<^verbatim>\<open>ftruncate\<close> and \<^verbatim>\<open>posix_fallocate\<close> share the allocation outcome of the
  environment; either failure closes and unlinks.
\<close>

definition tl_ring_create ::
    "shm_env \<Rightarrow> u64 \<Rightarrow> gid \<Rightarrow> nat \<Rightarrow> shm_fs \<Rightarrow> u32 \<Rightarrow> tl_writer \<Rightarrow> bool \<times> shm_fs \<times> u32 \<times> tl_writer" where
  "tl_ring_create env domain_id gid depth fs ctr ring =
     (let slots = tl_slot_count depth;
          name = tl_segment_name domain_id (se_pid env) ctr (time_component (se_now_us env))
      in case open_fresh env fs name of
           (None, fs1) \<Rightarrow> (False, fs1, ctr + 1, ring)
         | (Some ob, fs1) \<Rightarrow>
             (let total = SHM_RECORD_ALIGN + slots * tl_slot_stride in
              if \<not> se_alloc_ok env then (False, shm_unlink fs1 name, ctr + 1, ring)
              else if \<not> se_map_ok env then (False, shm_unlink (obj_grow fs1 ob total) name, ctr + 1, ring)
              else (True, obj_map_mem (obj_grow fs1 ob total) ob (write_tl_header gid slots tl_slot_stride), ctr + 1,
                    ring\<lparr>tw_base := Some ob, tw_map_size := total, tw_slots := slots, tw_slot_bytes := tl_slot_stride,
                         tw_next_index := 1, tw_shm_name := name, tw_durable_segs := replicate slots None\<rparr>)))"

text \<open>The writes of one latch, in the order the code makes them.\<close>

definition latch_writes :: "nat \<Rightarrow> u64 \<Rightarrow> wire_header \<Rightarrow> bytes \<Rightarrow> (mem \<Rightarrow> mem) list" where
  "latch_writes off index hdr payload =
     [\<lambda>m. mem_write32 m off (ucast (index * 2 - 1)),
      \<lambda>m. mem_write32 m (off + 4) (of_nat (length payload)),
      \<lambda>m. mem_write m (off + sizeof_ShmRecordHeader) (header_bytes hdr),
      \<lambda>m. mem_write m (off + sizeof_ShmRecordHeader + sizeof_WireHeader) payload,
      \<lambda>m. mem_write32 m off (ucast (index * 2))]"

definition write_slot :: "nat \<Rightarrow> u64 \<Rightarrow> wire_header \<Rightarrow> bytes \<Rightarrow> mem \<Rightarrow> mem" where
  "write_slot off index hdr payload m = fold (\<lambda>w. w) (latch_writes off index hdr payload) m"

definition slot_record :: "wire_header \<Rightarrow> bytes \<Rightarrow> shm_desc option \<Rightarrow> wire_header \<times> bytes" where
  "slot_record hdr payload sdesc =
     (case sdesc of
        None \<Rightarrow> (hdr, payload)
      | Some d \<Rightarrow> (hdr\<lparr>wh_msg_type := wh_msg_type hdr OR SHM_PAYLOAD_FLAG, wh_payload_size := of_nat sizeof_desc\<rparr>,
                   desc_bytes d))"

text \<open>
  \<open>tl_ring_latch\<close>: \<open>alloc_ok\<close> is the outcome of committing the slot's pages. On \<^verbatim>\<open>false\<close> the
  staged segment passed in is destroyed with the parameter that owned it.
\<close>

definition tl_ring_latch ::
    "bool \<Rightarrow> shm_fs \<Rightarrow> tl_writer \<Rightarrow> wire_header \<Rightarrow> bytes \<Rightarrow> shm_desc option \<Rightarrow> durable_segment option \<Rightarrow>
       bool \<times> durable_segment option \<times> shm_fs \<times> tl_writer" where
  "tl_ring_latch alloc_ok fs ring hdr payload staged_desc staged_seg =
     (case tw_base ring of
        None \<Rightarrow> (False, None, durable_close fs staged_seg, ring)
      | Some ob \<Rightarrow>
          if staged_desc = None \<and> length payload > TL_EMBED_CAP then (False, None, durable_close fs staged_seg, ring)
          else (let (slot_hdr, slot_payload) = slot_record hdr payload staged_desc;
                    index = tw_next_index ring;
                    slot = unat (index - 1) mod tw_slots ring
                in if \<not> alloc_ok then (False, None, durable_close fs staged_seg, ring)
                   else (True, tw_durable_segs ring ! slot,
                         obj_map_mem fs ob (write_slot (tl_slot_at (tw_slot_bytes ring) slot) index slot_hdr slot_payload),
                         ring\<lparr>tw_durable_segs := (tw_durable_segs ring)[slot := staged_seg], tw_next_index := index + 1\<rparr>)))"

definition tl_ring_close :: "shm_fs \<Rightarrow> tl_writer \<Rightarrow> shm_fs \<times> tl_writer" where
  "tl_ring_close fs ring =
     (let fs1 = (if tw_shm_name ring \<noteq> [] then shm_unlink fs (tw_shm_name ring) else fs)
      in (fold (\<lambda>seg f. durable_close f seg) (tw_durable_segs ring) fs1,
          ring\<lparr>tw_base := None, tw_shm_name := [], tw_durable_segs := [], tw_slots := 0, tw_map_size := 0\<rparr>))"

section \<open>The latched ring: puller\<close>

record tl_pulled =
  pr_sequence_number :: u64
  pr_wire_header :: bytes
  pr_payload :: bytes

text \<open>
  What the scan finds in memory: for slot \<open>i\<close> and the pass with \<open>k\<close> retries left, the memory at
  the first load of the sequence word, during the copies (in general a mix of moments) and
  at the re-check; and for slot \<open>i\<close> the memory of the final overlap test.
\<close>

record tl_view =
  tv_pass :: "nat \<Rightarrow> nat \<Rightarrow> mem \<times> mem \<times> mem"
  tv_final :: "nat \<Rightarrow> mem"

definition still :: "mem \<Rightarrow> tl_view" where
  "still m = \<lparr>tv_pass = (\<lambda>_ _. (m, m, m)), tv_final = (\<lambda>_. m)\<rparr>"

text \<open>The bounded seqlock read of one slot: the last sequence value observed, and the record.\<close>

fun tl_read_slot :: "nat \<Rightarrow> (nat \<Rightarrow> mem \<times> mem \<times> mem) \<Rightarrow> nat \<Rightarrow> u32 \<Rightarrow> u32 \<times> tl_pulled option" where
  "tl_read_slot off pass 0 observed = (observed, None)"
| "tl_read_slot off pass (Suc k) observed =
     (case pass k of (m1, mc, m2) \<Rightarrow>
       (let s1 = mem_read32 m1 off in
        if s1 = 0 then (s1, None)
        else if odd (unat s1) then tl_read_slot off pass k s1
        else (let len = unat (mem_read32 mc (off + 4)) in
              if len > TL_EMBED_CAP then tl_read_slot off pass k s1
              else (let hdr = mem_read mc (off + sizeof_ShmRecordHeader) 37;
                        payload = mem_read mc (off + sizeof_ShmRecordHeader + 37) len
                    in if mem_read32 m2 off \<noteq> s1 then tl_read_slot off pass k s1
                       else (s1, Some \<lparr>pr_sequence_number = dec64 (take 8 (drop 16 hdr)),
                                       pr_wire_header = hdr, pr_payload = payload\<rparr>)))))"

definition tl_scan :: "nat \<Rightarrow> tl_view \<Rightarrow> (u32 \<times> tl_pulled option) list" where
  "tl_scan slots view = map (\<lambda>i. tl_read_slot (tl_slot_at tl_slot_stride i) (tv_pass view i) 16 0) [0..<slots]"

definition tl_overlapped :: "nat \<Rightarrow> tl_view \<Rightarrow> (u32 \<times> tl_pulled option) list \<Rightarrow> bool" where
  "tl_overlapped slots view scan \<longleftrightarrow>
     (\<exists>i\<in>set [0..<slots]. mem_read32 (tv_final view i) (tl_slot_at tl_slot_stride i) \<noteq> fst (scan ! i))"

definition tl_header_valid :: "mem \<Rightarrow> nat \<Rightarrow> gid \<Rightarrow> bool" where
  "tl_header_valid m map_size gid \<longleftrightarrow>
     mem_read32 m 0 = TL_RING_MAGIC \<and> mem_read32 m 4 = TL_RING_VERSION \<and> mem_read m 8 16 = gid \<and>
     unat (mem_read32 m 28) = tl_slot_stride \<and> mem_read32 m 24 \<noteq> 0 \<and>
     unat (mem_read32 m 24) \<le> (map_size - SHM_RECORD_ALIGN) div tl_slot_stride"

record pull_result =
  pu_ok :: bool
  pu_records :: "tl_pulled list"
  pu_max_seq :: u64
  pu_overlapped :: bool

definition no_pull :: pull_result where
  "no_pull = \<lparr>pu_ok = False, pu_records = [], pu_max_seq = 0, pu_overlapped = False\<rparr>"

definition newest :: "nat \<Rightarrow> tl_pulled list \<Rightarrow> tl_pulled list" where
  "newest max_records recs =
     (let sorted = sort_key (\<lambda>r. sint (pr_sequence_number r)) recs
      in if length sorted > max_records then drop (length sorted - max_records) sorted else sorted)"

definition pull_view :: "nat \<Rightarrow> nat \<Rightarrow> tl_view \<Rightarrow> pull_result" where
  "pull_view slots max_records view =
     (let scan = tl_scan slots view;
          recs = List.map_filter snd scan;
          max_seq = fold (\<lambda>r a. if sint (pr_sequence_number r) > sint a then pr_sequence_number r else a) recs 0;
          out = newest max_records recs
      in \<lparr>pu_ok = (out \<noteq> []), pu_records = out, pu_max_seq = max_seq, pu_overlapped = tl_overlapped slots view scan\<rparr>)"

text \<open>\<open>tl_ring_pull\<close>: \<open>look\<close> says how the mapped memory appears to the scan; \<open>still\<close> when nobody writes.\<close>

definition tl_ring_pull ::
    "reader_env \<Rightarrow> (mem \<Rightarrow> tl_view) \<Rightarrow> shm_fs \<Rightarrow> string \<Rightarrow> gid \<Rightarrow> nat \<Rightarrow> pull_result" where
  "tl_ring_pull env look fs shm_name expected_gid max_records =
     (if shm_name = [] \<or> max_records = 0 then no_pull
      else case fs_names fs shm_name of
             None \<Rightarrow> no_pull
           | Some ob \<Rightarrow>
               (let map_size = obj_size fs ob; m = obj_mem fs ob in
                if re_open_err env \<or> re_stat_err env \<or> map_size < SHM_RECORD_ALIGN \<or> \<not> re_map_ok env then no_pull
                else if \<not> tl_header_valid m map_size expected_gid then no_pull
                else pull_view (unat (mem_read32 m 24)) max_records (look m)))"

end
