(* ===== verification/Uds_Latched_Props.thy ===== *)
theory Uds_Latched_Props
  imports Uds_Latched Uds_Ring_Props
begin

text \<open>
  Replay from the latched cache: what a late joiner pulls after any number of latches, and
  the life of a durable segment.
\<close>

section \<open>Geometry\<close>

lemma tl_slot_stride_eq: "tl_slot_stride = 1088"
proof -
  have "tl_slot_stride = record_bytes 1061"
    by (simp add: tl_slot_stride_def TL_SLOT_BYTES_UNALIGNED_def record_bytes_def TL_EMBED_CAP_def
        sizeof_ShmRecordHeader_def)
  then show ?thesis by (simp add: record_bytes_eq)
qed

lemma tl_slot_count_bounds: "0 < tl_slot_count depth \<and> tl_slot_count depth \<le> 1927"
  by (simp add: tl_slot_count_def Let_def TL_RING_MAX_BYTES_def tl_slot_stride_eq)

lemma tl_slot_at_eq: "tl_slot_at 1088 i = 64 + i * 1088"
  by (simp add: tl_slot_at_def SHM_RECORD_ALIGN_def)

lemma slots_apart: "i \<noteq> j \<Longrightarrow> 64 + i * 1088 + 1088 \<le> 64 + j * (1088::nat) \<or> 64 + j * 1088 + 1088 \<le> 64 + i * 1088"
  by (cases "i < j") (auto simp: not_less le_less)

section \<open>One slot\<close>

lemma write_slot_eq:
  "write_slot off idx h p m =
     mem_write32 (mem_write (mem_write (mem_write32 (mem_write32 m off (ucast (idx * 2 - 1))) (off + 4) (of_nat (length p)))
       (off + 8) (header_bytes h)) (off + 45) p) off (ucast (idx * 2))"
  by (simp add: write_slot_def latch_writes_def sizeof_ShmRecordHeader_def sizeof_WireHeader_def add.commute)

lemma mem_read_write_slot_other:
  assumes "wf_header h" "x + n \<le> off \<or> off + 45 + length p \<le> x"
  shows "mem_read (write_slot off idx h p m) x n = mem_read m x n"
  using assms length_header_bytes[OF assms(1)] unfolding write_slot_eq sizeof_WireHeader_def
  by (auto simp: mem_read_write32_other mem_read_write_other)

lemma write_slot_reads:
  assumes "wf_header h"
  shows "mem_read32 (write_slot off idx h p m) off = ucast (idx * 2)"
    "mem_read32 (write_slot off idx h p m) (off + 4) = of_nat (length p)"
    "mem_read (write_slot off idx h p m) (off + 8) 37 = header_bytes h"
    "mem_read (write_slot off idx h p m) (off + 45) (length p) = p"
  using length_header_bytes[OF assms] unfolding write_slot_eq sizeof_WireHeader_def
  by (simp_all add: mem_read32_write32 mem_read32_write32_other mem_read32_write_other mem_read_write32_other
      mem_read_write_other mem_read_write_same mem_read_write_same_n)

definition pulled :: "wire_header \<times> bytes \<Rightarrow> tl_pulled" where
  "pulled x = \<lparr>pr_sequence_number = wh_sequence_number (fst x), pr_wire_header = header_bytes (fst x), pr_payload = snd x\<rparr>"

definition sample_ok :: "wire_header \<times> bytes \<Rightarrow> bool" where
  "sample_ok x \<longleftrightarrow> wf_header (fst x) \<and> length (snd x) \<le> TL_EMBED_CAP"

definition slot_holds :: "mem \<Rightarrow> nat \<Rightarrow> (nat \<times> wire_header \<times> bytes) option \<Rightarrow> bool" where
  "slot_holds m off c =
     (case c of None \<Rightarrow> mem_read32 m off = 0
      | Some (k, h, p) \<Rightarrow> mem_read32 m off = of_nat (2 * Suc k) \<and> mem_read32 m (off + 4) = of_nat (length p) \<and>
          mem_read m (off + 8) 37 = header_bytes h \<and> mem_read m (off + 45) (length p) = p)"

lemma slot_holds_cong:
  assumes "mem_read m' off 1088 = mem_read m off 1088" "\<And>k h p. c = Some (k, h, p) \<Longrightarrow> length p \<le> TL_EMBED_CAP"
  shows "slot_holds m' off c = slot_holds m off c"
proof -
  have sub: "mem_read m' (off + a) n = mem_read m (off + a) n" if "a + n \<le> 1088" for a n
  proof (rule nth_equalityI)
    fix i assume "i < length (mem_read m' (off + a) n)"
    then have "i < n" "a + i < 1088" using that by simp_all
    then show "mem_read m' (off + a) n ! i = mem_read m (off + a) n ! i"
      using arg_cong[OF assms(1), of "\<lambda>l. l ! (a + i)"] by (simp add: add.assoc)
  qed simp
  show ?thesis
    using sub[of 0 4] sub[of 4 4] sub[of 8 37] assms(2) sub[of 45]
    by (auto simp: slot_holds_def mem_read32_def TL_EMBED_CAP_def split: option.splits)
qed

lemma header_bytes_seq: "wf_header h \<Longrightarrow> dec64 (take 8 (drop 16 (header_bytes h))) = wh_sequence_number h"
  by (simp add: wf_header_def header_bytes_def)

lemma of_nat_u32_bounds:
  assumes "n < 2 ^ 32"
  shows "unat (of_nat n :: u32) = n"
  using assms by (simp add: unsigned_of_nat take_bit_nat_eq_self)

lemma read_slot_still:
  assumes "slot_holds m off c" "\<And>k h p. c = Some (k, h, p) \<Longrightarrow> k < 2 ^ 31 - 1 \<and> sample_ok (h, p)"
  shows "tl_read_slot off (\<lambda>_. (m, m, m)) 16 0 = (mem_read32 m off, map_option (\<lambda>(k, x). pulled x) c)"
proof -
  have f: "(16 :: nat) = Suc 15" by simp
  show ?thesis
  proof (cases c)
    case None
    then show ?thesis using assms(1) unfolding f tl_read_slot.simps by (simp add: slot_holds_def)
  next
    case (Some x)
    then obtain k h p where c: "c = Some (k, h, p)" by (cases x) auto
    have b: "k < 2 ^ 31 - 1" "wf_header h" "length p \<le> 1024"
      using assms(2)[OF c] by (auto simp: sample_ok_def TL_EMBED_CAP_def)
    have sq: "mem_read32 m off = of_nat (2 * Suc k)" "unat (of_nat (2 * Suc k) :: u32) = 2 * Suc k"
      "unat (mem_read32 m (off + 4)) = length p"
      using assms(1) b of_nat_u32_bounds[of "2 * Suc k"] of_nat_u32_bounds[of "length p"]
      by (auto simp: slot_holds_def c)
    have nz: "(of_nat (2 * Suc k) :: u32) \<noteq> 0" using sq(2) by (metis nat.distinct(1) mult_is_0 numeral_eq_Suc unsigned_0)
    have hb: "mem_read m (off + 8) 37 = header_bytes h" "mem_read m (45 + off) (length p) = p"
      using assms(1) by (auto simp: slot_holds_def c add.commute)
    show ?thesis
      unfolding f tl_read_slot.simps case_prod_conv Let_def sq(1) sq(3)
      using sq(2) nz b hb header_bytes_seq[OF b(2)]
      by (simp add: c pulled_def TL_EMBED_CAP_def sizeof_ShmRecordHeader_def del: of_nat_mult of_nat_Suc)
  qed
qed

section \<open>Which sample a slot holds\<close>

fun last_index :: "nat \<Rightarrow> nat \<Rightarrow> nat \<Rightarrow> nat option" where
  "last_index 0 slots i = None"
| "last_index (Suc n) slots i = (if n mod slots = i then Some n else last_index n slots i)"

lemma mod_close:
  assumes "(a::nat) mod s = b mod s" "a \<le> b" "b < a + s"
  shows "a = b"
proof -
  have "s dvd b - a" using assms(1,2) mod_eq_dvd_iff_nat[of a b s] by simp
  then show ?thesis using assms(2,3) by (auto dest: dvd_imp_le)
qed

lemma last_index_Some:
  assumes "0 < slots"
  shows "last_index n slots i = Some k \<longleftrightarrow> k < n \<and> k mod slots = i \<and> n \<le> k + slots"
proof (induction n)
  case (Suc n)
  show ?case
  proof (cases "n mod slots = i")
    case True
    have "k = n" if "k < Suc n" "k mod slots = i" "Suc n \<le> k + slots"
      using mod_close[of k slots n] True that by simp
    then show ?thesis using True assms by auto
  next
    case False
    have "n \<noteq> k + slots" if "k mod slots = i" using False that by auto
    moreover have "k \<noteq> n" if "k mod slots = i" using False that by auto
    ultimately show ?thesis using Suc False by (auto simp: less_Suc_eq)
  qed
qed simp

definition content :: "(wire_header \<times> bytes) list \<Rightarrow> nat \<Rightarrow> nat \<Rightarrow> (nat \<times> wire_header \<times> bytes) option" where
  "content hist slots i = map_option (\<lambda>k. (k, hist ! k)) (last_index (length hist) slots i)"

lemma last_index_less: "last_index n slots i = Some k \<Longrightarrow> k < n"
  by (induction n) (auto split: if_splits)

lemma content_in: "content hist slots i = Some (k, x) \<Longrightarrow> x \<in> set hist"
  by (auto simp: content_def dest!: last_index_less)

lemma content_snoc:
  "content (hist @ [x]) slots i = (if length hist mod slots = i then Some (length hist, x) else content hist slots i)"
  by (auto simp: content_def nth_append dest: last_index_less split: option.splits intro!: option.map_cong)

section \<open>The ring against its history\<close>

definition tl_ok :: "shm_fs \<Rightarrow> tl_writer \<Rightarrow> gid \<Rightarrow> nat \<Rightarrow> (wire_header \<times> bytes) list \<Rightarrow> bool" where
  "tl_ok fs ring gid slots hist \<longleftrightarrow>
     (\<exists>ob. tw_base ring = Some ob \<and> tw_shm_name ring \<noteq> [] \<and> fs_names fs (tw_shm_name ring) = Some ob \<and>
        tw_slots ring = slots \<and> 0 < slots \<and> slots \<le> 1927 \<and> tw_slot_bytes ring = 1088 \<and>
        obj_size fs ob = 64 + slots * 1088 \<and> length gid = 16 \<and>
        mem_read32 (obj_mem fs ob) 0 = TL_RING_MAGIC \<and> mem_read32 (obj_mem fs ob) 4 = TL_RING_VERSION \<and>
        mem_read (obj_mem fs ob) 8 16 = gid \<and> mem_read32 (obj_mem fs ob) 24 = of_nat slots \<and>
        mem_read32 (obj_mem fs ob) 28 = 1088 \<and>
        tw_next_index ring = of_nat (Suc (length hist)) \<and> (\<forall>x\<in>set hist. sample_ok x) \<and>
        (\<forall>i < slots. slot_holds (obj_mem fs ob) (64 + i * 1088) (content hist slots i)))"

lemma tl_ring_create_ok:
  assumes "tl_ring_create env d gid depth fs ctr ring0 = (True, fs', ctr', ring)" "length gid = 16"
  shows "tl_ok fs' ring gid (tl_slot_count depth) []"
proof -
  let ?slots = "tl_slot_count depth"
  let ?name = "tl_segment_name d (se_pid env) ctr (time_component (se_now_us env))"
  obtain ob fs1 where o: "open_fresh env fs ?name = (Some ob, fs1)"
    and r: "fs' = obj_map_mem (obj_grow fs1 ob (64 + ?slots * 1088)) ob (write_tl_header gid ?slots 1088)"
      "ring = ring0\<lparr>tw_base := Some ob, tw_map_size := 64 + ?slots * 1088, tw_slots := ?slots, tw_slot_bytes := 1088,
                         tw_next_index := 1, tw_shm_name := ?name, tw_durable_segs := replicate ?slots None\<rparr>"
    using assms(1)
    by (auto simp: tl_ring_create_def Let_def tl_slot_stride_eq SHM_RECORD_ALIGN_def split: prod.splits option.splits if_splits)
  have z: "mem_read32 (obj_mem fs1 ob) x = 0" for x
    by (simp add: open_fresh_Some(4)[OF o] mem_read32_def mem_read_def dec32_def eval_nat_numeral)
  have hd: "mem_read32 (write_tl_header gid ?slots 1088 m) 0 = TL_RING_MAGIC"
    "mem_read32 (write_tl_header gid ?slots 1088 m) 4 = TL_RING_VERSION"
    "mem_read (write_tl_header gid ?slots 1088 m) 8 16 = gid"
    "mem_read32 (write_tl_header gid ?slots 1088 m) 24 = of_nat ?slots"
    "mem_read32 (write_tl_header gid ?slots 1088 m) 28 = 1088" for m
    using assms(2) unfolding write_tl_header_def
    by (simp_all add: mem_read32_write32 mem_read32_write32_other mem_read32_write_other mem_read_write32_other
        mem_read_write_same_n)
  have body: "mem_read32 (write_tl_header gid ?slots 1088 m) (64 + x) = mem_read32 m (64 + x)" for m x
    using assms(2) unfolding write_tl_header_def
    by (simp add: mem_read32_write32_other mem_read32_write_other)
  have nm: "?name \<noteq> []" by (simp add: tl_segment_name_def snprintf_def)
  have "slot_holds (obj_mem fs' ob) (64 + i * 1088) (content [] ?slots i)" for i
    by (simp add: slot_holds_def content_def r(1) body z)
  then show ?thesis
    using tl_slot_count_bounds[of depth] nm open_fresh_Some[OF o] assms(2) hd
    by (simp add: tl_ok_def r)
qed

lemma ucast_even: "(ucast ((of_nat n :: u64) * 2) :: u32) = of_nat (2 * n)"
proof -
  have "(of_nat n :: u64) * 2 = of_nat (2 * n)" by simp
  moreover have "(ucast (of_nat k :: u64) :: u32) = of_nat k" for k
    by (simp add: unsigned_of_nat word_of_nat_eq_iff)
  ultimately show ?thesis by (simp only:)
qed

lemma tl_ring_latch_ok:
  assumes "tl_ok fs ring gid slots hist" "Suc (length hist) < 2 ^ 31"
    and "tl_ring_latch alloc_ok fs ring hdr payload sdesc seg = (True, evicted, fs', ring')" "wf_header hdr"
  shows "tl_ok fs' ring' gid slots (hist @ [slot_record hdr payload sdesc]) \<and> tw_shm_name ring' = tw_shm_name ring"
proof -
  obtain ob where b: "tw_base ring = Some ob" "tw_shm_name ring \<noteq> []" "fs_names fs (tw_shm_name ring) = Some ob"
    "tw_slots ring = slots" "0 < slots" "slots \<le> 1927" "tw_slot_bytes ring = 1088"
    "obj_size fs ob = 64 + slots * 1088" "length gid = 16"
    and hd: "mem_read32 (obj_mem fs ob) 0 = TL_RING_MAGIC" "mem_read32 (obj_mem fs ob) 4 = TL_RING_VERSION"
        "mem_read (obj_mem fs ob) 8 16 = gid" "mem_read32 (obj_mem fs ob) 24 = of_nat slots"
        "mem_read32 (obj_mem fs ob) 28 = 1088"
    and ix: "tw_next_index ring = of_nat (Suc (length hist))" and so: "\<forall>x\<in>set hist. sample_ok x"
    and sl: "\<And>i. i < slots \<Longrightarrow> slot_holds (obj_mem fs ob) (64 + i * 1088) (content hist slots i)"
    using assms(1) unfolding tl_ok_def by blast
  obtain h p where rec: "slot_record hdr payload sdesc = (h, p)" by fastforce
  let ?n = "length hist"
  let ?slot = "?n mod slots"
  let ?off = "64 + ?slot * 1088"
  let ?m = "obj_mem fs ob"
  let ?m' = "write_slot ?off (of_nat (Suc ?n)) h p ?m"
  have fits: "sample_ok (h, p)"
    using assms(3,4) rec b(1)
    by (auto simp: tl_ring_latch_def slot_record_def sample_ok_def TL_EMBED_CAP_def wf_header_def split: option.splits if_splits)
  have "unat (of_nat ?n :: u64) = ?n"
    using assms(2) by (simp add: unsigned_of_nat take_bit_nat_eq_self)
  then have slot: "unat (tw_next_index ring - 1) mod slots = ?slot" by (simp add: ix)
  have r: "fs' = obj_map_mem fs ob (write_slot ?off (of_nat (Suc ?n)) h p)"
    "ring' = ring\<lparr>tw_durable_segs := (tw_durable_segs ring)[?slot := seg], tw_next_index := of_nat (Suc ?n) + 1\<rparr>"
    using assms(3) rec b(1,4,7) slot
    by (auto simp: tl_ring_latch_def ix tl_slot_at_eq Let_def split: if_splits)
  have wfh: "wf_header h" "length p \<le> 1024" using fits by (simp_all add: sample_ok_def TL_EMBED_CAP_def)
  have other: "mem_read (write_slot ?off idx h p ?m) x k = mem_read ?m x k"
    if "x + k \<le> ?off \<or> ?off + 1088 \<le> x" for x k idx
    by (rule mem_read_write_slot_other) (use wfh that in auto)
  have hd': "mem_read32 ?m' 0 = TL_RING_MAGIC" "mem_read32 ?m' 4 = TL_RING_VERSION" "mem_read ?m' 8 16 = gid"
    "mem_read32 ?m' 24 = of_nat slots" "mem_read32 ?m' 28 = 1088"
    using hd by (simp_all add: mem_read32_def other)
  have "slot_holds ?m' (64 + i * 1088) (content (hist @ [(h, p)]) slots i)" if i: "i < slots" for i
  proof (cases "i = ?slot")
    case True
    have u: "(ucast ((of_nat (Suc ?n) :: u64) * 2) :: u32) = of_nat (2 * Suc ?n)" by (rule ucast_even)
    show ?thesis
      using write_slot_reads[OF wfh(1), of ?off "of_nat (Suc ?n)" p ?m]
      unfolding True content_snoc u by (simp add: slot_holds_def)
  next
    case False
    have "slot_holds ?m' (64 + i * 1088) (content hist slots i) = slot_holds ?m (64 + i * 1088) (content hist slots i)"
    proof (rule slot_holds_cong)
      show "mem_read ?m' (64 + i * 1088) 1088 = mem_read ?m (64 + i * 1088) 1088"
        by (rule other) (use slots_apart[OF False] in simp)
      fix k h' p' assume "content hist slots i = Some (k, h', p')"
      then have "(h', p') \<in> set hist" by (rule content_in)
      then show "length p' \<le> TL_EMBED_CAP" using so by (auto simp: sample_ok_def)
    qed
    then show ?thesis using sl[OF i] False by (simp add: content_snoc)
  qed
  then show ?thesis
    using b hd' so fits by (simp add: tl_ok_def r rec add.commute)
qed

section \<open>What the puller gets\<close>

definition seq_of :: "wire_header \<times> bytes \<Rightarrow> int" where
  "seq_of x = sint (wh_sequence_number (fst x))"

definition increasing :: "(wire_header \<times> bytes) list \<Rightarrow> bool" where
  "increasing hist \<longleftrightarrow> sorted_wrt (<) (map seq_of hist) \<and> (\<forall>x\<in>set hist. 0 < seq_of x)"

lemma sort_key_unique:
  assumes "set xs = set ys" "distinct xs" "sorted_wrt (<) (map f ys)"
  shows "sort_key f xs = ys"
proof -
  have dy: "distinct (map f ys)" "sorted (map f ys)"
    using assms(3) by (auto simp: strict_sorted_iff)
  then have inj: "inj_on f (set ys)" by (simp add: distinct_map)
  have "sorted (map f (sort_key f xs))" by simp
  moreover have "distinct (map f (sort_key f xs))"
    using assms(1,2) inj by (simp add: distinct_map)
  moreover have "set (map f (sort_key f xs)) = set (map f ys)" using assms(1) by simp
  ultimately have "map f (sort_key f xs) = map f ys"
    using dy sorted_distinct_set_unique by blast
  then show ?thesis
    by (rule map_inj_on) (use inj assms(1) in simp)
qed

lemma fold_max_seq:
  "sint (fold (\<lambda>r a. if sint (pr_sequence_number r) > sint a then pr_sequence_number r else a) recs a)
     = fold (\<lambda>r. max (sint (pr_sequence_number r))) recs (sint a)"
  by (induction recs arbitrary: a) (auto simp: max_def)

lemma fold_max_Max: "finite (set xs) \<Longrightarrow> fold (\<lambda>r. max (f r)) xs (a :: int) = Max (insert a (f ` set xs))"
proof (induction xs arbitrary: a)
  case (Cons x xs)
  have "fold (\<lambda>r. max (f r)) (x # xs) a = Max (insert (max (f x) a) (f ` set xs))" using Cons by simp
  also have "\<dots> = Max (insert a (insert (f x) (f ` set xs)))"
    by (cases "xs = []") (auto simp: Max_insert max.commute max.left_commute)
  finally show ?case by (simp add: insert_commute)
qed simp

lemma seq_pulled: "sint (pr_sequence_number (pulled x)) = seq_of x"
  by (simp add: pulled_def seq_of_def)

lemma recs_of_ring:
  assumes "0 < slots" "increasing hist"
  defines "recs \<equiv> List.map_filter (\<lambda>i. map_option (\<lambda>(k, x). pulled x) (content hist slots i)) [0..<slots]"
  shows "set recs = pulled ` set (drop (length hist - slots) hist)" "distinct recs"
    "sort_key (\<lambda>r. sint (pr_sequence_number r)) recs = map pulled (drop (length hist - slots) hist)"
proof -
  let ?n = "length hist"
  have strict: "i < j \<Longrightarrow> j < ?n \<Longrightarrow> seq_of (hist ! i) < seq_of (hist ! j)" for i j
    using assms(2) by (auto simp: increasing_def sorted_wrt_iff_nth_less)
  have cont: "content hist slots i = Some (k, x) \<longleftrightarrow> k < ?n \<and> k mod slots = i \<and> ?n \<le> k + slots \<and> x = hist ! k" for i k x
    using last_index_Some[OF assms(1), of ?n i k] by (auto simp: content_def)
  show set: "set recs = pulled ` set (drop (?n - slots) hist)"
  proof (intro set_eqI iffI)
    fix r assume "r \<in> set recs"
    then obtain i k x where "content hist slots i = Some (k, x)" "r = pulled x"
      by (auto simp: recs_def List.map_filter_def)
    then have k: "k < ?n" "?n \<le> k + slots" "r = pulled (hist ! k)" using cont by auto
    then have "hist ! k = drop (?n - slots) hist ! (k - (?n - slots))" "k - (?n - slots) < length (drop (?n - slots) hist)"
      by auto
    then show "r \<in> pulled ` set (drop (?n - slots) hist)" using k(3) by (metis image_eqI nth_mem)
  next
    fix r assume "r \<in> pulled ` set (drop (?n - slots) hist)"
    then obtain j where j: "j < ?n - (?n - slots)" "r = pulled (hist ! (?n - slots + j))"
      by (auto simp: in_set_conv_nth)
    let ?k = "?n - slots + j"
    have "?k < ?n" "?n \<le> ?k + slots" using j(1) by arith+
    then have "content hist slots (?k mod slots) = Some (?k, hist ! ?k)" by (simp add: cont)
    moreover have "?k mod slots \<in> set [0..<slots]" using assms(1) by simp
    ultimately show "r \<in> set recs" using j(2) by (force simp: recs_def List.map_filter_def image_iff)
  qed
  have inj: "k = k'" if "pulled (hist ! k) = pulled (hist ! k')" "k < ?n" "k' < ?n" for k k'
    using strict[of k k'] strict[of k' k] that seq_pulled by (metis less_irrefl linorder_neqE_nat)
  show d: "distinct recs"
  proof -
    let ?g = "\<lambda>i. map_option (\<lambda>(k, x). pulled x) (content hist slots i)"
    have "inj_on (\<lambda>i. the (?g i)) (set (filter (\<lambda>i. ?g i \<noteq> None) [0..<slots]))"
    proof (rule inj_onI)
      fix i j assume a: "i \<in> set (filter (\<lambda>i. ?g i \<noteq> None) [0..<slots])" "j \<in> set (filter (\<lambda>i. ?g i \<noteq> None) [0..<slots])"
        "the (?g i) = the (?g j)"
      obtain k x k' x' where c: "content hist slots i = Some (k, x)" "content hist slots j = Some (k', x')"
        using a(1,2) by auto
      then have "pulled x = pulled x'" using a(3) by simp
      then show "i = j" using c inj[of k k'] by (auto simp: cont)
    qed
    then show ?thesis by (simp add: recs_def List.map_filter_def distinct_map comp_def)
  qed
  have "sorted_wrt (<) (map seq_of (drop (?n - slots) hist))"
    using assms(2) by (simp add: increasing_def sorted_wrt_drop flip: drop_map)
  then have "sorted_wrt (<) (map (\<lambda>r. sint (pr_sequence_number r)) (map pulled (drop (?n - slots) hist)))"
    by (simp add: comp_def seq_pulled)
  then show "sort_key (\<lambda>r. sint (pr_sequence_number r)) recs = map pulled (drop (?n - slots) hist)"
    by (intro sort_key_unique) (use set d in auto)
qed

lemma increasing_drop: "increasing hist \<Longrightarrow> increasing (drop k hist)"
  by (auto simp: increasing_def sorted_wrt_drop dest: in_set_dropD simp flip: drop_map)

lemma last_is_max:
  assumes "increasing xs" "xs \<noteq> []"
  shows "Max (insert 0 (seq_of ` set xs)) = seq_of (last xs)"
proof (rule Max_eqI)
  show "seq_of (last xs) \<in> insert 0 (seq_of ` set xs)" using assms(2) by simp
  fix y assume "y \<in> insert 0 (seq_of ` set xs)"
  moreover have "0 < seq_of (last xs)" using assms by (simp add: increasing_def)
  moreover have "seq_of (xs ! i) \<le> seq_of (last xs)" if "i < length xs" for i
  proof (cases "i = length xs - 1")
    case False
    then show ?thesis
      using assms that by (auto simp: increasing_def sorted_wrt_iff_nth_less last_conv_nth intro!: less_imp_le)
  qed (use assms(2) in \<open>simp add: last_conv_nth\<close>)
  ultimately show "y \<le> seq_of (last xs)" by (fastforce simp: in_set_conv_nth)
qed simp

lemma map_map_filter_snd:
  "List.map_filter snd (map (\<lambda>i. (a i, b i)) is) = List.map_filter b is"
  by (induction "is") (auto simp: List.map_filter_simps split: option.splits)

lemma pull_history:
  assumes "tl_ok fs ring gid slots hist" "increasing hist" "length hist < 2 ^ 31" "0 < max_records"
  shows "tl_ring_pull reader_up still fs (tw_shm_name ring) gid max_records =
    \<lparr>pu_ok = (hist \<noteq> []), pu_records = map pulled (drop (length hist - min slots max_records) hist),
     pu_max_seq = (if hist = [] then 0 else wh_sequence_number (fst (last hist))), pu_overlapped = False\<rparr>"
proof -
  let ?n = "length hist"
  obtain ob where b: "tw_shm_name ring \<noteq> []" "fs_names fs (tw_shm_name ring) = Some ob"
    "0 < slots" "slots \<le> 1927" "obj_size fs ob = 64 + slots * 1088"
    and hd: "mem_read32 (obj_mem fs ob) 0 = TL_RING_MAGIC" "mem_read32 (obj_mem fs ob) 4 = TL_RING_VERSION"
        "mem_read (obj_mem fs ob) 8 16 = gid" "mem_read32 (obj_mem fs ob) 24 = of_nat slots"
        "mem_read32 (obj_mem fs ob) 28 = 1088"
    and so: "\<forall>x\<in>set hist. sample_ok x"
    and sl: "\<And>i. i < slots \<Longrightarrow> slot_holds (obj_mem fs ob) (64 + i * 1088) (content hist slots i)"
    using assms(1) unfolding tl_ok_def by blast
  let ?m = "obj_mem fs ob"
  have us: "unat (of_nat slots :: u32) = slots" using b(4) of_nat_u32_bounds[of slots] by simp
  have nz: "(of_nat slots :: u32) \<noteq> 0" using us b(3) by (metis neq0_conv unsigned_0)
  have hv: "tl_header_valid ?m (64 + slots * 1088) gid"
    using hd us nz by (simp add: tl_header_valid_def tl_slot_stride_eq SHM_RECORD_ALIGN_def)
  have scan: "tl_scan slots (still ?m) =
      map (\<lambda>i. (mem_read32 ?m (64 + i * 1088), map_option (\<lambda>(k, x). pulled x) (content hist slots i))) [0..<slots]"
  proof -
    have "tl_read_slot (64 + i * 1088) (\<lambda>_. (?m, ?m, ?m)) 16 0 =
        (mem_read32 ?m (64 + i * 1088), map_option (\<lambda>(k, x). pulled x) (content hist slots i))" if "i < slots" for i
    proof (rule read_slot_still[OF sl[OF that]])
      fix k h p assume c: "content hist slots i = Some (k, h, p)"
      then have "k < ?n" by (auto simp: content_def dest: last_index_less)
      then show "k < 2 ^ 31 - 1 \<and> sample_ok (h, p)" using content_in[OF c] so assms(3) by simp
    qed
    then show ?thesis by (auto simp: tl_scan_def still_def tl_slot_stride_eq tl_slot_at_eq)
  qed
  have ov: "\<not> tl_overlapped slots (still ?m) (tl_scan slots (still ?m))"
    unfolding tl_overlapped_def scan by (auto simp: still_def tl_slot_stride_eq tl_slot_at_eq)
  let ?recs = "List.map_filter (\<lambda>i. map_option (\<lambda>(k, x). pulled x) (content hist slots i)) [0..<slots]"
  note rr = recs_of_ring[OF b(3) assms(2)]
  have recs: "List.map_filter snd (tl_scan slots (still ?m)) = ?recs"
    unfolding scan by (rule map_map_filter_snd)
  have ld: "?n - (?n - slots) = min ?n slots" by arith
  have new: "newest max_records ?recs = map pulled (drop (?n - min slots max_records) hist)"
  proof (cases "min ?n slots > max_records")
    case True
    then have "min ?n slots - max_records + (?n - slots) = ?n - min slots max_records" by arith
    then show ?thesis using True by (simp add: newest_def rr(3) ld Let_def drop_map)
  next
    case False
    then have "drop (?n - slots) hist = drop (?n - min slots max_records) hist"
      by (cases "slots \<le> max_records") auto
    then show ?thesis using False by (simp add: newest_def rr(3) ld Let_def)
  qed
  let ?mx = "fold (\<lambda>r a. if sint (pr_sequence_number r) > sint a then pr_sequence_number r else a) ?recs 0"
  have mx: "?mx = (if hist = [] then 0 else wh_sequence_number (fst (last hist)))"
  proof (cases "hist = []")
    case True
    then have "?recs = []" using rr(1) by simp
    then show ?thesis using True by simp
  next
    case False
    let ?xs = "drop (?n - slots) hist"
    have "?n - slots < ?n" using False b(3) by simp
    then have ne: "?xs \<noteq> []" by simp
    have "sint ?mx = Max (insert 0 ((\<lambda>r. sint (pr_sequence_number r)) ` set ?recs))"
      by (simp add: fold_max_seq fold_max_Max)
    also have "\<dots> = Max (insert 0 (seq_of ` set ?xs))" by (simp add: rr(1) image_image seq_pulled)
    also have "\<dots> = seq_of (last hist)"
      using last_is_max[OF increasing_drop[OF assms(2)] ne] ne by (simp add: last_drop)
    finally have "sint ?mx = sint (wh_sequence_number (fst (last hist)))" by (simp add: seq_of_def)
    then have "?mx = wh_sequence_number (fst (last hist))" by (rule signed_word_eqI)
    then show ?thesis using False by simp
  qed
  have ok: "(?n \<le> ?n - min slots max_records) = (hist = [])"
  proof (cases "hist = []")
    case False
    then have "?n - min slots max_records < ?n" using assms(4) b(3) by simp
    then show ?thesis using False by simp
  qed simp
  show ?thesis
    using b hv us assms(4) ov
    by (simp add: tl_ring_pull_def reader_up_def SHM_RECORD_ALIGN_def hd(4) pull_view_def Let_def recs new mx ok)
qed

text \<open>
  A run of latches: each sample with the descriptor and segment staged for it, if any. The
  segment evicted by each latch is destroyed by the caller.
\<close>

type_synonym latch_input = "wire_header \<times> bytes \<times> (shm_desc \<times> durable_segment) option"

fun latch_all :: "shm_fs \<Rightarrow> tl_writer \<Rightarrow> latch_input list \<Rightarrow> shm_fs \<times> tl_writer" where
  "latch_all fs ring [] = (fs, ring)"
| "latch_all fs ring ((hdr, payload, big) # rest) =
     (case tl_ring_latch True fs ring hdr payload (map_option fst big) (map_option snd big) of
        (_, evicted, fs', ring') \<Rightarrow> latch_all (durable_close fs' evicted) ring' rest)"

definition latched_as :: "latch_input \<Rightarrow> wire_header \<times> bytes" where
  "latched_as x = slot_record (fst x) (fst (snd x)) (map_option fst (snd (snd x)))"

definition input_ok :: "string \<Rightarrow> latch_input \<Rightarrow> bool" where
  "input_ok ring_name x \<longleftrightarrow> wf_header (fst x) \<and> (snd (snd x) = None \<longrightarrow> length (fst (snd x)) \<le> TL_EMBED_CAP) \<and>
     (\<forall>d seg. snd (snd x) = Some (d, seg) \<longrightarrow> ds_shm_name seg \<noteq> ring_name)"

definition segs_apart :: "tl_writer \<Rightarrow> bool" where
  "segs_apart ring \<longleftrightarrow> length (tw_durable_segs ring) = tw_slots ring \<and>
     (\<forall>seg. Some seg \<in> set (tw_durable_segs ring) \<longrightarrow> ds_shm_name seg \<noteq> tw_shm_name ring)"

lemma tl_ok_unlink:
  assumes "tl_ok fs ring gid slots hist" "n \<noteq> tw_shm_name ring"
  shows "tl_ok (shm_unlink fs n) ring gid slots hist"
  using assms unfolding tl_ok_def by auto

lemma tl_ok_durable_close:
  assumes "tl_ok fs ring gid slots hist" "\<And>seg. o' = Some seg \<Longrightarrow> ds_shm_name seg \<noteq> tw_shm_name ring"
  shows "tl_ok (durable_close fs o') ring gid slots hist"
  using assms by (auto simp: durable_close_def intro: tl_ok_unlink split: option.splits)

lemma tl_ring_latch_true:
  assumes "tw_base ring \<noteq> None" "sdesc = None \<longrightarrow> length payload \<le> TL_EMBED_CAP"
  shows "fst (tl_ring_latch True fs ring hdr payload sdesc seg)"
  using assms by (auto simp: tl_ring_latch_def Let_def split: option.splits prod.splits)

lemma tl_ring_latch_slot:
  assumes "tl_ring_latch ok fs ring hdr payload sdesc seg = (True, evicted, fs1, ring1)" "0 < tw_slots ring"
  shows "\<exists>slot < tw_slots ring. evicted = tw_durable_segs ring ! slot \<and> tw_slots ring1 = tw_slots ring \<and>
    tw_durable_segs ring1 = (tw_durable_segs ring)[slot := seg]"
proof -
  obtain h p where r: "slot_record hdr payload sdesc = (h, p)" by fastforce
  show ?thesis
    using assms
    by (intro exI[of _ "unat (tw_next_index ring - 1) mod tw_slots ring"])
      (auto simp: tl_ring_latch_def Let_def r split: option.splits if_splits)
qed

lemma latch_all_ok:
  assumes "tl_ok fs ring gid slots hist" "segs_apart ring"
    and "\<forall>x\<in>set xs. input_ok (tw_shm_name ring) x" "length hist + length xs < 2 ^ 31"
    and "latch_all fs ring xs = (fs', ring')"
  shows "tl_ok fs' ring' gid slots (hist @ map latched_as xs) \<and> tw_shm_name ring' = tw_shm_name ring"
  using assms
proof (induction xs arbitrary: fs ring hist)
  case (Cons x xs)
  obtain hdr payload big where x: "x = (hdr, payload, big)" by (cases x) auto
  obtain ok evicted fs1 ring1 where l:
    "tl_ring_latch True fs ring hdr payload (map_option fst big) (map_option snd big) = (ok, evicted, fs1, ring1)"
    using prod_cases4 by metis
  have io: "wf_header hdr" "big = None \<longrightarrow> length payload \<le> TL_EMBED_CAP"
    "\<And>d seg. big = Some (d, seg) \<Longrightarrow> ds_shm_name seg \<noteq> tw_shm_name ring"
    using Cons.prems(3) by (auto simp: x input_ok_def)
  have base: "tw_base ring \<noteq> None" "0 < tw_slots ring" using Cons.prems(1) by (auto simp: tl_ok_def)
  have ok: "ok" using tl_ring_latch_true[of ring "map_option fst big" payload fs hdr "map_option snd big"] base io(2) l by simp
  have t1: "tl_ok fs1 ring1 gid slots (hist @ [latched_as x])" "tw_shm_name ring1 = tw_shm_name ring"
    using tl_ring_latch_ok[OF Cons.prems(1) _ l[unfolded ok[THEN eqTrueI]] io(1)] Cons.prems(4)
    by (simp_all add: latched_as_def x)
  obtain slot where sl: "slot < tw_slots ring" "evicted = tw_durable_segs ring ! slot" "tw_slots ring1 = tw_slots ring"
    "tw_durable_segs ring1 = (tw_durable_segs ring)[slot := map_option snd big]"
    using tl_ring_latch_slot[OF l[unfolded ok[THEN eqTrueI]] base(2)] by blast
  have ev: "ds_shm_name seg \<noteq> tw_shm_name ring1" if "evicted = Some seg" for seg
    using Cons.prems(2) sl(1,2) that t1(2) unfolding segs_apart_def by (metis nth_mem)
  have sa: "segs_apart ring1"
  proof -
    have "ds_shm_name seg \<noteq> tw_shm_name ring" if "Some seg \<in> set ((tw_durable_segs ring)[slot := map_option snd big])" for seg
    proof -
      have "Some seg = map_option snd big \<or> Some seg \<in> set (tw_durable_segs ring)"
        using that set_update_subset_insert[of "tw_durable_segs ring" slot "map_option snd big"] by blast
      then show ?thesis using io(3) Cons.prems(2) unfolding segs_apart_def by (cases big) auto
    qed
    then show ?thesis using Cons.prems(2) unfolding segs_apart_def by (simp add: sl(3,4) t1(2))
  qed
  have "latch_all (durable_close fs1 evicted) ring1 xs = (fs', ring')"
    using Cons.prems(5) by (simp add: x l)
  then show ?case
    using Cons.IH[OF tl_ok_durable_close[OF t1(1) ev] sa] Cons.prems(3,4) t1(2) by simp
qed simp

text \<open>
  C11: a late joiner replays exactly the retained history. After a latched cache of any depth
  is created and any samples are latched, small ones inline and large ones as descriptors,
  the pull returns the newest samples, as many as the slots, the puller's depth and the
  number of samples allow, in publishing order and byte for byte; its watermark is the
  newest sequence number, and it reports no overlap.
\<close>

theorem latched_replay_exact:
  assumes "tl_ring_create env d gid depth fs ctr ring0 = (True, fs1, ctr', ring)" "length gid = 16"
    and "\<forall>x\<in>set xs. input_ok (tw_shm_name ring) x" "length xs < 2 ^ 31" "increasing (map latched_as xs)"
    and "latch_all fs1 ring xs = (fs2, ring2)" "0 < max_records"
  shows "tl_ring_pull reader_up still fs2 (tw_shm_name ring) gid max_records =
    \<lparr>pu_ok = (xs \<noteq> []),
     pu_records = map pulled (drop (length xs - min (tl_slot_count depth) max_records) (map latched_as xs)),
     pu_max_seq = (if xs = [] then 0 else wh_sequence_number (fst (latched_as (last xs)))), pu_overlapped = False\<rparr>"
proof -
  have ok: "tl_ok fs1 ring gid (tl_slot_count depth) []" by (rule tl_ring_create_ok[OF assms(1,2)])
  have "tw_durable_segs ring = replicate (tw_slots ring) None"
    using assms(1) by (auto simp: tl_ring_create_def Let_def split: option.splits if_splits prod.splits)
  then have sa: "segs_apart ring" by (auto simp: segs_apart_def)
  have "tl_ok fs2 ring2 gid (tl_slot_count depth) (map latched_as xs)" "tw_shm_name ring2 = tw_shm_name ring"
    using latch_all_ok[OF ok sa assms(3) _ assms(6)] assms(4) by simp_all
  from pull_history[OF this(1) assms(5) _ assms(7)] this(2) assms(4) show ?thesis
    by (simp add: last_map)
qed

lemma replay_example_latches:
  "increasing (map latched_as [(\<lparr>wh_gid = replicate 16 1, wh_sequence_number = 1, wh_source_timestamp = 0, wh_payload_size = 1, wh_msg_type = 0\<rparr>, [7], None),
     (\<lparr>wh_gid = replicate 16 1, wh_sequence_number = 2, wh_source_timestamp = 0, wh_payload_size = 1, wh_msg_type = 0\<rparr>, [8], None)])"
  by (simp add: increasing_def latched_as_def slot_record_def seq_of_def)

theorem latched_replay_exact_witness:
  "\<exists>fs2 name. pu_records (tl_ring_pull reader_up still fs2 name (replicate 16 1) 10) =
     [pulled (\<lparr>wh_gid = replicate 16 1, wh_sequence_number = 2, wh_source_timestamp = 0, wh_payload_size = 1, wh_msg_type = 0\<rparr>, [8])]"
proof -
  let ?h = "\<lambda>k. \<lparr>wh_gid = replicate 16 1, wh_sequence_number = k, wh_source_timestamp = 0, wh_payload_size = 1, wh_msg_type = 0\<rparr>"
  let ?xs = "[(?h 1, [7], None), (?h 2, [8], None)] :: latch_input list"
  have "fst (tl_ring_create env0 0 (replicate 16 1) 1 empty_fs 1 new_tl_writer)"
    by (simp add: tl_ring_create_def Let_def env0_def open_fresh_def shm_open_excl_def empty_fs_def)
  then obtain fs1 ctr' ring where c: "tl_ring_create env0 0 (replicate 16 1) 1 empty_fs 1 new_tl_writer = (True, fs1, ctr', ring)"
    by (metis prod.collapse)
  obtain fs2 ring2 where l: "latch_all fs1 ring ?xs = (fs2, ring2)" by fastforce
  have one: "tl_slot_count (Suc 0) = 1" by (simp add: tl_slot_count_def TL_RING_MAX_BYTES_def tl_slot_stride_eq)
  have io: "\<forall>x\<in>set ?xs. input_ok (tw_shm_name ring) x"
    by (simp add: input_ok_def wf_header_def TL_EMBED_CAP_def)
  have "tl_ring_pull reader_up still fs2 (tw_shm_name ring) (replicate 16 1) 10 =
    \<lparr>pu_ok = (?xs \<noteq> []),
     pu_records = map pulled (drop (length ?xs - min (tl_slot_count 1) 10) (map latched_as ?xs)),
     pu_max_seq = (if ?xs = [] then 0 else wh_sequence_number (fst (latched_as (last ?xs)))), pu_overlapped = False\<rparr>"
    by (rule latched_replay_exact[OF c _ io _ replay_example_latches l]) simp_all
  then have "pu_records (tl_ring_pull reader_up still fs2 (tw_shm_name ring) (replicate 16 1) 10) = [pulled (?h 2, [8])]"
    by (simp add: one latched_as_def slot_record_def)
  then show ?thesis by blast
qed

section \<open>Durable segments\<close>

lemma write_durable_reads:
  "mem_read32 (write_durable area payload m) 0 = SHM_RING_MAGIC"
  "mem_read32 (write_durable area payload m) 4 = SHM_RING_VERSION"
  "mem_read64 (write_durable area payload m) 8 = of_nat area"
  "mem_read32 (write_durable area payload m) 16 = 2"
  "mem_read32 (write_durable area payload m) 20 = of_nat (length payload)"
  "mem_read (write_durable area payload m) 24 (length payload) = payload"
  unfolding write_durable_def write_ring_header_def Let_def sizeof_ShmRingHeader_def sizeof_ShmRecordHeader_def
  by (simp_all add: mem_simps)

lemma durable_staged:
  assumes "shm_stage_durable env d payload fs ctr = (Some (ds, seg), fs1, ctr')" "page_ok env" "0 \<le> se_pid env" "se_pid env < 2 ^ 31"
  shows "\<exists>area m. obj_mem fs1 (ds_base seg) = write_durable area payload m \<and> obj_size fs1 (ds_base seg) = 16 + area \<and>
     8 + length payload \<le> area \<and> area < 2 ^ 41 \<and> length payload \<le> UINT32_MAX \<and>
     fs_names fs1 (ds_shm_name seg) = Some (ds_base seg) \<and> ds_shm_name seg \<noteq> [] \<and>
     ds_shm_name seg = make_segment_name d (sint (d_owner_pid ds)) (d_owner_id ds) (d_segment_id ds) \<and>
     d_offset ds = 0 \<and> d_seq ds = 2 \<and> d_payload_size ds = of_nat (length payload)"
proof -
  let ?n = "length payload"
  let ?area = "align_n (record_bytes ?n) (unat (se_page env))"
  let ?name = "make_segment_name d (se_pid env) (mix_owner_id ctr (se_now_us env)) 1"
  have n: "?n \<le> UINT32_MAX" using assms(1) by (auto simp: shm_stage_durable_def split: if_splits)
  then have n61: "?n \<le> 2 ^ 61" by (simp add: uds_defs)
  have rb: "record_bytes ?n \<le> 2 ^ 40" using record_bytes_le[OF n61] n by (simp add: uds_defs)
  obtain ob fs' where o: "open_fresh env fs ?name = (Some ob, fs')"
    and r: "ds = \<lparr>d_segment_id = 1, d_offset = 0, d_seq = 2, d_payload_size = of_nat ?n,
        d_owner_pid = of_int (se_pid env), d_owner_id = mix_owner_id ctr (se_now_us env)\<rparr>"
      "seg = \<lparr>ds_base = ob, ds_map_size = 16 + ?area, ds_shm_name = ?name\<rparr>"
      "fs1 = obj_map_mem (obj_grow fs' ob (16 + ?area)) ob (write_durable ?area payload)"
    using assms(1) n
    by (auto simp: shm_stage_durable_def Let_def sizeof_ShmRingHeader_def split: if_splits option.splits prod.splits)
  have nm: "?name \<noteq> []" by (simp add: make_segment_name_def snprintf_def)
  show ?thesis
    using open_fresh_Some[OF o] align_n_page[OF assms(2) rb] record_bytes_ge[OF n61] n nm sint_of_pid[OF assms(3,4)]
    by (intro exI[of _ ?area] exI[of _ "obj_mem fs' ob"]) (simp add: r)
qed

lemma read_durable:
  assumes "length payload \<le> UINT32_MAX" "d_offset ds = 0" "d_seq ds = 2" "d_payload_size ds = of_nat (length payload)"
  shows "read_record (write_durable area payload m) (write_durable area payload m) (write_durable area payload m) ds = Some payload"
  using write_durable_reads[of area payload m] unat_of_nat_small32[OF assms(1)]
  by (simp add: read_record_def assms(2-4) sizeof_ShmRingHeader_def sizeof_ShmRecordHeader_def Let_def)

text \<open>
  C31: a durable segment lives exactly as long as its handle. While the name resolves, in any
  later state of the namespace, a reader that never saw it fetches the staged payload;
  destroying the handle makes the descriptor unresolvable for such readers, and a reader
  that fetched once keeps getting the payload from its mapping.
\<close>

theorem durable_segment_lifetime:
  assumes "shm_stage_durable env d payload fs ctr = (Some (ds, seg), fs1, ctr')"
    and "page_ok env" "0 \<le> se_pid env" "se_pid env < 2 ^ 31"
    and "obj_mem fs2 (ds_base seg) = obj_mem fs1 (ds_base seg)" "obj_size fs2 (ds_base seg) = obj_size fs1 (ds_base seg)"
    and "fs_names fs2 (ds_shm_name seg) = Some (ds_base seg)" "map_of cache (desc_key ds) = None"
  shows "\<exists>cache'. shm_fetch_payload reader_up fs2 d cache (desc_bytes ds) = (Some payload, cache') \<and>
    fst (shm_fetch_payload reader_up (durable_close fs2 (Some seg)) d cache (desc_bytes ds)) = None \<and>
    fst (shm_fetch_payload reader_up (durable_close fs2 (Some seg)) d cache' (desc_bytes ds)) = Some payload"
proof -
  obtain area m where st: "obj_mem fs1 (ds_base seg) = write_durable area payload m" "obj_size fs1 (ds_base seg) = 16 + area"
    "8 + length payload \<le> area" "area < 2 ^ 41" "length payload \<le> UINT32_MAX" "ds_shm_name seg \<noteq> []"
    "make_segment_name d (sint (d_owner_pid ds)) (d_owner_id ds) (d_segment_id ds) = ds_shm_name seg"
    "d_offset ds = 0" "d_seq ds = 2" "d_payload_size ds = of_nat (length payload)"
    using durable_staged[OF assms(1-4)] by metis
  let ?ob = "ds_base seg"
  let ?mp = "\<lparr>mp_base = ?ob, mp_size = 16 + area, mp_ring_bytes = area, mp_shm_name = ds_shm_name seg\<rparr>"
  have ua: "unat (of_nat area :: u64) = area" using st(4) by (simp add: unat_of_nat_small)
  have hv: "header_valid (obj_mem fs2 ?ob) (16 + area)"
    using write_durable_reads[of area payload m] ua
    by (simp add: header_valid_def assms(5) st(1) sizeof_ShmRingHeader_def)
  have ms: "\<exists>c. map_segment reader_up fs2 d ds cache = (Some ?mp, (desc_key ds, ?mp) # c)"
    using assms(7,8) hv write_durable_reads(3)[of area payload m] ua
    by (simp add: map_segment_def st(7) assms(5,6) st(1,2) reader_up_def Let_def sizeof_ShmRingHeader_def)
  then obtain c where ms: "map_segment reader_up fs2 d ds cache = (Some ?mp, (desc_key ds, ?mp) # c)" by blast
  have inb: "desc_in_bounds area ds"
    using st(3) by (simp add: desc_in_bounds_def st(8,10) unat_of_nat_small32[OF st(5)] uds_defs)
  have rd: "read_record (obj_mem fs2 ?ob) (obj_mem fs2 ?ob) (obj_mem fs2 ?ob) ds = Some payload"
    unfolding assms(5) st(1) by (rule read_durable[OF st(5,8-10)])
  let ?c' = "(desc_key ds, ?mp) # c"
  let ?gone = "durable_close fs2 (Some seg)"
  have "shm_fetch_payload reader_up fs2 d cache (desc_bytes ds) = (Some payload, ?c')"
    using fetch_of_mapping[OF ms] inb rd by simp
  moreover have "fst (shm_fetch_payload reader_up ?gone d cache (desc_bytes ds)) = None"
    using assms(8) st(6)
    by (simp add: shm_fetch_payload_def sizeof_desc_def map_segment_def st(7) durable_close_def Let_def)
  moreover have "map_segment reader_up ?gone d ds ?c' = (Some ?mp, ?c')"
    by (simp add: map_segment_def)
  then have "fst (shm_fetch_payload reader_up ?gone d ?c' (desc_bytes ds)) = Some payload"
    using fetch_of_mapping[of reader_up ?gone d ds ?c' ?mp ?c'] inb rd st(6) by (simp add: durable_close_def)
  ultimately show ?thesis by blast
qed

theorem durable_segment_lifetime_witness:
  "\<exists>ds seg fs1 ctr'. shm_stage_durable env0 0 [1, 2, 3] empty_fs 1 = (Some (ds, seg), fs1, ctr') \<and>
     fst (shm_fetch_payload reader_up fs1 0 [] (desc_bytes ds)) = Some [1, 2, 3]"
proof -
  have "fst (shm_stage_durable env0 0 [1, 2, 3] empty_fs 1) \<noteq> None"
    by (simp add: shm_stage_durable_def Let_def env0_def open_fresh_def shm_open_excl_def empty_fs_def UINT32_MAX_def)
  then obtain ds seg fs1 ctr' where s: "shm_stage_durable env0 0 [1, 2, 3] empty_fs 1 = (Some (ds, seg), fs1, ctr')"
    by (metis option.exhaust prod.collapse)
  have pid: "0 \<le> se_pid env0" "se_pid env0 < 2 ^ 31" by (simp_all add: env0_def)
  have "fs_names fs1 (ds_shm_name seg) = Some (ds_base seg)" using durable_staged[OF s env0_ok(2) pid] by blast
  then show ?thesis
    using s durable_segment_lifetime[OF s env0_ok(2) pid refl refl, of "[]"] by auto
qed

end
