(* ===== verification/Uds_Serialize.thy ===== *)
theory Uds_Serialize
  imports Uds_Qos
begin

text \<open>
  Serialization (\<^verbatim>\<open>serialization.cpp\<close>, \<^verbatim>\<open>rmw_serialize.cpp\<close>). The generated callbacks and the
  CDR library are not part of the repository: they are the fields of \<open>callbacks\<close>, for a type
  \<open>'m\<close> of messages. What the middleware adds around them (the four bytes of encapsulation in
  the size estimate, buffer sizing, and every exception turned into a failure) is modelled.
\<close>

text \<open>
  \<open>cb_size\<close> is \<open>None\<close> when the size walk throws. \<open>cb_write m capacity\<close> is \<open>Inr\<close> the bytes of the
  encapsulation and the message when they were written, \<open>Inl\<close> the bytes left behind by a
  serializer that returned false or threw (for lack of room, say). \<open>cb_read\<close> is \<open>None\<close> when
  decoding returns false or throws.
\<close>

record 'm callbacks =
  cb_size :: "'m \<Rightarrow> nat option"
  cb_write :: "'m \<Rightarrow> nat \<Rightarrow> bytes + bytes"
  cb_read :: "bytes \<Rightarrow> 'm option"
  cb_namespace :: string
  cb_name :: string

text \<open>A type support resolves to C++ callbacks, C callbacks, or neither.\<close>

record 'm type_support =
  ts_cpp :: "'m callbacks option"
  ts_c :: "'m callbacks option"

definition get_callbacks :: "'m type_support \<Rightarrow> 'm callbacks option" where
  "get_callbacks ts =
     (case ts_cpp ts of
        Some c \<Rightarrow> Some c
      | None \<Rightarrow> (case ts_c ts of Some c \<Rightarrow> Some c | None \<Rightarrow> None))"

record ('q, 'r) service_members =
  sm_request :: "'q callbacks option"
  sm_response :: "'r callbacks option"
  sm_namespace :: string
  sm_name :: string

record ('q, 'r) service_support =
  ss_cpp :: "('q, 'r) service_members option"
  ss_c :: "('q, 'r) service_members option"

record ('q, 'r) service_callbacks =
  sc_request :: "'q callbacks option"
  sc_response :: "'r callbacks option"
  sc_namespace :: string
  sc_name :: string

definition resolved_members :: "('q, 'r) service_members option \<Rightarrow> ('q, 'r) service_callbacks option" where
  "resolved_members ms =
     (case ms of
        None \<Rightarrow> None
      | Some m \<Rightarrow>
          (case (sm_request m, sm_response m) of
             (Some q, Some r) \<Rightarrow> Some \<lparr>sc_request = Some q, sc_response = Some r, sc_namespace = sm_namespace m,
                                      sc_name = sm_name m\<rparr>
           | _ \<Rightarrow> None))"

definition get_service_callbacks :: "('q, 'r) service_support \<Rightarrow> ('q, 'r) service_callbacks" where
  "get_service_callbacks ts =
     (case resolved_members (ss_cpp ts) of
        Some c \<Rightarrow> c
      | None \<Rightarrow>
          (case resolved_members (ss_c ts) of
             Some c \<Rightarrow> c
           | None \<Rightarrow> \<lparr>sc_request = None, sc_response = None, sc_namespace = [], sc_name = []\<rparr>))"

text \<open>\<open>alloc n\<close>: a heap buffer of \<open>n\<close> bytes can be had (otherwise \<^verbatim>\<open>std::bad_alloc\<close>).\<close>

definition serialized_size :: "'m callbacks \<Rightarrow> 'm \<Rightarrow> nat option" where
  "serialized_size cb m = (case cb_size cb m of None \<Rightarrow> None | Some n \<Rightarrow> Some (4 + n))"

definition serialize_into :: "'m callbacks \<Rightarrow> 'm \<Rightarrow> nat \<Rightarrow> bytes + bytes" where
  "serialize_into cb m capacity = cb_write cb m capacity"

definition serialize :: "(nat \<Rightarrow> bool) \<Rightarrow> 'm callbacks \<Rightarrow> 'm \<Rightarrow> bytes option" where
  "serialize alloc cb m =
     (case cb_size cb m of
        None \<Rightarrow> None
      | Some n \<Rightarrow>
          (let data_length = 4 + n in
           if \<not> alloc data_length then None
           else case cb_write cb m data_length of Inl _ \<Rightarrow> None | Inr bs \<Rightarrow> Some bs))"

definition deserialize :: "'m callbacks \<Rightarrow> bytes \<Rightarrow> 'm option" where
  "deserialize cb data = cb_read cb data"

text \<open>
  \<open>rmw_serialize\<close> and \<open>rmw_deserialize\<close>: \<open>None\<close> stands for a null pointer; \<open>resize\<close> is the return
  code of growing the caller's buffer. The second component is the output, if written.
\<close>

definition rmw_serialize ::
    "(nat \<Rightarrow> bool) \<Rightarrow> (nat \<Rightarrow> rmw_ret) \<Rightarrow> 'm option \<Rightarrow> 'm type_support option \<Rightarrow> bool \<Rightarrow> rmw_ret \<times> bytes option" where
  "rmw_serialize alloc resize msg ts out_null =
     (case (msg, ts) of
        (Some m, Some t) \<Rightarrow>
          if out_null then (RMW_RET_INVALID_ARGUMENT, None)
          else (case get_callbacks t of
                  None \<Rightarrow> (RMW_RET_ERROR, None)
                | Some cb \<Rightarrow>
                    (case serialize alloc cb m of
                       None \<Rightarrow> (RMW_RET_ERROR, None)
                     | Some bs \<Rightarrow>
                         if resize (length bs) \<noteq> RMW_RET_OK then (resize (length bs), None)
                         else (RMW_RET_OK, Some bs)))
      | _ \<Rightarrow> (RMW_RET_INVALID_ARGUMENT, None))"

definition rmw_deserialize ::
    "bytes option \<Rightarrow> 'm type_support option \<Rightarrow> bool \<Rightarrow> rmw_ret \<times> 'm option" where
  "rmw_deserialize data ts out_null =
     (case (data, ts) of
        (Some bs, Some t) \<Rightarrow>
          if out_null then (RMW_RET_INVALID_ARGUMENT, None)
          else (case get_callbacks t of
                  None \<Rightarrow> (RMW_RET_ERROR, None)
                | Some cb \<Rightarrow> (case deserialize cb bs of None \<Rightarrow> (RMW_RET_ERROR, None) | Some m \<Rightarrow> (RMW_RET_OK, Some m)))
      | _ \<Rightarrow> (RMW_RET_INVALID_ARGUMENT, None))"

section \<open>The serializer as an interface\<close>

text \<open>
  What the transport relies on: the estimate is an upper bound and is enough room, the bytes
  do not depend on how much room there is beyond it, they decode to the message, and nothing
  is written past the room given.
\<close>

definition callbacks_ok :: "'m callbacks \<Rightarrow> bool" where
  "callbacks_ok cb \<longleftrightarrow>
     (\<forall>m n capacity. cb_size cb m = Some n \<longrightarrow> 4 + n \<le> capacity \<longrightarrow>
        (\<exists>bs. cb_write cb m capacity = Inr bs \<and> cb_write cb m (4 + n) = Inr bs \<and> length bs \<le> 4 + n \<and> cb_read cb bs = Some m)) \<and>
     (\<forall>m capacity bs. cb_write cb m capacity = Inr bs \<or> cb_write cb m capacity = Inl bs \<longrightarrow> length bs \<le> capacity)"

lemma callbacks_okD:
  assumes "callbacks_ok cb" "cb_size cb m = Some n"
  obtains bs where "cb_write cb m (4 + n) = Inr bs" "length bs \<le> 4 + n" "cb_read cb bs = Some m"
  using assms unfolding callbacks_ok_def by (metis order_refl)

lemma callbacks_ok_length:
  "callbacks_ok cb \<Longrightarrow> cb_write cb m capacity = Inr bs \<Longrightarrow> length bs \<le> capacity"
  by (simp add: callbacks_ok_def)

end
