(* ===== verification/Uds_Transport.thy ===== *)
theory Uds_Transport
  imports Uds_Serialize Uds_Ring_Props
begin

text \<open>
  Datagram sockets and the choice between inline and shared-memory payloads
  (\<^verbatim>\<open>transport.cpp\<close>). The kernel's part is a map from bound paths to sockets and a queue of
  datagrams per socket; failing calls take their outcome from \<open>net_env\<close>.
\<close>

section \<open>Sockets\<close>

record net =
  nt_bound :: "string \<rightharpoonup> nat"
  nt_queue :: "nat \<Rightarrow> bytes list"
  nt_next :: nat

datatype errno = EMSGSIZE | EAGAIN | EWOULDBLOCK | ENOBUFS | ENOENT | ECONNREFUSED | Other_errno nat

record net_env =
  ne_socket_ok :: bool                               \<comment> \<open>\<^verbatim>\<open>socket()\<close> succeeds\<close>
  ne_bind_ok :: bool
  ne_send_error :: "string \<Rightarrow> nat \<Rightarrow> errno option"   \<comment> \<open>what \<^verbatim>\<open>sendmsg\<close> of so many bytes to a bound path answers\<close>

definition sun_path :: "string \<Rightarrow> string" where
  "sun_path path = take 107 path"

definition net_unlink :: "net \<Rightarrow> string \<Rightarrow> net" where
  "net_unlink net path = net\<lparr>nt_bound := (nt_bound net)(path := None)\<rparr>"

text \<open>\<open>create_bound_socket\<close>: unlink a stale file, bind a fresh socket. \<open>None\<close> is \<open>-1\<close>.\<close>

definition create_bound_socket :: "net_env \<Rightarrow> net \<Rightarrow> string \<Rightarrow> nat option \<times> net" where
  "create_bound_socket env net path =
     (if \<not> ne_socket_ok env then (None, net)
      else (let net1 = net_unlink net path in
            if \<not> ne_bind_ok env \<or> nt_bound net1 (sun_path path) \<noteq> None then (None, net1)
            else (Some (nt_next net),
                  net1\<lparr>nt_bound := (nt_bound net1)(sun_path path \<mapsto> nt_next net),
                       nt_queue := (nt_queue net1)(nt_next net := []), nt_next := Suc (nt_next net)\<rparr>)))"

definition create_send_socket :: "net_env \<Rightarrow> bool" where
  "create_send_socket env = ne_socket_ok env"

definition close_socket :: "net \<Rightarrow> string \<Rightarrow> net" where
  "close_socket net path = (if path \<noteq> [] then net_unlink net path else net)"

definition ensure_socket_dir :: "u64 \<Rightarrow> string" where
  "ensure_socket_dir domain_id = snprintf 128 (''/tmp/ros2_uds/'' @ show_nat (unat domain_id))"

datatype send_result = Send_Ok | SoftDrop | ConfigError

definition classify_errno :: "errno \<Rightarrow> send_result" where
  "classify_errno e =
     (case e of
        EMSGSIZE \<Rightarrow> ConfigError
      | EAGAIN \<Rightarrow> SoftDrop | EWOULDBLOCK \<Rightarrow> SoftDrop | ENOBUFS \<Rightarrow> SoftDrop
      | ENOENT \<Rightarrow> SoftDrop | ECONNREFUSED \<Rightarrow> SoftDrop
      | Other_errno _ \<Rightarrow> SoftDrop)"

definition send_to :: "net_env \<Rightarrow> net \<Rightarrow> string \<Rightarrow> wire_header \<Rightarrow> bytes \<Rightarrow> send_result \<times> net" where
  "send_to env net dest_path header payload =
     (let addr = sun_path dest_path;
          datagram = header_bytes header @ payload
      in case nt_bound net addr of
           None \<Rightarrow> (classify_errno ENOENT, net)
         | Some sock \<Rightarrow>
             (case ne_send_error env addr (length datagram) of
                Some e \<Rightarrow> (classify_errno e, net)
              | None \<Rightarrow> (Send_Ok, net\<lparr>nt_queue := (nt_queue net)(sock := nt_queue net sock @ [datagram])\<rparr>)))"

text \<open>
  \<open>recv_from\<close>: one round peeks the head of the queue for its size, grows the buffer, and
  receives. Other threads draining the same descriptor, and new arrivals, act between the
  peek and the receive: each entry of \<open>rounds\<close> says what happens in one round; with no
  entries left the queue is quiet. Result: header and payload if any, queue, buffer size.
\<close>

datatype round = Peek_fails | Recv_fails | Interferes "bytes list \<Rightarrow> bytes list"

definition next_round :: "round list \<Rightarrow> round \<times> round list" where
  "next_round rs = (case rs of [] \<Rightarrow> (Interferes id, []) | r # rest \<Rightarrow> (r, rest))"

definition take_payload :: "bytes \<Rightarrow> wire_header \<times> bytes" where
  "take_payload d =
     (let h = parse_header (take sizeof_WireHeader d);
          payload_len = length d - sizeof_WireHeader;
          len = (if payload_len \<noteq> unat (wh_payload_size h) then min payload_len (unat (wh_payload_size h)) else payload_len)
      in (h, take len (drop sizeof_WireHeader d)))"

function (sequential) recv_loop ::
    "round list \<Rightarrow> nat \<Rightarrow> bytes list \<Rightarrow> (wire_header \<times> bytes) option \<times> bytes list \<times> nat" where
  "recv_loop (Peek_fails # rs) buf q = (None, q, buf)"
| "recv_loop rs buf [] = (None, [], buf)"
| "recv_loop (Recv_fails # rs) buf (d # q) = (None, d # q, max buf (length d))"
| "recv_loop (Interferes f # rs) buf (d # q) =
     (let buf1 = max buf (length d) in
      case f (d # q) of
        [] \<Rightarrow> (None, [], buf1)
      | d' # q' \<Rightarrow>
          if length d' > buf1 then recv_loop rs buf1 q'
          else if length d' = 0 then recv_loop rs buf1 q'
          else if length d' < sizeof_WireHeader then recv_loop rs buf1 q'
          else (Some (take_payload d'), q', buf1))"
| "recv_loop [] buf (d # q) =
     (let buf1 = max buf (length d) in
      if length d = 0 then recv_loop [] buf1 q
      else if length d < sizeof_WireHeader then recv_loop [] buf1 q
      else (Some (take_payload d), q, buf1))"
  by pat_completeness auto
termination
  by (relation "inv_image (less_than <*lex*> less_than) (\<lambda>(rs, buf, q). (length rs, length q))") auto

definition recv_from :: "round list \<Rightarrow> net \<Rightarrow> nat \<Rightarrow> nat \<Rightarrow> (wire_header \<times> bytes) option \<times> net \<times> nat" where
  "recv_from rs net sock buf =
     (case recv_loop rs buf (nt_queue net sock) of
        (r, q, buf') \<Rightarrow> (r, net\<lparr>nt_queue := (nt_queue net)(sock := q)\<rparr>, buf'))"

section \<open>Payload by descriptor or inline\<close>

text \<open>The process-local shared-memory side: namespace, owner counter, the entity's ring.\<close>

record shm_side =
  ss_fs :: shm_fs
  ss_ctr :: u32
  ss_ring :: ring_writer

definition flag_header :: "wire_header \<Rightarrow> wire_header" where
  "flag_header h = h\<lparr>wh_msg_type := wh_msg_type h OR SHM_PAYLOAD_FLAG, wh_payload_size := of_nat sizeof_desc\<rparr>"

definition shm_prepare_send ::
    "shm_env \<Rightarrow> u64 \<Rightarrow> bytes \<Rightarrow> wire_header \<Rightarrow> shm_side \<Rightarrow> bytes \<times> wire_header \<times> shm_side" where
  "shm_prepare_send env domain_id payload hdr s =
     (if length payload < SHM_PAYLOAD_THRESHOLD then (payload, hdr, s)
      else (case shm_stage_payload env domain_id payload (ss_fs s) (ss_ctr s) (ss_ring s) of
              (Some d, fs, ctr, ring) \<Rightarrow> (desc_bytes d, flag_header hdr, \<lparr>ss_fs = fs, ss_ctr = ctr, ss_ring = ring\<rparr>)
            | (None, fs, ctr, ring) \<Rightarrow> (payload, hdr, \<lparr>ss_fs = fs, ss_ctr = ctr, ss_ring = ring\<rparr>)))"

text \<open>Serializing straight into the reserved record: what the serializer leaves there, and the commit.\<close>

definition serialize_reserved ::
    "'m callbacks \<Rightarrow> 'm \<Rightarrow> nat \<Rightarrow> nat \<Rightarrow> shm_side \<Rightarrow> shm_desc option \<times> shm_side" where
  "serialize_reserved cb msg est dst s =
     (let put = (\<lambda>bs. case rw_base (ss_ring s) of None \<Rightarrow> ss_fs s
                      | Some ob \<Rightarrow> obj_map_mem (ss_fs s) ob (\<lambda>m. mem_write m dst bs))
      in case serialize_into cb msg est of
           Inl bs \<Rightarrow> (None, s\<lparr>ss_fs := put bs, ss_ring := shm_stage_abort (ss_ring s)\<rparr>)
         | Inr bs \<Rightarrow>
             (case shm_stage_commit (length bs) (put bs) (ss_ring s) of
                (None, fs, ring) \<Rightarrow> (None, s\<lparr>ss_fs := fs, ss_ring := shm_stage_abort ring\<rparr>)
              | (Some d, fs, ring) \<Rightarrow> (Some d, s\<lparr>ss_fs := fs, ss_ring := ring\<rparr>)))"

definition inline_payload ::
    "(nat \<Rightarrow> bool) \<Rightarrow> 'm callbacks \<Rightarrow> 'm \<Rightarrow> nat \<Rightarrow> wire_header \<Rightarrow> (bytes \<times> wire_header) option" where
  "inline_payload alloc cb msg est hdr =
     (if \<not> alloc est then None
      else case serialize_into cb msg est of
             Inl _ \<Rightarrow> None
           | Inr bs \<Rightarrow> Some (bs, hdr\<lparr>wh_payload_size := of_nat (length bs)\<rparr>))"

definition shm_serialize_prepare_send ::
    "shm_env \<Rightarrow> (nat \<Rightarrow> bool) \<Rightarrow> u64 \<Rightarrow> 'm callbacks \<Rightarrow> 'm \<Rightarrow> wire_header \<Rightarrow> shm_side \<Rightarrow>
       (bytes \<times> wire_header) option \<times> shm_side" where
  "shm_serialize_prepare_send env alloc domain_id cb msg hdr s =
     (case serialized_size cb msg of
        None \<Rightarrow> (None, s)
      | Some est \<Rightarrow>
          if est \<ge> SHM_PAYLOAD_THRESHOLD
          then (case shm_stage_reserve env domain_id est (ss_fs s) (ss_ctr s) (ss_ring s) of
                  (None, fs, ctr, ring) \<Rightarrow>
                    (inline_payload alloc cb msg est hdr, \<lparr>ss_fs = fs, ss_ctr = ctr, ss_ring = ring\<rparr>)
                | (Some dst, fs, ctr, ring) \<Rightarrow>
                    (case serialize_reserved cb msg est dst \<lparr>ss_fs = fs, ss_ctr = ctr, ss_ring = ring\<rparr> of
                       (Some d, s') \<Rightarrow> (Some (desc_bytes d, flag_header hdr), s')
                     | (None, s') \<Rightarrow> (inline_payload alloc cb msg est hdr, s')))
          else (inline_payload alloc cb msg est hdr, s))"

definition shm_resolve_incoming ::
    "reader_env \<Rightarrow> shm_fs \<Rightarrow> u64 \<Rightarrow> reader_cache \<Rightarrow> wire_header \<Rightarrow> bytes \<Rightarrow>
       (wire_header \<times> bytes) option \<times> reader_cache" where
  "shm_resolve_incoming env fs domain_id cache hdr payload =
     (if wh_msg_type hdr AND SHM_PAYLOAD_FLAG = 0 then (Some (hdr, payload), cache)
      else case shm_fetch_payload env fs domain_id cache payload of
             (None, cache') \<Rightarrow> (None, cache')
           | (Some p, cache') \<Rightarrow>
               (Some (hdr\<lparr>wh_msg_type := wh_msg_type hdr AND NOT SHM_PAYLOAD_FLAG, wh_payload_size := of_nat (length p)\<rparr>, p),
                cache'))"

end
