(* ===== verification/Uds_World.thy ===== *)
theory Uds_World
  imports Uds_Transport Uds_Latched Uds_Registry
begin

text \<open>
  What the entities of one process share, and what they share with other processes: the
  registry in its mapped file, the shared-memory namespace, the sockets, and the process's
  atomic counters. \<open>sys\<close> collects the answers of the system and of the allocator, so that
  every failure branch of the entry points is a branch of the model. The checks every entry
  point starts with are modelled once, as \<open>guard_entry\<close>.
\<close>

record world =
  wo_reg :: registry
  wo_fs :: shm_fs
  wo_net :: net
  wo_owner_ctr :: u32    \<comment> \<open>\<^verbatim>\<open>g_owner_counter\<close> of \<^verbatim>\<open>shm_transport.cpp\<close>\<close>
  wo_gid_ctr :: u32      \<comment> \<open>the counter in \<^verbatim>\<open>UdsGid::generate\<close>\<close>
  wo_path_ctr :: u32     \<comment> \<open>the counter in \<^verbatim>\<open>make_socket_path\<close>\<close>
  wo_uid_ctr :: u64      \<comment> \<open>the counter in \<^verbatim>\<open>next_entity_uid\<close>\<close>
  wo_recv_buf :: nat     \<comment> \<open>size of the thread's receive buffer\<close>

record sys =
  sy_shm :: shm_env
  sy_reader :: reader_env
  sy_net :: net_env
  sy_ring :: ring_env
  sy_proc :: "int \<Rightarrow> proc_stat"
  sy_alloc :: "nat \<Rightarrow> bool"            \<comment> \<open>a heap buffer of that size can be had\<close>
  sy_new_ok :: bool                     \<comment> \<open>\<^verbatim>\<open>new (std::nothrow)\<close> of the entity's data\<close>
  sy_handle_ok :: bool                  \<comment> \<open>the \<^verbatim>\<open>rmw_*_allocate\<close> of the handle\<close>
  sy_latch_ok :: bool                   \<comment> \<open>\<^verbatim>\<open>posix_fallocate\<close> of a latched slot\<close>
  sy_now_ns :: u64                      \<comment> \<open>system clock\<close>
  sy_look :: "mem \<Rightarrow> tl_view"            \<comment> \<open>how latched memory appears to a scan\<close>
  sy_rounds :: "round list list"        \<comment> \<open>interference at each receive of a drain\<close>

abbreviation sy_pid :: "sys \<Rightarrow> int" where "sy_pid sy \<equiv> se_pid (sy_shm sy)"

section \<open>Contexts, nodes and handles\<close>

record uds_context =
  cx_domain_id :: u64
  cx_context_id :: u64

record uds_node =
  nd_name :: string
  nd_ns :: string
  nd_context :: uds_context
  nd_graph_guard_condition :: "nat option"   \<comment> \<open>pointer to a guard condition\<close>
  nd_registry_index :: int

record 'd handle =
  hn_identifier :: string
  hn_data :: 'd

definition uds_identifier :: string where "uds_identifier = ''rmw_unix_socket_cpp''"

text \<open>
  The checks at the top of an entry point: the handle and the other pointers are not null
  (\<open>None\<close> and \<open>False\<close> stand for null), then the handle's implementation identifier.
\<close>

definition guard_entry :: "'d handle option \<Rightarrow> bool \<Rightarrow> rmw_ret + 'd" where
  "guard_entry h others =
     (case h of
        None \<Rightarrow> Inl RMW_RET_INVALID_ARGUMENT
      | Some x \<Rightarrow>
          if \<not> others then Inl RMW_RET_INVALID_ARGUMENT
          else if hn_identifier x \<noteq> uds_identifier then Inl RMW_RET_INCORRECT_RMW_IMPLEMENTATION
          else Inr (hn_data x))"

text \<open>Run a body on the entity's data; \<open>fail\<close> is what the entry point outputs when a check fails.\<close>

definition with_entity ::
    "'d handle option \<Rightarrow> bool \<Rightarrow> (rmw_ret \<Rightarrow> 'o) \<Rightarrow> ('d \<Rightarrow> 'o \<times> 'd \<times> world) \<Rightarrow> world \<Rightarrow> 'o \<times> 'd handle option \<times> world" where
  "with_entity h others fail body w =
     (case guard_entry h others of
        Inl r \<Rightarrow> (fail r, h, w)
      | Inr d \<Rightarrow>
          (case body d of (out, d', w') \<Rightarrow> (out, Some \<lparr>hn_identifier = uds_identifier, hn_data = d'\<rparr>, w')))"

lemma guard_entry_simps [simp]:
  "guard_entry None others = Inl RMW_RET_INVALID_ARGUMENT"
  "guard_entry (Some \<lparr>hn_identifier = uds_identifier, hn_data = d\<rparr>) True = Inr d"
  by (simp_all add: guard_entry_def)

section \<open>Shared memory in the world\<close>

text \<open>The part of the world a payload is staged in, for an entity with its own ring, and back.\<close>

definition side_of :: "ring_writer \<Rightarrow> world \<Rightarrow> shm_side" where
  "side_of ring w = \<lparr>ss_fs = wo_fs w, ss_ctr = wo_owner_ctr w, ss_ring = ring\<rparr>"

definition set_side :: "shm_side \<Rightarrow> world \<Rightarrow> world" where
  "set_side s w = w\<lparr>wo_fs := ss_fs s, wo_owner_ctr := ss_ctr s\<rparr>"

definition close_entity_socket :: "string \<Rightarrow> world \<Rightarrow> world" where
  "close_entity_socket path w = w\<lparr>wo_net := close_socket (wo_net w) path\<rparr>"

section \<open>Registry operations in the world\<close>

definition apply_unlink :: "unlink_effect \<Rightarrow> world \<Rightarrow> world" where
  "apply_unlink e w =
     (case e of
        Unlink_shm name \<Rightarrow> w\<lparr>wo_fs := shm_unlink (wo_fs w) name\<rparr>
      | Unlink_file path \<Rightarrow> w\<lparr>wo_net := net_unlink (wo_net w) path\<rparr>)"

definition add_entry :: "sys \<Rightarrow> reg_entry \<Rightarrow> world \<Rightarrow> int \<times> world" where
  "add_entry sy e w =
     (case registry_add (sy_ring sy) (sy_proc sy) (wo_reg w) e of
        (k, r, effs, _) \<Rightarrow> (k, fold apply_unlink effs (w\<lparr>wo_reg := r\<rparr>)))"

definition remove_entry :: "sys \<Rightarrow> int \<Rightarrow> world \<Rightarrow> world" where
  "remove_entry sy index w =
     (case registry_remove (sy_ring sy) (wo_reg w) index of
        (r, effs, _) \<Rightarrow> fold apply_unlink effs (w\<lparr>wo_reg := r\<rparr>))"

definition sweep_entries :: "sys \<Rightarrow> world \<Rightarrow> world" where
  "sweep_entries sy w =
     (case registry_cleanup_stale (sy_ring sy) (sy_proc sy) (wo_reg w) of
        (r, effs, _) \<Rightarrow> fold apply_unlink effs (w\<lparr>wo_reg := r\<rparr>))"

lemma wo_reg_apply_unlinks [simp]: "wo_reg (fold apply_unlink effs w) = wo_reg w"
  by (induction effs arbitrary: w) (simp_all add: apply_unlink_def split: unlink_effect.splits)

text \<open>
  The entry of an entity: the fields every creation fills in, cut to the sizes of the slot's
  arrays.
\<close>

definition entity_entry ::
    "sys \<Rightarrow> entry_type \<Rightarrow> uds_node \<Rightarrow> gid \<Rightarrow> string \<Rightarrow> string \<Rightarrow> string \<Rightarrow> qos_profile \<Rightarrow> reg_entry" where
  "entity_entry sy ty node gid topic_name type_name path qos =
     \<lparr>en_type = ty,
      en_payload = \<lparr>pl_pid = sy_pid sy, pl_gid = gid, pl_node_name = fit 256 (nd_name node),
        pl_node_namespace = fit 256 (nd_ns node), pl_topic_name = fit 256 topic_name,
        pl_type_name = fit 256 type_name, pl_socket_path = fit 108 path,
        pl_qos_reliability = ucast (q_reliability qos), pl_qos_durability = ucast (q_durability qos),
        pl_qos_history = ucast (q_history qos), pl_qos_depth = ucast (q_depth qos)\<rparr>\<rparr>"

end
