(* ===== verification/Uds_Publisher.thy ===== *)
theory Uds_Publisher
  imports Uds_World Uds_Graph_View
begin

text \<open>
  Publishers (\<^verbatim>\<open>rmw_publisher.cpp\<close>): creation with the latched cache strictly before the
  registration, destruction in the opposite order, the subscriber list memoized by the
  registry's generation, and the two publishing paths.
\<close>

record 'm publisher =
  pb_gid :: gid
  pb_topic_name :: string
  pb_type_name :: string
  pb_qos :: qos_profile
  pb_callbacks :: "'m callbacks"
  pb_sequence_number :: u64
  pb_registry_index :: int
  pb_context :: uds_context
  pb_cached_generation :: u64
  pb_cached_subscriber_paths :: "string list option"   \<comment> \<open>\<open>None\<close>: the null pointer before the first refresh\<close>
  pb_tl_ring :: tl_writer
  pb_shm_ring :: ring_writer

section \<open>Creation and destruction\<close>

definition new_publisher :: "uds_context \<Rightarrow> gid \<Rightarrow> string \<Rightarrow> 'm callbacks \<Rightarrow> qos_profile \<Rightarrow> 'm publisher" where
  "new_publisher ctx gid topic_name cb qos =
     \<lparr>pb_gid = gid, pb_topic_name = topic_name, pb_type_name = make_ros_type_name (cb_namespace cb) (cb_name cb),
      pb_qos = resolve_qos qos, pb_callbacks = cb, pb_sequence_number = 1, pb_registry_index = -1, pb_context = ctx,
      pb_cached_generation = 0, pb_cached_subscriber_paths = None, pb_tl_ring = new_tl_writer,
      pb_shm_ring = new_ring_writer\<rparr>"

text \<open>\<open>with_latch\<close>: the cache of a TRANSIENT_LOCAL publisher; a failure leaves it latch-less.\<close>

definition with_latch :: "sys \<Rightarrow> 'm publisher \<Rightarrow> world \<Rightarrow> 'm publisher \<times> world" where
  "with_latch sy pub w =
     (if q_durability (pb_qos pub) = DURABILITY_TRANSIENT_LOCAL
      then (case tl_ring_create (sy_shm sy) (cx_domain_id (pb_context pub)) (pb_gid pub) (unat (q_depth (pb_qos pub)))
                   (wo_fs w) (wo_owner_ctr w) (pb_tl_ring pub) of
              (_, fs, ctr, ring) \<Rightarrow> (pub\<lparr>pb_tl_ring := ring\<rparr>, w\<lparr>wo_fs := fs, wo_owner_ctr := ctr\<rparr>))
      else (pub, w))"

definition drop_latch :: "'m publisher \<Rightarrow> world \<Rightarrow> world" where
  "drop_latch pub w = w\<lparr>wo_fs := fst (tl_ring_close (wo_fs w) (pb_tl_ring pub))\<rparr>"

definition create_publisher ::
    "sys \<Rightarrow> uds_node \<Rightarrow> 'm type_support \<Rightarrow> string \<Rightarrow> qos_profile \<Rightarrow> world \<Rightarrow> 'm publisher option \<times> world" where
  "create_publisher sy node ts topic_name qos w0 =
     (case get_callbacks ts of
        None \<Rightarrow> (None, w0)
      | Some cb \<Rightarrow>
          if \<not> sy_new_ok sy then (None, w0)
          else (let ctx = nd_context node;
                    (gid, ctr) = gid_generate (of_int (sy_pid sy)) (cx_context_id ctx) (wo_gid_ctr w0);
                    (pub, w1) = with_latch sy (new_publisher ctx gid topic_name cb qos) (w0\<lparr>wo_gid_ctr := ctr\<rparr>);
                    e = entity_entry sy ENTRY_PUBLISHER node gid topic_name (pb_type_name pub)
                          (tw_shm_name (pb_tl_ring pub)) (pb_qos pub);
                    (index, w2) = add_entry sy e w1
                in if index < 0 then (None, drop_latch pub w2)
                   else if \<not> sy_handle_ok sy then (None, drop_latch pub (remove_entry sy index w2))
                   else (Some (pub\<lparr>pb_registry_index := index\<rparr>), w2)))"

text \<open>\<open>rmw_create_publisher\<close>: the pointer checks, then the creation. \<open>None\<close> is the null handle.\<close>

definition rmw_create_publisher ::
    "sys \<Rightarrow> uds_node handle option \<Rightarrow> 'm type_support option \<Rightarrow> string option \<Rightarrow> qos_profile option \<Rightarrow> world \<Rightarrow>
       'm publisher handle option \<times> world" where
  "rmw_create_publisher sy node ts topic_name qos w =
     (case (guard_entry node (ts \<noteq> None \<and> topic_name \<noteq> None \<and> qos \<noteq> None), ts, topic_name, qos) of
        (Inr n, Some t, Some nm, Some q) \<Rightarrow>
          (case create_publisher sy n t nm q w of
             (p, w') \<Rightarrow> (map_option (\<lambda>d. \<lparr>hn_identifier = uds_identifier, hn_data = d\<rparr>) p, w'))
      | _ \<Rightarrow> (None, w))"

definition destroy_publisher :: "sys \<Rightarrow> 'm publisher \<Rightarrow> world \<Rightarrow> world" where
  "destroy_publisher sy pub w =
     (let w1 = (if pb_registry_index pub \<ge> 0 then remove_entry sy (pb_registry_index pub) w else w);
          w2 = drop_latch pub w1
      in w2\<lparr>wo_fs := fst (shm_writer_close (wo_fs w2) (pb_shm_ring pub))\<rparr>)"

definition rmw_destroy_publisher ::
    "sys \<Rightarrow> uds_node handle option \<Rightarrow> 'm publisher handle option \<Rightarrow> world \<Rightarrow> rmw_ret \<times> world" where
  "rmw_destroy_publisher sy node h w =
     (case guard_entry h (node \<noteq> None) of
        Inl r \<Rightarrow> (r, w)
      | Inr pub \<Rightarrow> (RMW_RET_OK, destroy_publisher sy pub w))"

section \<open>The memoized subscriber list\<close>

definition subscriber_paths :: "query_result list \<Rightarrow> string list" where
  "subscriber_paths subs = filter (\<lambda>p. p \<noteq> []) (map qr_socket_path subs)"

definition refresh_sub_paths :: "registry \<Rightarrow> u64 \<Rightarrow> 'm publisher \<Rightarrow> string list option \<times> 'm publisher" where
  "refresh_sub_paths reg current_gen pub =
     (case memo_refresh current_gen
             (Some (subscriber_paths (registry_query reg ENTRY_SUBSCRIPTION (Some (pb_topic_name pub)) None None)))
             (pb_cached_generation pub, pb_cached_subscriber_paths pub) of
        (g, paths) \<Rightarrow> (paths, pub\<lparr>pb_cached_generation := g, pb_cached_subscriber_paths := paths\<rparr>))"

section \<open>Fan-out\<close>

text \<open>The loop over the paths: was any failure a configuration error, and the sockets after it.\<close>

fun fan_out :: "net_env \<Rightarrow> wire_header \<Rightarrow> bytes \<Rightarrow> string list \<Rightarrow> net \<Rightarrow> bool \<times> net" where
  "fan_out env hdr payload [] net = (False, net)"
| "fan_out env hdr payload (path # paths) net =
     (case send_to env net path hdr payload of
        (r, net1) \<Rightarrow> (case fan_out env hdr payload paths net1 of
                        (err, net2) \<Rightarrow> (r = ConfigError \<or> err, net2)))"

definition send_all :: "sys \<Rightarrow> wire_header \<Rightarrow> bytes \<Rightarrow> string list option \<Rightarrow> world \<Rightarrow> rmw_ret \<times> world" where
  "send_all sy hdr payload sub_paths w =
     (case fan_out (sy_net sy) hdr payload (case sub_paths of None \<Rightarrow> [] | Some ps \<Rightarrow> ps) (wo_net w) of
        (config_error, net) \<Rightarrow> (if config_error then RMW_RET_ERROR else RMW_RET_OK, w\<lparr>wo_net := net\<rparr>))"

text \<open>The header \<open>rmw_publish\<close> fills in before it chooses a path.\<close>

definition topic_header :: "sys \<Rightarrow> 'm publisher \<Rightarrow> wire_header" where
  "topic_header sy pub = \<lparr>wh_gid = pb_gid pub, wh_sequence_number = 0, wh_source_timestamp = sy_now_ns sy,
     wh_payload_size = 0, wh_msg_type = MSG_TOPIC\<rparr>"

definition refresh_in :: "'m publisher \<Rightarrow> world \<Rightarrow> string list option \<times> 'm publisher" where
  "refresh_in pub w =
     (let current_gen = registry_generation (wo_reg w) in refresh_sub_paths (wo_reg w) current_gen pub)"

section \<open>The latched path\<close>

text \<open>
  \<open>transient_local_publish\<close> in its steps: stage an over-cap payload; under the lock assign
  the sequence number and latch; load the generation afresh and refresh; fan out; and after
  the lock destroy the evicted slot's segment. The steps are separate definitions because
  other processes act between them.
\<close>

definition tl_stage :: "sys \<Rightarrow> 'm publisher \<Rightarrow> bytes \<Rightarrow> world \<Rightarrow> (shm_desc \<times> durable_segment) option \<times> world" where
  "tl_stage sy pub payload w =
     (if length payload > TL_EMBED_CAP
      then (case shm_stage_durable (sy_shm sy) (cx_domain_id (pb_context pub)) payload (wo_fs w) (wo_owner_ctr w) of
              (stg, fs, ctr) \<Rightarrow> (stg, w\<lparr>wo_fs := fs, wo_owner_ctr := ctr\<rparr>))
      else (None, w))"

record latch_out =
  lo_latched :: bool
  lo_header :: wire_header
  lo_evicted :: "durable_segment option"

definition tl_latch ::
    "sys \<Rightarrow> 'm publisher \<Rightarrow> wire_header \<Rightarrow> bytes \<Rightarrow> (shm_desc \<times> durable_segment) option \<Rightarrow> world \<Rightarrow>
       latch_out \<times> 'm publisher \<times> world" where
  "tl_latch sy pub hdr payload stg w =
     (let hdr1 = hdr\<lparr>wh_sequence_number := pb_sequence_number pub\<rparr>;
          pub1 = pub\<lparr>pb_sequence_number := pb_sequence_number pub + 1\<rparr>
      in case tl_ring_latch (sy_latch_ok sy) (wo_fs w) (pb_tl_ring pub1) hdr1 payload
                (map_option fst stg) (map_option snd stg) of
           (latched, evicted, fs, ring) \<Rightarrow>
             (\<lparr>lo_latched = latched, lo_header = hdr1, lo_evicted = evicted\<rparr>,
              pub1\<lparr>pb_tl_ring := ring\<rparr>, w\<lparr>wo_fs := fs\<rparr>))"

definition tl_wire :: "latch_out \<Rightarrow> bytes \<Rightarrow> (shm_desc \<times> durable_segment) option \<Rightarrow> wire_header \<times> bytes" where
  "tl_wire lo payload stg =
     (case stg of
        Some (d, _) \<Rightarrow>
          if lo_latched lo \<and> length payload \<ge> SHM_PAYLOAD_THRESHOLD
          then (flag_header (lo_header lo), desc_bytes d) else (lo_header lo, payload)
      | None \<Rightarrow> (lo_header lo, payload))"

definition transient_local_publish ::
    "sys \<Rightarrow> 'm publisher \<Rightarrow> wire_header \<Rightarrow> bytes \<Rightarrow> world \<Rightarrow> rmw_ret \<times> 'm publisher \<times> world" where
  "transient_local_publish sy pub hdr payload w =
     (let (stg, w1) = tl_stage sy pub payload w;
          (lo, pub1, w2) = tl_latch sy pub hdr payload stg w1;
          (sub_paths, pub2) = refresh_in pub1 w2;
          (wire_hdr, wire) = tl_wire lo payload stg;
          (ret, w3) = send_all sy wire_hdr wire sub_paths w2
      in (ret, pub2, w3\<lparr>wo_fs := durable_close (wo_fs w3) (lo_evicted lo)\<rparr>))"

section \<open>Publishing\<close>

definition publish_side :: "'m publisher \<Rightarrow> world \<Rightarrow> shm_side" where
  "publish_side pub w = \<lparr>ss_fs = wo_fs w, ss_ctr = wo_owner_ctr w, ss_ring = pb_shm_ring pub\<rparr>"

definition publish :: "sys \<Rightarrow> 'm publisher \<Rightarrow> 'm \<Rightarrow> world \<Rightarrow> rmw_ret \<times> 'm publisher \<times> world" where
  "publish sy pub msg w =
     (let hdr = topic_header sy pub in
      if q_durability (pb_qos pub) = DURABILITY_TRANSIENT_LOCAL
      then (case serialize (sy_alloc sy) (pb_callbacks pub) msg of
              None \<Rightarrow> (RMW_RET_ERROR, pub, w)
            | Some payload \<Rightarrow>
                transient_local_publish sy pub (hdr\<lparr>wh_payload_size := of_nat (length payload)\<rparr>) payload w)
      else (let hdr1 = hdr\<lparr>wh_sequence_number := pb_sequence_number pub\<rparr>;
                pub1 = pub\<lparr>pb_sequence_number := pb_sequence_number pub + 1\<rparr>;
                (sub_paths, pub2) = refresh_in pub1 w
            in case shm_serialize_prepare_send (sy_shm sy) (sy_alloc sy) (cx_domain_id (pb_context pub))
                      (pb_callbacks pub) msg hdr1 (publish_side pub2 w) of
                 (None, s) \<Rightarrow> (RMW_RET_ERROR, pub2\<lparr>pb_shm_ring := ss_ring s\<rparr>, set_side s w)
               | (Some (wire, hdr2), s) \<Rightarrow>
                   (case send_all sy hdr2 wire sub_paths (set_side s w) of
                      (ret, w') \<Rightarrow> (ret, pub2\<lparr>pb_shm_ring := ss_ring s\<rparr>, w'))))"

definition rmw_publish ::
    "sys \<Rightarrow> 'm publisher handle option \<Rightarrow> 'm option \<Rightarrow> world \<Rightarrow> rmw_ret \<times> 'm publisher handle option \<times> world" where
  "rmw_publish sy h msg w =
     with_entity h (msg \<noteq> None) id (\<lambda>pub. case msg of None \<Rightarrow> (RMW_RET_INVALID_ARGUMENT, pub, w) | Some m \<Rightarrow> publish sy pub m w) w"

definition publish_serialized :: "sys \<Rightarrow> 'm publisher \<Rightarrow> bytes \<Rightarrow> world \<Rightarrow> rmw_ret \<times> 'm publisher \<times> world" where
  "publish_serialized sy pub payload w =
     (let hdr = (topic_header sy pub)\<lparr>wh_payload_size := of_nat (length payload)\<rparr> in
      if q_durability (pb_qos pub) = DURABILITY_TRANSIENT_LOCAL then transient_local_publish sy pub hdr payload w
      else (let hdr1 = hdr\<lparr>wh_sequence_number := pb_sequence_number pub\<rparr>;
                pub1 = pub\<lparr>pb_sequence_number := pb_sequence_number pub + 1\<rparr>;
                (sub_paths, pub2) = refresh_in pub1 w
            in case shm_prepare_send (sy_shm sy) (cx_domain_id (pb_context pub)) payload hdr1 (publish_side pub2 w) of
                 (wire, hdr2, s) \<Rightarrow>
                   (case send_all sy hdr2 wire sub_paths (set_side s w) of
                      (ret, w') \<Rightarrow> (ret, pub2\<lparr>pb_shm_ring := ss_ring s\<rparr>, w'))))"

definition rmw_publish_serialized_message ::
    "sys \<Rightarrow> 'm publisher handle option \<Rightarrow> bytes option \<Rightarrow> world \<Rightarrow> rmw_ret \<times> 'm publisher handle option \<times> world" where
  "rmw_publish_serialized_message sy h data w =
     with_entity h (data \<noteq> None) id
       (\<lambda>pub. case data of None \<Rightarrow> (RMW_RET_INVALID_ARGUMENT, pub, w) | Some bs \<Rightarrow> publish_serialized sy pub bs w) w"

section \<open>Queries on a publisher\<close>

definition rmw_publisher_count_matched_subscriptions ::
    "'m publisher handle option \<Rightarrow> bool \<Rightarrow> world \<Rightarrow> rmw_ret \<times> nat option" where
  "rmw_publisher_count_matched_subscriptions h out w =
     (case guard_entry h out of
        Inl r \<Rightarrow> (r, None)
      | Inr pub \<Rightarrow> (RMW_RET_OK,
          Some (length (registry_query (wo_reg w) ENTRY_SUBSCRIPTION (Some (pb_topic_name pub)) None None))))"

definition rmw_publisher_get_actual_qos :: "'m publisher handle option \<Rightarrow> bool \<Rightarrow> rmw_ret \<times> qos_profile option" where
  "rmw_publisher_get_actual_qos h out =
     (case guard_entry h out of Inl r \<Rightarrow> (r, None) | Inr pub \<Rightarrow> (RMW_RET_OK, Some (pb_qos pub)))"

definition rmw_get_gid_for_publisher :: "'m publisher handle option \<Rightarrow> bool \<Rightarrow> rmw_ret \<times> (string \<times> gid) option" where
  "rmw_get_gid_for_publisher h out =
     (case guard_entry h out of Inl r \<Rightarrow> (r, None) | Inr pub \<Rightarrow> (RMW_RET_OK, Some (uds_identifier, pb_gid pub)))"

definition rmw_publisher_assert_liveliness :: "'m publisher handle option \<Rightarrow> rmw_ret" where
  "rmw_publisher_assert_liveliness h = (if h = None then RMW_RET_INVALID_ARGUMENT else RMW_RET_OK)"

definition rmw_publisher_wait_for_all_acked :: "'m publisher handle option \<Rightarrow> rmw_ret" where
  "rmw_publisher_wait_for_all_acked h = RMW_RET_OK"

end
