(* ===== verification/Uds_Transport_Props.thy ===== *)
theory Uds_Transport_Props
  imports Uds_Transport
begin

text \<open>
  What the transport guarantees: a datagram arrives as it was sent or not at all, junk never
  blocks the queue, and a message serialized by the sender is what the receiver decodes,
  whichever way its payload travelled.
\<close>

section \<open>Receiving\<close>

definition message_datagram :: "bytes \<Rightarrow> bool" where
  "message_datagram d \<longleftrightarrow> sizeof_WireHeader \<le> length d"

lemma recv_loop_quiet:
  "fst (recv_loop [] buf q) = (case filter message_datagram q of [] \<Rightarrow> None | d # _ \<Rightarrow> Some (take_payload d)) \<and>
   filter message_datagram (fst (snd (recv_loop [] buf q))) = drop 1 (filter message_datagram q) \<and>
   (fst (recv_loop [] buf q) = None \<longrightarrow> fst (snd (recv_loop [] buf q)) = [])"
proof (induction q arbitrary: buf)
  case (Cons d q)
  show ?case
    using Cons[of "max buf (length d)"]
    by (auto simp: message_datagram_def sizeof_WireHeader_def Let_def split: list.splits)
qed simp

text \<open>Every datagram delivered was received whole, whatever other threads do to the queue meanwhile.\<close>

lemma recv_loop_whole:
  assumes "\<forall>f q. Interferes f \<in> set rs \<longrightarrow> set (f q) \<subseteq> pool"
    and "set q \<subseteq> pool" "recv_loop rs buf q = (Some (h, p), q', buf')"
  shows "\<exists>d\<in>pool. message_datagram d \<and> (h, p) = take_payload d \<and> length d \<le> buf' \<and> buf \<le> buf'"
  using assms
proof (induction rs buf q arbitrary: h p rule: recv_loop.induct)
  case (4 f rs buf d q)
  let ?buf1 = "max buf (length d)"
  obtain d' q1 where f: "f (d # q) = d' # q1"
    using "4.prems"(3) by (cases "f (d # q)") (auto simp: Let_def)
  have in_pool: "set (d' # q1) \<subseteq> pool"
  proof -
    have "set (f (d # q)) \<subseteq> pool" using "4.prems"(1) by simp
    then show ?thesis by (simp only: f)
  qed
  have rs: "\<forall>f q. Interferes f \<in> set rs \<longrightarrow> set (f q) \<subseteq> pool" using "4.prems"(1) by auto
  show ?case
  proof (cases "length d' > ?buf1 \<or> length d' = 0 \<or> length d' < sizeof_WireHeader")
    case True
    then have r: "recv_loop rs ?buf1 q1 = (Some (h, p), q', buf')"
      using "4.prems"(3) f by (auto simp: Let_def split: if_splits)
    have "\<exists>x\<in>pool. message_datagram x \<and> (h, p) = take_payload x \<and> length x \<le> buf' \<and> ?buf1 \<le> buf'"
      using "4.IH"(1)[OF refl f _ rs _ r] "4.IH"(2)[OF refl f _ _ rs _ r] "4.IH"(3)[OF refl f _ _ _ rs _ r] True in_pool
      by (metis insert_subset list.simps(15))
    then show ?thesis by auto
  next
    case False
    then show ?thesis
      using "4.prems"(3) f in_pool by (auto simp: Let_def message_datagram_def intro!: bexI[of _ d'])
  qed
next
  case (5 buf d q)
  show ?case
  proof (cases "length d = 0 \<or> length d < sizeof_WireHeader")
    case True
    then have r: "recv_loop [] (max buf (length d)) q = (Some (h, p), q', buf')"
      using "5.prems"(3) by (auto simp: Let_def split: if_splits)
    have "\<exists>x\<in>pool. message_datagram x \<and> (h, p) = take_payload x \<and> length x \<le> buf' \<and> max buf (length d) \<le> buf'"
      using "5.IH"(1)[OF refl _ _ _ r] "5.IH"(2)[OF refl _ _ _ _ r] True "5.prems"(2)
      by (cases "d = []") simp_all
    then show ?thesis by auto
  next
    case False
    then show ?thesis
      using "5.prems"(2,3) by (auto simp: Let_def message_datagram_def intro!: bexI[of _ d])
  qed
qed auto

lemma take_payload_datagram:
  assumes "wf_header h" "unat (wh_payload_size h) = length p"
  shows "take_payload (header_bytes h @ p) = (h, p)"
  using assms length_header_bytes[OF assms(1)] parse_header_bytes[OF assms(1), of "[]"]
  by (simp add: take_payload_def Let_def sizeof_WireHeader_def)

lemma message_datagram_sent: "wf_header h \<Longrightarrow> message_datagram (header_bytes h @ p)"
  by (simp add: message_datagram_def length_header_bytes)

text \<open>
  C33: a datagram is delivered whole or dropped. Whatever other threads add to or take from
  the queue between the peek and the receive of every round, a message handed to the caller
  is one datagram of at least a header's length that was received entirely; with a quiet
  queue it is the first such datagram, the junk before it is consumed, and "no message"
  means the queue is empty.
\<close>

theorem recv_whole_or_nothing:
  assumes "\<forall>f q. Interferes f \<in> set rs \<longrightarrow> set (f q) \<subseteq> pool" "set (nt_queue net sock) \<subseteq> pool"
  shows "(\<forall>h p net' buf'. recv_from rs net sock buf = (Some (h, p), net', buf') \<longrightarrow>
            (\<exists>d\<in>pool. message_datagram d \<and> (h, p) = take_payload d \<and> length d \<le> buf')) \<and>
    (let (r, net', _) = recv_from [] net sock buf in
       r = (case filter message_datagram (nt_queue net sock) of [] \<Rightarrow> None | d # _ \<Rightarrow> Some (take_payload d)) \<and>
       filter message_datagram (nt_queue net' sock) = drop 1 (filter message_datagram (nt_queue net sock)) \<and>
       (r = None \<longrightarrow> nt_queue net' sock = []))"
proof (intro conjI allI impI)
  fix h p net' buf' assume r: "recv_from rs net sock buf = (Some (h, p), net', buf')"
  obtain q' where "recv_loop rs buf (nt_queue net sock) = (Some (h, p), q', buf')"
    using r by (auto simp: recv_from_def split: prod.splits)
  then show "\<exists>d\<in>pool. message_datagram d \<and> (h, p) = take_payload d \<and> length d \<le> buf'"
    using recv_loop_whole[OF assms] by blast
qed (use recv_loop_quiet[of buf "nt_queue net sock"] in \<open>auto simp: recv_from_def split: prod.splits\<close>)

theorem recv_whole_or_nothing_witness:
  "fst (recv_from [] \<lparr>nt_bound = Map.empty, nt_queue = (\<lambda>_. [[], [1, 2], replicate 37 0 @ [9]]), nt_next = 1\<rparr> 0 64)
     = Some (take_payload (replicate 37 0 @ [9]))"
proof -
  let ?net = "\<lparr>nt_bound = Map.empty, nt_queue = (\<lambda>_. [[], [1, 2], replicate 37 0 @ [9]]), nt_next = 1\<rparr>"
  have "(let (r, net', _) = recv_from [] ?net 0 64 in
       r = (case filter message_datagram (nt_queue ?net 0) of [] \<Rightarrow> None | d # _ \<Rightarrow> Some (take_payload d)) \<and>
       filter message_datagram (nt_queue net' 0) = drop 1 (filter message_datagram (nt_queue ?net 0)) \<and>
       (r = None \<longrightarrow> nt_queue net' 0 = []))"
    by (rule conjunct2[OF recv_whole_or_nothing[of "[]" UNIV]]) simp_all
  then show ?thesis by (simp add: message_datagram_def sizeof_WireHeader_def Let_def split_beta)
qed

section \<open>Reserve, write, commit\<close>

text \<open>
  A reservation of \<open>n\<close> bytes filled with at most \<open>n\<close> bytes and committed leaves a valid ring and
  a record a reader can fetch through the descriptor.
\<close>

lemma reserve_commit:
  assumes rs: "shm_stage_reserve env d n fs0 ctr0 ring0 = (Some dst, fs2, c2, ring2)"
    and inv: "ring_ok d fs0 ring0" and pg: "page_ok env" and pid: "pid_ok env ring0" and len: "length bs \<le> n"
  shows "\<exists>b fs ring ds off m. rw_base ring2 = Some b \<and>
    shm_stage_commit (length bs) (obj_map_mem fs2 b (\<lambda>m. mem_write m dst bs)) ring2 = (Some ds, fs, ring) \<and>
    ring_ok d fs ring \<and> rw_base ring = Some b \<and> obj_mem fs b = record_write off (rw_next_index ring0) bs m \<and>
    off < 2 ^ 41 \<and> 64 dvd off \<and> off + record_bytes n \<le> rw_ring_bytes ring \<and> n \<le> UINT32_MAX \<and>
    rw_owner_pid ring = rw_owner_pid ring2 \<and>
    ds = \<lparr>d_segment_id = rw_segment_id ring, d_offset = of_nat off, d_seq = rw_next_index ring0 * 2,
       d_payload_size = of_nat (length bs), d_owner_pid = of_int (rw_owner_pid ring), d_owner_id = rw_owner_id ring\<rparr>"
proof -
  let ?r = "record_bytes n"
  obtain fs1 ring1 b where g: "grow_if_needed env d ?r fs0 ctr0 ring0 = (True, fs1, c2, ring1)"
    and b: "rw_base ring1 = Some b" and n: "n \<le> UINT32_MAX"
    and r2: "ring2 = (if rw_next_offset ring1 + ?r > rw_ring_bytes ring1 then ring1\<lparr>rw_next_offset := 0\<rparr> else ring1)
       \<lparr>rw_reserved_cap := n\<rparr>"
    and dst: "dst = 24 + rw_next_offset ring2"
    and f2: "fs2 = obj_map_mem fs1 b (\<lambda>m. mem_write32 m (16 + rw_next_offset ring2) (rw_next_index ring1 * 2 - 1))"
    using rs by (rule reserve_cases)
  have n61: "n \<le> 2 ^ 61" "length bs \<le> 2 ^ 61" using n len by (simp_all add: uds_defs)
  have rb: "?r \<le> 2 ^ 33" using record_bytes_le[OF n61(1)] n by (simp add: uds_defs)
  have mono: "record_bytes (length bs) \<le> ?r"
    using len by (simp add: record_bytes_eq[OF n61(1)] record_bytes_eq[OF n61(2)] div_le_mono)
  note k = grow_if_needed_ok[OF g inv pg pid rb]
  let ?off = "rw_next_offset ring2"
  have base2: "rw_base ring2 = Some b" "rw_next_index ring2 = rw_next_index ring0" "rw_reserved_cap ring2 = n"
    "rw_ring_bytes ring2 = rw_ring_bytes ring1" "rw_segment_id ring2 = rw_segment_id ring1"
    "rw_owner_pid ring2 = rw_owner_pid ring1" "rw_owner_id ring2 = rw_owner_id ring1"
    using b k(2) by (auto simp: r2)
  let ?fs = "obj_map_mem fs1 b (record_write ?off (rw_next_index ring0) bs)"
  let ?ring = "ring2\<lparr>rw_reserved_cap := 0, rw_next_offset := ?off + record_bytes (length bs), rw_next_index := rw_next_index ring0 + 1\<rparr>"
  have fit: "?off + ?r \<le> rw_ring_bytes ring1" using k(3) by (auto simp: r2)
  have dv: "64 dvd ?off" using k(1) b by (auto simp: r2 ring_ok_def)
  have ok1: "ring_ok d ?fs ring1" by (rule ring_ok_record_write[OF k(1) b])
  have okr: "ring_ok d ?fs ?ring"
    using ok1 b dv fit mono record_bytes_dvd[OF n61(2)] base2 by (auto simp: ring_ok_def r2)
  have lt: "rw_ring_bytes ring1 < 2 ^ 41" using k(1) b by (simp add: ring_ok_def)
  have commit: "shm_stage_commit (length bs) (obj_map_mem fs2 b (\<lambda>m. mem_write m dst bs)) ring2 =
     (Some \<lparr>d_segment_id = rw_segment_id ring2, d_offset = of_nat ?off, d_seq = rw_next_index ring0 * 2,
       d_payload_size = of_nat (length bs), d_owner_pid = of_int (rw_owner_pid ring2), d_owner_id = rw_owner_id ring2\<rparr>,
      ?fs, ?ring)"
    using base2 k(2) len
    by (simp add: shm_stage_commit_def f2 dst obj_map_mem_def record_write_def sizeof_ShmRingHeader_def Let_def add.commute)
  have off: "?off < 2 ^ 41" using fit lt by linarith
  show ?thesis
    by (intro exI[of _ b] exI[of _ ?fs] exI[of _ ?ring] exI[of _ "\<lparr>d_segment_id = rw_segment_id ring2, d_offset = of_nat ?off, d_seq = rw_next_index ring0 * 2,
       d_payload_size = of_nat (length bs), d_owner_pid = of_int (rw_owner_pid ring2), d_owner_id = rw_owner_id ring2\<rparr>"]
        exI[of _ ?off] exI[of _ "obj_mem fs1 b"] conjI commit okr off dv n)
      (use base2 fit in auto)
qed

lemma committed_fetch:
  assumes ok: "ring_ok d fs ring" and b: "rw_base ring = Some b" and pid: "rw_owner_pid ring < 2 ^ 31"
    and mem: "obj_mem fs b = record_write off i bs m" and off: "off < 2 ^ 41" "64 dvd off"
      "off + record_bytes n \<le> rw_ring_bytes ring" and n: "n \<le> UINT32_MAX" "length bs \<le> n"
    and ds: "ds = \<lparr>d_segment_id = rw_segment_id ring, d_offset = of_nat off, d_seq = i * 2,
       d_payload_size = of_nat (length bs), d_owner_pid = of_int (rw_owner_pid ring), d_owner_id = rw_owner_id ring\<rparr>"
    and ag: "cache_agrees d fs cache"
  shows "\<exists>cache'. shm_fetch_payload reader_up fs d cache (desc_bytes ds) = (Some bs, cache')"
proof -
  have key: "desc_key ds = \<lparr>k_owner_pid = of_int (rw_owner_pid ring), k_owner_id = rw_owner_id ring,
      k_segment_id = rw_segment_id ring\<rparr>" by (simp add: ds desc_key_def)
  obtain mp cache' where mp: "map_segment reader_up fs d ds cache = (Some mp, cache')"
    "mp_base mp = b" "mp_ring_bytes mp = rw_ring_bytes ring"
    using map_segment_current[OF ok b pid key ag] by blast
  have l: "length bs \<le> UINT32_MAX" "n \<le> 2 ^ 61" using n by (simp_all add: uds_defs)
  have "read_record (obj_mem fs b) (obj_mem fs b) (obj_mem fs b) ds = Some bs"
    unfolding mem by (rule read_record_written[OF l(1) _ off(1)]) (simp_all add: ds)
  moreover have "desc_in_bounds (rw_ring_bytes ring) ds"
    using off n(2) record_bytes_ge[OF l(2)] unat_of_nat_small[of off] unat_of_nat_small32[OF l(1)]
    by (auto simp: desc_in_bounds_def ds uds_defs)
  ultimately show ?thesis using fetch_of_mapping[OF mp(1)] mp(2,3) by auto
qed

section \<open>The ring stays valid on every failure path\<close>

lemma ring_ok_mem_above:
  assumes "ring_ok d fs ring" "\<And>m x n. x + n \<le> 16 \<Longrightarrow> mem_read (f m) x n = mem_read m x n"
  shows "ring_ok d (obj_map_mem fs b f) ring"
  using assms(1) assms(2)[of 0 4] assms(2)[of 4 4] assms(2)[of 8 8]
  by (auto simp: ring_ok_def mem_read32_def mem_read64_def split: option.splits)

lemma open_fresh_names:
  "open_fresh env fs name = (r, fs') \<Longrightarrow> n \<noteq> name \<Longrightarrow> fs_names fs' n = fs_names fs n"
  by (auto simp: open_fresh_def shm_open_excl_def shm_unlink_def Let_def split: if_splits option.splits)

lemma create_segment_fail_ok:
  assumes c: "create_segment env d area fs0 ctr0 ring0 = (False, fs, ctr, ring)"
    and inv: "ring_ok d fs0 ring0" and pid: "pid_ok env ring0"
  shows "ring_ok d fs ring"
proof -
  obtain ctr1 ring1 where as: "assign_owner env ctr0 ring0 = (ctr1, ring1)" by fastforce
  note f = assign_owner_fields[OF as]
  let ?name = "make_segment_name d (rw_owner_pid ring1) (rw_owner_id ring1) (rw_segment_id ring1 + 1)"
  obtain r fs1 where o: "open_fresh env fs0 ?name = (r, fs1)" by fastforce
  have ring: "ring = ring1" using c o as by (auto simp: create_segment_def Let_def shm_writer_close_def split: option.splits if_splits prod.splits)
  have fs: "fs = fs1 \<or> fs = shm_unlink fs1 ?name \<or> (\<exists>ob sz. r = Some ob \<and> fs = shm_unlink (obj_grow fs1 ob sz) ?name)"
    using c o as by (auto simp: create_segment_def Let_def shm_writer_close_def split: option.splits if_splits prod.splits)
  have wf0: "wf_fs fs0" using inv by (simp add: ring_ok_def)
  have wf: "wf_fs fs" using fs wf_open_fresh[OF o wf0] by (auto simp: wf_unlink)
  show ?thesis
  proof (cases "rw_base ring0")
    case None
    then show ?thesis using inv wf f by (simp add: ring_ok_def ring)
  next
    case (Some b)
    have own: "0 \<le> rw_owner_pid ring0" and lt: "b < fs_next fs0" using inv Some by (simp_all add: ring_ok_def)
    then have same: "ring1 = ring0" using as by (simp add: assign_owner_def)
    have p: "\<bar>rw_owner_pid ring0\<bar> \<le> 2 ^ 31" using pid by (auto simp: pid_ok_def)
    have ns: "rw_segment_id ring0 + 1 \<noteq> rw_segment_id ring0" by simp
    have nm: "rw_shm_name ring0 = make_segment_name d (rw_owner_pid ring0) (rw_owner_id ring0) (rw_segment_id ring0)"
      using inv Some by (simp add: ring_ok_def)
    have ne: "rw_shm_name ring0 \<noteq> ?name"
    proof
      assume "rw_shm_name ring0 = ?name"
      then have "rw_segment_id ring0 = rw_segment_id ring0 + 1"
        using make_segment_name_inject[OF p p] unfolding nm same by blast
      with ns show False by simp
    qed
    have look: "fs_names fs (rw_shm_name ring0) = fs_names fs0 (rw_shm_name ring0)"
      using fs open_fresh_names[OF o ne] ne by auto
    note fr = open_fresh_frame[OF o lt]
    have ob: "r = Some ob \<Longrightarrow> ob \<noteq> b" for ob using open_fresh_Some(1)[of env fs0 ?name ob fs1] o lt by auto
    have mem: "obj_mem fs b = obj_mem fs0 b" "obj_size fs b = obj_size fs0 b" "fs_next fs0 \<le> fs_next fs"
      using fs fr ob by auto
    show ?thesis using inv wf look mem Some by (auto simp: ring_ok_def ring same)
  qed
qed

lemma grow_if_needed_fail_ok:
  assumes "grow_if_needed env d r fs0 ctr0 ring0 = (False, fs, ctr, ring)" "ring_ok d fs0 ring0" "pid_ok env ring0"
  shows "ring_ok d fs ring"
  using assms create_segment_fail_ok by (auto simp: grow_if_needed_def Let_def split: if_splits)

lemma reserve_ring_ok:
  assumes rs: "shm_stage_reserve env d n fs0 ctr0 ring0 = (r, fs, ctr, ring)"
    and inv: "ring_ok d fs0 ring0" and pg: "page_ok env" and pid: "pid_ok env ring0"
  shows "ring_ok d fs ring" "r = Some dst \<Longrightarrow> 16 \<le> dst"
proof -
  obtain ok fs1 c1 ring1 where g: "grow_if_needed env d (record_bytes n) fs0 ctr0 ring0 = (ok, fs1, c1, ring1)"
    using prod_cases4 by metis
  have "ring_ok d fs ring \<and> (\<forall>dst. r = Some dst \<longrightarrow> 16 \<le> dst)"
  proof (cases "n > UINT32_MAX \<or> se_force_fail env")
    case True
    then show ?thesis using rs inv by (auto simp: shm_stage_reserve_def split: if_splits)
  next
    case False
    then have n61: "n \<le> 2 ^ 61" by (simp add: uds_defs)
    have rb: "record_bytes n \<le> 2 ^ 33" using record_bytes_le[OF n61] False by (simp add: uds_defs)
    show ?thesis
    proof (cases ok)
      case False
      then show ?thesis
        using rs g \<open>\<not> (n > UINT32_MAX \<or> se_force_fail env)\<close> grow_if_needed_fail_ok[OF _ inv pid]
        by (auto simp: shm_stage_reserve_def Let_def)
    next
      case True
      note k = grow_if_needed_ok[OF g[unfolded True[THEN eqTrueI]] inv pg pid rb]
      obtain b where b: "rw_base ring1 = Some b" using k(7) by blast
      let ?off = "if rw_next_offset ring1 + record_bytes n > rw_ring_bytes ring1 then 0 else rw_next_offset ring1"
      have r: "r = Some (24 + ?off)" "fs = obj_map_mem fs1 b (\<lambda>m. mem_write32 m (16 + ?off) (rw_next_index ring1 * 2 - 1))"
        "ring = ring1\<lparr>rw_next_offset := ?off, rw_reserved_cap := n\<rparr>"
        using rs g True \<open>\<not> (n > UINT32_MAX \<or> se_force_fail env)\<close> b
        by (auto simp: shm_stage_reserve_def Let_def sizeof_ShmRingHeader_def sizeof_ShmRecordHeader_def)
      have "ring_ok d fs1 ring" using k(1) b by (auto simp: ring_ok_def r(3))
      then have "ring_ok d fs ring"
        unfolding r(2) by (rule ring_ok_mem_above) (simp add: mem_read_write32_other)
      then show ?thesis by (simp add: r(1))
    qed
  qed
  then show "ring_ok d fs ring" "r = Some dst \<Longrightarrow> 16 \<le> dst" by blast+
qed

section \<open>What the receiver decodes\<close>

lemma flag_bits:
  fixes t :: u8
  assumes "t AND SHM_PAYLOAD_FLAG = 0"
  shows "(t OR SHM_PAYLOAD_FLAG) AND SHM_PAYLOAD_FLAG \<noteq> 0" "(t OR SHM_PAYLOAD_FLAG) AND NOT SHM_PAYLOAD_FLAG = t"
proof -
  have "(t OR SHM_PAYLOAD_FLAG) AND SHM_PAYLOAD_FLAG = SHM_PAYLOAD_FLAG"
    by (simp add: bit_eq_iff bit_simps)
  moreover have "SHM_PAYLOAD_FLAG \<noteq> 0" by (simp add: SHM_PAYLOAD_FLAG_def)
  ultimately show "(t OR SHM_PAYLOAD_FLAG) AND SHM_PAYLOAD_FLAG \<noteq> 0" by simp
  have "bit t n \<Longrightarrow> \<not> bit SHM_PAYLOAD_FLAG n" for n
    using assms by (metis bit_0_eq bit_and_iff bot_apply bot_bool_def)
  then show "(t OR SHM_PAYLOAD_FLAG) AND NOT SHM_PAYLOAD_FLAG = t"
    by (auto simp: bit_eq_iff bit_simps)
qed

lemma resolve_flagged:
  assumes "wh_msg_type hdr AND SHM_PAYLOAD_FLAG = 0"
    and "shm_fetch_payload renv fs d cache wire = (Some bs, cache')"
  shows "shm_resolve_incoming renv fs d cache (flag_header hdr) wire
    = (Some (hdr\<lparr>wh_payload_size := of_nat (length bs)\<rparr>, bs), cache')"
  using flag_bits[OF assms(1)] assms(2) by (simp add: shm_resolve_incoming_def flag_header_def)

lemma prepare_send_cases:
  assumes cb: "callbacks_ok cb" and mt: "wh_msg_type hdr AND SHM_PAYLOAD_FLAG = 0"
    and send: "shm_serialize_prepare_send env alloc d cb msg hdr s = (out, s')"
    and ok: "ring_ok d (ss_fs s) (ss_ring s)" and pg: "page_ok env" and pid: "pid_ok env (ss_ring s)"
    and size: "cb_size cb msg = Some n"
  shows "ring_ok d (ss_fs s') (ss_ring s')"
    "(out = None \<longrightarrow> \<not> alloc (4 + n)) \<and>
     (\<forall>wire hdr'. out = Some (wire, hdr') \<longrightarrow>
        (\<exists>bs. cb_read cb bs = Some msg \<and> length bs \<le> 4 + n \<and>
          ((wire = bs \<and> hdr' = hdr\<lparr>wh_payload_size := of_nat (length bs)\<rparr>) \<or>
           (hdr' = flag_header hdr \<and> length wire = sizeof_desc \<and>
            (\<forall>cache. rw_owner_pid (ss_ring s') < 2 ^ 31 \<longrightarrow> cache_agrees d (ss_fs s') cache \<longrightarrow>
               (\<exists>cache'. shm_fetch_payload reader_up (ss_fs s') d cache wire = (Some bs, cache')))))))"
proof -
  let ?est = "4 + n"
  obtain bs where w: "cb_write cb msg ?est = Inr bs" "length bs \<le> ?est" "cb_read cb bs = Some msg"
    using callbacks_okD[OF cb size] by blast
  have inl: "inline_payload alloc cb msg ?est hdr = (if alloc ?est then Some (bs, hdr\<lparr>wh_payload_size := of_nat (length bs)\<rparr>) else None)"
    by (simp add: inline_payload_def serialize_into_def w(1))
  have sz: "serialized_size cb msg = Some ?est" by (simp add: serialized_size_def size)
  obtain r fs ctr ring where rs: "shm_stage_reserve env d ?est (ss_fs s) (ss_ctr s) (ss_ring s) = (r, fs, ctr, ring)"
    using prod_cases4 by metis
  note rok = reserve_ring_ok[OF rs ok pg pid]
  consider (small) "?est < SHM_PAYLOAD_THRESHOLD" | (refused) "?est \<ge> SHM_PAYLOAD_THRESHOLD" "r = None"
    | (placed) dst where "?est \<ge> SHM_PAYLOAD_THRESHOLD" "r = Some dst" by (cases "?est < SHM_PAYLOAD_THRESHOLD"; cases r) (auto simp: not_less)
  then have main: "ring_ok d (ss_fs s') (ss_ring s') \<and> (out = None \<longrightarrow> \<not> alloc (4 + n)) \<and>
     (\<forall>wire hdr'. out = Some (wire, hdr') \<longrightarrow>
        ((wire = bs \<and> hdr' = hdr\<lparr>wh_payload_size := of_nat (length bs)\<rparr>) \<or>
           (hdr' = flag_header hdr \<and> length wire = sizeof_desc \<and>
            (\<forall>cache. rw_owner_pid (ss_ring s') < 2 ^ 31 \<longrightarrow> cache_agrees d (ss_fs s') cache \<longrightarrow>
               (\<exists>cache'. shm_fetch_payload reader_up (ss_fs s') d cache wire = (Some bs, cache'))))))"
  proof cases
    case small
    then show ?thesis using send ok by (auto simp: shm_serialize_prepare_send_def sz inl split: if_splits)
  next
    case refused
    then show ?thesis using send rok by (auto simp: shm_serialize_prepare_send_def sz inl rs split: if_splits)
  next
    case (placed dst)
    obtain b fs' ring' ds off m where c: "rw_base ring = Some b"
      "shm_stage_commit (length bs) (obj_map_mem fs b (\<lambda>m. mem_write m dst bs)) ring = (Some ds, fs', ring')"
      "ring_ok d fs' ring'" "rw_base ring' = Some b" "obj_mem fs' b = record_write off (rw_next_index (ss_ring s)) bs m"
      "off < 2 ^ 41" "64 dvd off" "off + record_bytes ?est \<le> rw_ring_bytes ring'" "?est \<le> UINT32_MAX"
      "ds = \<lparr>d_segment_id = rw_segment_id ring', d_offset = of_nat off, d_seq = rw_next_index (ss_ring s) * 2,
         d_payload_size = of_nat (length bs), d_owner_pid = of_int (rw_owner_pid ring'), d_owner_id = rw_owner_id ring'\<rparr>"
      using reserve_commit[OF rs[unfolded placed(2)] ok pg pid w(2)] by blast
    have out: "out = Some (desc_bytes ds, flag_header hdr)" "s' = \<lparr>ss_fs = fs', ss_ctr = ctr, ss_ring = ring'\<rparr>"
      using send placed c(1,2)
      by (auto simp: shm_serialize_prepare_send_def sz rs serialize_reserved_def serialize_into_def w(1) Let_def)
    show ?thesis
      using committed_fetch[OF c(3,4) _ c(5-9) w(2) c(10)] c(3) by (auto simp: out sizeof_desc_def)
  qed
  then show "ring_ok d (ss_fs s') (ss_ring s')" by (rule conjunct1)
  show "(out = None \<longrightarrow> \<not> alloc (4 + n)) \<and>
     (\<forall>wire hdr'. out = Some (wire, hdr') \<longrightarrow>
        (\<exists>bs. cb_read cb bs = Some msg \<and> length bs \<le> 4 + n \<and>
          ((wire = bs \<and> hdr' = hdr\<lparr>wh_payload_size := of_nat (length bs)\<rparr>) \<or>
           (hdr' = flag_header hdr \<and> length wire = sizeof_desc \<and>
            (\<forall>cache. rw_owner_pid (ss_ring s') < 2 ^ 31 \<longrightarrow> cache_agrees d (ss_fs s') cache \<longrightarrow>
               (\<exists>cache'. shm_fetch_payload reader_up (ss_fs s') d cache wire = (Some bs, cache')))))))"
    by (intro conjI allI impI exI[of _ bs] w(2,3) main[THEN conjunct2, THEN conjunct1, THEN mp]
        main[THEN conjunct2, THEN conjunct2, THEN spec, THEN spec, THEN mp]; assumption)
qed

text \<open>
  C32: the receiver decodes the message the sender serialized, whichever way it went. For a
  serializer that keeps its contract, a sender's message that could be serialized resolves at
  the receiver to bytes that decode to that message, with the header's type intact and its
  size the true one, inline or through the ring; the sender's ring stays valid on every
  path; and preparing fails only when the size walk throws or the heap has no room, never
  because shared memory failed.
\<close>

theorem serialized_payload_roundtrip:
  assumes "callbacks_ok cb" "wh_msg_type hdr AND SHM_PAYLOAD_FLAG = 0"
    and "shm_serialize_prepare_send env alloc d cb msg hdr s = (out, s')"
    and "ring_ok d (ss_fs s) (ss_ring s)" "page_ok env" "pid_ok env (ss_ring s)"
    and "rw_owner_pid (ss_ring s') < 2 ^ 31" "cache_agrees d (ss_fs s') cache"
  shows "ring_ok d (ss_fs s') (ss_ring s') \<and>
    (out = None \<longrightarrow> cb_size cb msg = None \<or> (\<exists>n. cb_size cb msg = Some n \<and> \<not> alloc (4 + n))) \<and>
    (\<forall>wire hdr'. out = Some (wire, hdr') \<longrightarrow>
       (\<exists>bs cache'. shm_resolve_incoming reader_up (ss_fs s') d cache hdr' wire =
            (Some (hdr\<lparr>wh_payload_size := of_nat (length bs)\<rparr>, bs), cache') \<and> deserialize cb bs = Some msg))"
proof (cases "cb_size cb msg")
  case None
  then show ?thesis using assms(3,4) by (auto simp: shm_serialize_prepare_send_def serialized_size_def)
next
  case (Some n)
  note p = prepare_send_cases[OF assms(1-6) Some]
  have "\<exists>bs cache'. shm_resolve_incoming reader_up (ss_fs s') d cache hdr' wire =
            (Some (hdr\<lparr>wh_payload_size := of_nat (length bs)\<rparr>, bs), cache') \<and> deserialize cb bs = Some msg"
    if o: "out = Some (wire, hdr')" for wire hdr'
  proof -
    have "\<exists>bs. cb_read cb bs = Some msg \<and>
      ((wire = bs \<and> hdr' = hdr\<lparr>wh_payload_size := of_nat (length bs)\<rparr>) \<or>
       (hdr' = flag_header hdr \<and> (\<exists>cache'. shm_fetch_payload reader_up (ss_fs s') d cache wire = (Some bs, cache'))))"
      using p(2)[THEN conjunct2, rule_format, OF o] assms(7,8) by blast
    then obtain bs where bs: "cb_read cb bs = Some msg"
      "(wire = bs \<and> hdr' = hdr\<lparr>wh_payload_size := of_nat (length bs)\<rparr>) \<or>
       (hdr' = flag_header hdr \<and> (\<exists>cache'. shm_fetch_payload reader_up (ss_fs s') d cache wire = (Some bs, cache')))"
      by blast
    from bs(2) show ?thesis
    proof (elim disjE conjE exE)
      assume "wire = bs" "hdr' = hdr\<lparr>wh_payload_size := of_nat (length bs)\<rparr>"
      then show ?thesis using bs(1) assms(2) by (auto simp: shm_resolve_incoming_def deserialize_def)
    next
      fix cache' assume "hdr' = flag_header hdr" "shm_fetch_payload reader_up (ss_fs s') d cache wire = (Some bs, cache')"
      then show ?thesis using resolve_flagged[OF assms(2)] bs(1) by (auto simp: deserialize_def)
    qed
  qed
  then show ?thesis using p Some by blast
qed

text \<open>A serializer for byte strings that meets the contract.\<close>

definition bytes_callbacks :: "bytes callbacks" where
  "bytes_callbacks = \<lparr>cb_size = (\<lambda>m. Some (length m)),
     cb_write = (\<lambda>m capacity. if length m \<le> capacity then Inr m else Inl (take capacity m)),
     cb_read = Some, cb_namespace = ''std_msgs::msg'', cb_name = ''String''\<rparr>"

lemma bytes_callbacks_ok: "callbacks_ok bytes_callbacks"
  by (auto simp: callbacks_ok_def bytes_callbacks_def split: if_splits)

definition shm_side0 :: shm_side where
  "shm_side0 = \<lparr>ss_fs = empty_fs, ss_ctr = 1, ss_ring = new_ring_writer\<rparr>"

definition hdr0 :: wire_header where
  "hdr0 = \<lparr>wh_gid = replicate 16 3, wh_sequence_number = 1, wh_source_timestamp = 5, wh_payload_size = 0, wh_msg_type = 0\<rparr>"

lemma small_send_stays_inline:
  assumes "cb_size cb msg = Some n" "4 + n < SHM_PAYLOAD_THRESHOLD"
  shows "snd (shm_serialize_prepare_send env alloc d cb msg hdr s) = s"
  using assms by (simp add: shm_serialize_prepare_send_def serialized_size_def)

theorem serialized_payload_roundtrip_witness:
  "\<exists>wire hdr' bs. fst (shm_serialize_prepare_send env0 (\<lambda>_. True) 0 bytes_callbacks [1, 2] hdr0 shm_side0) = Some (wire, hdr') \<and>
     fst (shm_resolve_incoming reader_up empty_fs 0 [] hdr' wire) = Some (hdr0\<lparr>wh_payload_size := of_nat (length bs)\<rparr>, bs) \<and>
     deserialize bytes_callbacks bs = Some [1, 2]"
proof -
  let ?p = "shm_serialize_prepare_send env0 (\<lambda>_. True) 0 bytes_callbacks [1, 2] hdr0 shm_side0"
  have s': "snd ?p = shm_side0"
    by (rule small_send_stays_inline[of _ _ 2]) (simp_all add: bytes_callbacks_def SHM_PAYLOAD_THRESHOLD_def)
  obtain out where p: "?p = (out, shm_side0)" using s' by (metis prod.collapse)
  have ag: "cache_agrees 0 (ss_fs shm_side0) []" by (simp add: cache_agrees_def)
  have ok: "ring_ok 0 (ss_fs shm_side0) (ss_ring shm_side0)" "pid_ok env0 (ss_ring shm_side0)"
    using env0_ok by (simp_all add: shm_side0_def)
  have t: "wh_msg_type hdr0 AND SHM_PAYLOAD_FLAG = 0" by (simp add: hdr0_def)
  have o: "rw_owner_pid (ss_ring shm_side0) < 2 ^ 31" by (simp add: shm_side0_def new_ring_writer_def)
  note r = serialized_payload_roundtrip[OF bytes_callbacks_ok t p ok(1) env0_ok(2) ok(2) o ag]
  have "out \<noteq> None" using r by (auto simp: bytes_callbacks_def)
  then obtain wire hdr' where "out = Some (wire, hdr')" by (metis option.exhaust prod.exhaust)
  then show ?thesis using r p by (fastforce simp: shm_side0_def)
qed

end
