(* ===== verification/Uds_Publisher_Props.thy ===== *)
theory Uds_Publisher_Props
  imports Uds_Publisher Uds_Transport_Props Uds_Latched_Props
begin

text \<open>
  The publisher's subscriber list against the registry's contract, and the order of creation
  and destruction of its latched cache.
\<close>

section \<open>The subscriber list is a coherent cache\<close>

definition sub_view :: "string \<Rightarrow> registry \<Rightarrow> string list" where
  "sub_view topic r = subscriber_paths (registry_query r ENTRY_SUBSCRIPTION (Some topic) None None)"

interpretation sub_paths: versioned_view reg_step registry_generation "sub_view topic" for topic
  by unfold_locales (auto simp: registry_generation_def dest: reg_step_generation)

definition eff_paths :: "string list option \<Rightarrow> string list" where
  "eff_paths ps = (case ps of None \<Rightarrow> [] | Some l \<Rightarrow> l)"

definition cache_coherent :: "'m publisher \<Rightarrow> registry \<Rightarrow> bool" where
  "cache_coherent pub r \<longleftrightarrow>
     memo_coherent registry_generation (sub_view (pb_topic_name pub)) r
       (pb_cached_generation pub, eff_paths (pb_cached_subscriber_paths pub))"

lemma refresh_is_memo:
  assumes "refresh_sub_paths r g pub = (paths, pub')"
  shows "memo_refresh g (sub_view (pb_topic_name pub) r) (pb_cached_generation pub, eff_paths (pb_cached_subscriber_paths pub))
      = (pb_cached_generation pub', eff_paths (pb_cached_subscriber_paths pub'))"
    "pb_cached_subscriber_paths pub' = paths"
    "pub' = pub\<lparr>pb_cached_generation := pb_cached_generation pub', pb_cached_subscriber_paths := paths\<rparr>"
  using assms by (auto simp: refresh_sub_paths_def memo_refresh_def sub_view_def eff_paths_def split: if_splits)

lemma sub_view_set:
  assumes "wf_registry r"
  shows "set (sub_view topic r) =
    {pl_socket_path (en_payload e) | e. (\<exists>i. entries r i = Some e) \<and> en_type e = ENTRY_SUBSCRIPTION \<and>
       pl_topic_name (en_payload e) = topic \<and> pl_socket_path (en_payload e) \<noteq> []}"
proof -
  have "set (sub_view topic r) = {p. p \<noteq> [] \<and> p \<in> qr_socket_path ` entry_result `
      {e. (\<exists>i. entries r i = Some e) \<and> entry_matches ENTRY_SUBSCRIPTION (Some topic) None None e}}"
    by (auto simp: sub_view_def subscriber_paths_def registry_query_set[OF assms])
  then show ?thesis by (auto simp: image_image query_facts image_iff uds_defs)
qed

lemmas reg_steps_wf = reg_wf.steps_keep

text \<open>
  C34: a publisher misses no subscriber its loaded generation covers. The generation is read
  from a registry that has moved on since the cache was filled, and the query may run later
  still. The refreshed list stays coherent; every subscription of the topic that was
  registered when the generation was read is in it, unless it has been removed by the time
  of the query; and when nothing intervenes the list is exactly the paths registered.
\<close>

theorem refresh_covers_generation:
  assumes "cache_coherent pub r0" "wf_registry r0" "reg_step\<^sup>*\<^sup>* r0 r1" "reg_step\<^sup>*\<^sup>* r1 r2"
    and "refresh_sub_paths r2 (registry_generation r1) pub = (paths, pub')"
  shows "cache_coherent pub' r2 \<and>
    (\<forall>i e. entries r1 i = Some e \<longrightarrow> entries r2 i = Some e \<longrightarrow> en_type e = ENTRY_SUBSCRIPTION \<longrightarrow>
       pl_topic_name (en_payload e) = pb_topic_name pub \<longrightarrow> pl_socket_path (en_payload e) \<noteq> [] \<longrightarrow>
       pl_socket_path (en_payload e) \<in> set (eff_paths paths)) \<and>
    (r2 = r1 \<longrightarrow> eff_paths paths = sub_view (pb_topic_name pub) r2)"
proof -
  let ?t = "pb_topic_name pub"
  note m = refresh_is_memo[OF assms(5)]
  have c1: "memo_coherent registry_generation (sub_view ?t) r1 (pb_cached_generation pub, eff_paths (pb_cached_subscriber_paths pub))"
    using sub_paths.coherent_steps[OF assms(1)[unfolded cache_coherent_def] assms(3)] .
  have t: "pb_topic_name pub' = ?t" using arg_cong[OF m(3), of pb_topic_name] by simp
  have coh: "cache_coherent pub' r2"
    using sub_paths.refresh_coherent[OF c1 assms(4)] unfolding m(1) cache_coherent_def t .
  have v: "eff_paths paths = sub_view ?t r2 \<or> eff_paths paths = sub_view ?t r1"
    using m(1,2) c1 by (auto simp: memo_refresh_def memo_coherent_def split: if_splits)
  have wf: "wf_registry r1" "wf_registry r2" using reg_steps_wf assms(2-4) by blast+
  have "pl_socket_path (en_payload e) \<in> set (eff_paths paths)"
    if "entries r1 i = Some e" "entries r2 i = Some e" "en_type e = ENTRY_SUBSCRIPTION"
      "pl_topic_name (en_payload e) = ?t" "pl_socket_path (en_payload e) \<noteq> []" for i e
  proof -
    have "pl_socket_path (en_payload e) \<in> set (sub_view ?t r1)" "pl_socket_path (en_payload e) \<in> set (sub_view ?t r2)"
      unfolding sub_view_set[OF wf(1)] sub_view_set[OF wf(2)] using that by blast+
    then show ?thesis using v by metis
  qed
  then show ?thesis using coh v by blast
qed

end
