(* ===== verification/Uds_Inbox.thy ===== *)
theory Uds_Inbox
  imports Uds_World
begin

text \<open>
  Draining a socket into an entity's queue. \<^verbatim>\<open>rmw_subscription.cpp\<close>, \<^verbatim>\<open>rmw_service.cpp\<close>,
  \<^verbatim>\<open>rmw_client.cpp\<close> and \<^verbatim>\<open>rmw_wait.cpp\<close> each have a loop of this shape: receive; drop what is
  of another kind, was already replayed, cannot be resolved, or is local and unwanted;
  append the rest to a queue that forgets its oldest entries beyond its depth. The loops of
  \<^verbatim>\<open>rmw_take_request\<close> and \<^verbatim>\<open>rmw_take_response\<close> do not cut the queue.
\<close>

record inbox =
  ib_queue :: "received_message list"
  ib_watermarks :: "gid \<rightharpoonup> u64"
  ib_cache :: reader_cache

definition new_inbox :: inbox where
  "new_inbox = \<lparr>ib_queue = [], ib_watermarks = Map.empty, ib_cache = []\<rparr>"

record drain_cfg =
  dc_depth :: "nat option"   \<comment> \<open>\<open>None\<close>: the queue is not cut\<close>
  dc_msg_type :: u8
  dc_domain_id :: u64
  dc_dedup :: bool           \<comment> \<open>a watermark table is consulted\<close>
  dc_ignore_local :: bool
  dc_context_id :: u64

definition is_replayed_duplicate :: "inbox \<Rightarrow> wire_header \<Rightarrow> bool" where
  "is_replayed_duplicate ib hdr =
     (case ib_watermarks ib (wh_gid hdr) of
        None \<Rightarrow> False
      | Some mark \<Rightarrow> sint (wh_sequence_number hdr) \<le> sint mark)"

text \<open>Append, then pop from the front while the queue is longer than its depth.\<close>

definition enqueue :: "nat \<Rightarrow> received_message \<Rightarrow> received_message list \<Rightarrow> received_message list" where
  "enqueue depth m q = (let q1 = q @ [m] in drop (length q1 - depth) q1)"

definition enqueue_within :: "nat option \<Rightarrow> received_message \<Rightarrow> received_message list \<Rightarrow> received_message list" where
  "enqueue_within depth m q = (case depth of None \<Rightarrow> q @ [m] | Some d \<Rightarrow> enqueue d m q)"

text \<open>One received datagram: the inbox after it, and whether it was queued.\<close>

definition deliver ::
    "reader_env \<Rightarrow> shm_fs \<Rightarrow> drain_cfg \<Rightarrow> u64 \<Rightarrow> wire_header \<times> bytes \<Rightarrow> inbox \<Rightarrow> inbox \<times> bool" where
  "deliver env fs cfg now msg ib =
     (case msg of (hdr, payload) \<Rightarrow>
        if wh_msg_type hdr AND NOT SHM_PAYLOAD_FLAG \<noteq> dc_msg_type cfg then (ib, False)
        else if dc_dedup cfg \<and> is_replayed_duplicate ib hdr then (ib, False)
        else (case shm_resolve_incoming env fs (dc_domain_id cfg) (ib_cache ib) hdr payload of
                (None, cache) \<Rightarrow> (ib\<lparr>ib_cache := cache\<rparr>, False)
              | (Some (hdr1, payload1), cache) \<Rightarrow>
                  (let ib1 = ib\<lparr>ib_cache := cache\<rparr> in
                   if dc_ignore_local cfg \<and> is_same_context hdr1 (dc_context_id cfg) then (ib1, False)
                   else (ib1\<lparr>ib_queue := enqueue_within (dc_depth cfg)
                           \<lparr>rm_header = hdr1, rm_payload = payload1, rm_received_timestamp = now\<rparr> (ib_queue ib1)\<rparr>,
                         True))))"

lemma recv_loop_shrinks:
  "recv_loop rs buf q = (Some m, q', buf') \<Longrightarrow> rs = [] \<Longrightarrow> length q' < length q"
  by (induction rs buf q rule: recv_loop.induct) (auto simp: Let_def split: if_splits)

text \<open>
  The loop. Each receive has the interference of one entry of the list; once the list is used
  up nobody else touches the socket. Result: the inbox, the socket's queue, the size of the
  receive buffer, and how many messages were queued.
\<close>

function drain_loop ::
    "reader_env \<Rightarrow> shm_fs \<Rightarrow> drain_cfg \<Rightarrow> u64 \<Rightarrow> round list list \<Rightarrow> nat \<Rightarrow> bytes list \<Rightarrow> inbox \<Rightarrow>
       inbox \<times> bytes list \<times> nat \<times> nat" where
  "drain_loop env fs cfg now rss buf q ib =
     (case recv_loop (case rss of [] \<Rightarrow> [] | rs # _ \<Rightarrow> rs) buf q of
        (None, q', buf') \<Rightarrow> (ib, q', buf', 0)
      | (Some m, q', buf') \<Rightarrow>
          (case deliver env fs cfg now m ib of
             (ib', queued) \<Rightarrow>
               (case drain_loop env fs cfg now (tl rss) buf' q' ib' of
                  (ib2, q2, buf2, n) \<Rightarrow> (ib2, q2, buf2, if queued then Suc n else n))))"
  by pat_completeness auto
termination
  by (relation "inv_image (less_than <*lex*> less_than) (\<lambda>(_, _, _, _, rss, _, q, _). (length rss, length q))")
    (auto split: list.splits dest: recv_loop_shrinks[OF sym])

declare drain_loop.simps [simp del]

definition drain ::
    "sys \<Rightarrow> drain_cfg \<Rightarrow> nat \<Rightarrow> inbox \<Rightarrow> world \<Rightarrow> inbox \<times> nat \<times> world" where
  "drain sy cfg sock ib w =
     (case drain_loop (sy_reader sy) (wo_fs w) cfg (sy_now_ns sy) (sy_rounds sy) (wo_recv_buf w)
             (nt_queue (wo_net w) sock) ib of
        (ib', q', buf', n) \<Rightarrow>
          (ib', n, w\<lparr>wo_net := (wo_net w)\<lparr>nt_queue := (nt_queue (wo_net w))(sock := q')\<rparr>, wo_recv_buf := buf'\<rparr>))"

end
