(* ===== verification/Uds_Subscription.thy ===== *)
theory Uds_Subscription
  imports Uds_Inbox
begin

text \<open>
  Subscriptions (\<^verbatim>\<open>rmw_subscription.cpp\<close>): creation with the late joiner's own replay of
  every matched latched cache, destruction, and the taking entry points.
\<close>

record 'm subscription =
  su_uid :: u64
  su_gid :: gid
  su_topic_name :: string
  su_type_name :: string
  su_qos :: qos_profile
  su_callbacks :: "'m callbacks"
  su_socket :: nat
  su_socket_path :: string
  su_inbox :: inbox
  su_queue_depth :: nat
  su_reception_seq :: u64
  su_registry_index :: int
  su_context :: uds_context
  su_ignore_local :: bool
  su_on_new_message :: "nat option"    \<comment> \<open>user data of the callback, if one is set\<close>
  su_calls :: "(nat \<times> nat) list"       \<comment> \<open>the callback's invocations so far: user data, count\<close>

section \<open>Replay of latched caches\<close>

text \<open>With an overlap only the prefix without a sequence gap may be claimed.\<close>

fun contiguous :: "tl_pulled list \<Rightarrow> tl_pulled list" where
  "contiguous [] = []"
| "contiguous [r] = [r]"
| "contiguous (r # r' # rs) =
     (if pr_sequence_number r' \<noteq> pr_sequence_number r + 1 then [r] else r # contiguous (r' # rs))"

definition claimed :: "pull_result \<Rightarrow> tl_pulled list \<times> u64" where
  "claimed pu =
     (if pu_overlapped pu
      then (let rs = contiguous (pu_records pu) in (rs, if rs = [] then 0 else pr_sequence_number (last rs)))
      else (pu_records pu, pu_max_seq pu))"

text \<open>
  Queue the claimed records in order, resolving descriptors through the pull's own reader
  cache; the first record that cannot be resolved ends the claim below it.
\<close>

fun absorb ::
    "reader_env \<Rightarrow> shm_fs \<Rightarrow> u64 \<Rightarrow> nat \<Rightarrow> u64 \<Rightarrow> tl_pulled list \<Rightarrow> u64 \<Rightarrow> reader_cache \<Rightarrow> received_message list \<Rightarrow>
       received_message list \<times> u64 \<times> reader_cache" where
  "absorb env fs domain_id depth now [] max_seq cache q = (q, max_seq, cache)"
| "absorb env fs domain_id depth now (r # rs) max_seq cache q =
     (case shm_resolve_incoming env fs domain_id cache (parse_header (pr_wire_header r)) (pr_payload r) of
        (None, cache') \<Rightarrow> (q, pr_sequence_number r - 1, cache')
      | (Some (h, p), cache') \<Rightarrow>
          absorb env fs domain_id depth now rs max_seq cache'
            (enqueue depth \<lparr>rm_header = h, rm_payload = p, rm_received_timestamp = now\<rparr> q))"

definition replay_publisher ::
    "sys \<Rightarrow> shm_fs \<Rightarrow> 'm subscription \<Rightarrow> query_result \<Rightarrow> reader_cache \<times> inbox \<Rightarrow> reader_cache \<times> inbox" where
  "replay_publisher sy fs sub p acc =
     (case acc of (cache, ib) \<Rightarrow>
        if q_durability (qr_qos p) \<noteq> DURABILITY_TRANSIENT_LOCAL \<or> qr_socket_path p = [] then (cache, ib)
        else if su_ignore_local sub \<and>
                is_same_context \<lparr>wh_gid = qr_gid p, wh_sequence_number = 0, wh_source_timestamp = 0,
                                  wh_payload_size = 0, wh_msg_type = 0\<rparr> (cx_context_id (su_context sub))
        then (cache, ib)
        else (let pu = tl_ring_pull (sy_reader sy) (sy_look sy) fs (qr_socket_path p) (qr_gid p) (su_queue_depth sub) in
              if \<not> pu_ok pu then (cache, ib)
              else (let (records, max_seq) = claimed pu in
                    if pu_overlapped pu \<and> records = [] then (cache, ib)
                    else (case absorb (sy_reader sy) fs (cx_domain_id (su_context sub)) (su_queue_depth sub)
                                 (sy_now_ns sy) records max_seq cache (ib_queue ib) of
                            (q, mark, cache') \<Rightarrow>
                              (cache', ib\<lparr>ib_queue := q, ib_watermarks := (ib_watermarks ib)(qr_gid p \<mapsto> mark)\<rparr>)))))"

definition replay :: "sys \<Rightarrow> world \<Rightarrow> 'm subscription \<Rightarrow> 'm subscription" where
  "replay sy w sub =
     (if q_durability (su_qos sub) = DURABILITY_TRANSIENT_LOCAL
      then (let pubs = registry_query (wo_reg w) ENTRY_PUBLISHER (Some (su_topic_name sub)) None None
            in sub\<lparr>su_inbox := snd (fold (replay_publisher sy (wo_fs w) sub) pubs ([], su_inbox sub))\<rparr>)
      else sub)"

section \<open>Creation and destruction\<close>

definition new_subscription ::
    "uds_context \<Rightarrow> u64 \<Rightarrow> gid \<Rightarrow> string \<Rightarrow> 'm callbacks \<Rightarrow> qos_profile \<Rightarrow> bool option \<Rightarrow> string \<Rightarrow> 'm subscription" where
  "new_subscription ctx uid gid topic_name cb qos ignore_local path =
     (let q = resolve_qos qos in
      \<lparr>su_uid = uid, su_gid = gid, su_topic_name = topic_name,
       su_type_name = make_ros_type_name (cb_namespace cb) (cb_name cb), su_qos = q, su_callbacks = cb,
       su_socket = 0, su_socket_path = path, su_inbox = new_inbox, su_queue_depth = unat (q_depth q),
       su_reception_seq = 1, su_registry_index = -1, su_context = ctx,
       su_ignore_local = (case ignore_local of None \<Rightarrow> False | Some b \<Rightarrow> b), su_on_new_message = None, su_calls = []\<rparr>)"

text \<open>
  \<open>register_subscription\<close> is the creation up to the visible slot, \<open>replay\<close> what follows it:
  publishers act between the two, which is what the watermark is for.
\<close>

definition register_subscription ::
    "sys \<Rightarrow> uds_node \<Rightarrow> 'm callbacks \<Rightarrow> string \<Rightarrow> qos_profile \<Rightarrow> bool option \<Rightarrow> world \<Rightarrow> 'm subscription option \<times> world" where
  "register_subscription sy node cb topic_name qos ignore_local w0 =
     (let ctx = nd_context node;
          (uid, uctr) = next_entity_uid (wo_uid_ctr w0);
          (gid, gctr) = gid_generate (of_int (sy_pid sy)) (cx_context_id ctx) (wo_gid_ctr w0);
          path = make_socket_path (cx_domain_id ctx) ''sub'' (sy_pid sy) (wo_path_ctr w0) (se_now_us (sy_shm sy));
          w1 = w0\<lparr>wo_uid_ctr := uctr, wo_gid_ctr := gctr, wo_path_ctr := wo_path_ctr w0 + 1\<rparr>;
          sub = new_subscription ctx uid gid topic_name cb qos ignore_local path
      in case create_bound_socket (sy_net sy) (wo_net w1) path of
           (None, net) \<Rightarrow> (None, w1\<lparr>wo_net := net\<rparr>)
         | (Some sock, net) \<Rightarrow>
             (let e = entity_entry sy ENTRY_SUBSCRIPTION node gid topic_name (su_type_name sub) path (su_qos sub);
                  (index, w2) = add_entry sy e (w1\<lparr>wo_net := net\<rparr>)
              in if index < 0 then (None, close_entity_socket path w2)
                 else if \<not> sy_handle_ok sy then (None, close_entity_socket path (remove_entry sy index w2))
                 else (Some (sub\<lparr>su_socket := sock, su_registry_index := index\<rparr>), w2)))"

definition create_subscription ::
    "sys \<Rightarrow> uds_node \<Rightarrow> 'm type_support \<Rightarrow> string \<Rightarrow> qos_profile \<Rightarrow> bool option \<Rightarrow> world \<Rightarrow> 'm subscription option \<times> world" where
  "create_subscription sy node ts topic_name qos ignore_local w =
     (case get_callbacks ts of
        None \<Rightarrow> (None, w)
      | Some cb \<Rightarrow>
          if \<not> sy_new_ok sy then (None, w)
          else (case register_subscription sy node cb topic_name qos ignore_local w of
                  (None, w') \<Rightarrow> (None, w')
                | (Some sub, w') \<Rightarrow> (Some (replay sy w' sub), w')))"

definition rmw_create_subscription ::
    "sys \<Rightarrow> uds_node handle option \<Rightarrow> 'm type_support option \<Rightarrow> string option \<Rightarrow> qos_profile option \<Rightarrow> bool option \<Rightarrow>
       world \<Rightarrow> 'm subscription handle option \<times> world" where
  "rmw_create_subscription sy node ts topic_name qos ignore_local w =
     (case (guard_entry node (ts \<noteq> None \<and> topic_name \<noteq> None \<and> qos \<noteq> None), ts, topic_name, qos) of
        (Inr n, Some t, Some nm, Some q) \<Rightarrow>
          (case create_subscription sy n t nm q ignore_local w of
             (s, w') \<Rightarrow> (map_option (\<lambda>d. \<lparr>hn_identifier = uds_identifier, hn_data = d\<rparr>) s, w'))
      | _ \<Rightarrow> (None, w))"

definition destroy_subscription :: "sys \<Rightarrow> 'm subscription \<Rightarrow> world \<Rightarrow> world" where
  "destroy_subscription sy sub w =
     close_entity_socket (su_socket_path sub)
       (if su_registry_index sub \<ge> 0 then remove_entry sy (su_registry_index sub) w else w)"

definition rmw_destroy_subscription ::
    "sys \<Rightarrow> uds_node handle option \<Rightarrow> 'm subscription handle option \<Rightarrow> world \<Rightarrow> rmw_ret \<times> world" where
  "rmw_destroy_subscription sy node h w =
     (case guard_entry h (node \<noteq> None) of
        Inl r \<Rightarrow> (r, w)
      | Inr sub \<Rightarrow> (RMW_RET_OK, destroy_subscription sy sub w))"

section \<open>Taking\<close>

definition sub_cfg :: "'m subscription \<Rightarrow> drain_cfg" where
  "sub_cfg sub = \<lparr>dc_depth = Some (su_queue_depth sub), dc_msg_type = MSG_TOPIC,
     dc_domain_id = cx_domain_id (su_context sub), dc_dedup = True, dc_ignore_local = su_ignore_local sub,
     dc_context_id = cx_context_id (su_context sub)\<rparr>"

definition drain_subscription :: "sys \<Rightarrow> 'm subscription \<Rightarrow> world \<Rightarrow> 'm subscription \<times> world" where
  "drain_subscription sy sub w =
     (case drain sy (sub_cfg sub) (su_socket sub) (su_inbox sub) w of
        (ib, n, w') \<Rightarrow>
          (sub\<lparr>su_inbox := ib,
               su_calls := su_calls sub @
                 (case su_on_new_message sub of None \<Rightarrow> [] | Some user_data \<Rightarrow> replicate n (user_data, 1))\<rparr>, w'))"

definition pop_message :: "'m subscription \<Rightarrow> received_message option \<times> 'm subscription" where
  "pop_message sub =
     (case ib_queue (su_inbox sub) of
        [] \<Rightarrow> (None, sub)
      | m # q \<Rightarrow> (Some m, sub\<lparr>su_inbox := (su_inbox sub)\<lparr>ib_queue := q\<rparr>\<rparr>))"

record message_info =
  mi_source_timestamp :: u64
  mi_received_timestamp :: u64
  mi_publication_sequence_number :: u64
  mi_reception_sequence_number :: u64
  mi_publisher_gid :: gid
  mi_identifier :: string
  mi_from_intra_process :: bool

definition info_of :: "received_message \<Rightarrow> u64 \<Rightarrow> message_info" where
  "info_of m reception_seq =
     \<lparr>mi_source_timestamp = wh_source_timestamp (rm_header m), mi_received_timestamp = rm_received_timestamp m,
      mi_publication_sequence_number = wh_sequence_number (rm_header m),
      mi_reception_sequence_number = reception_seq, mi_publisher_gid = wh_gid (rm_header m),
      mi_identifier = uds_identifier, mi_from_intra_process = False\<rparr>"

text \<open>\<open>take_out\<close>: the return code, \<open>*taken\<close> if it was written, the message and the info if written.\<close>

record 'x take_out =
  to_ret :: rmw_ret
  to_taken :: "bool option"
  to_message :: "'x option"
  to_info :: "message_info option"

definition take_failed :: "rmw_ret \<Rightarrow> 'x take_out" where
  "take_failed r = \<lparr>to_ret = r, to_taken = None, to_message = None, to_info = None\<rparr>"

definition take_none :: "rmw_ret \<Rightarrow> 'x take_out" where
  "take_none r = \<lparr>to_ret = r, to_taken = Some False, to_message = None, to_info = None\<rparr>"

text \<open>
  The four single-message variants: \<open>decode\<close> is \<open>Inr\<close> the caller's message or \<open>Inl\<close> the error
  code, \<open>want_info\<close> says whether the info is filled in.
\<close>

definition take_message ::
    "(bytes \<Rightarrow> rmw_ret + 'x) \<Rightarrow> bool \<Rightarrow> sys \<Rightarrow> 'm subscription \<Rightarrow> world \<Rightarrow> 'x take_out \<times> 'm subscription \<times> world" where
  "take_message decode want_info sy sub w =
     (let (sub1, w1) = drain_subscription sy sub w in
      case pop_message sub1 of
        (None, sub2) \<Rightarrow> (take_none RMW_RET_OK, sub2, w1)
      | (Some m, sub2) \<Rightarrow>
          (case decode (rm_payload m) of
             Inl r \<Rightarrow> (take_none r, sub2, w1)
           | Inr x \<Rightarrow>
               if want_info
               then (\<lparr>to_ret = RMW_RET_OK, to_taken = Some True, to_message = Some x,
                      to_info = Some (info_of m (su_reception_seq sub2))\<rparr>,
                     sub2\<lparr>su_reception_seq := su_reception_seq sub2 + 1\<rparr>, w1)
               else (\<lparr>to_ret = RMW_RET_OK, to_taken = Some True, to_message = Some x, to_info = None\<rparr>, sub2, w1)))"

definition decode_message :: "'m callbacks \<Rightarrow> bytes \<Rightarrow> rmw_ret + 'm" where
  "decode_message cb bs = (case deserialize cb bs of None \<Rightarrow> Inl RMW_RET_ERROR | Some m \<Rightarrow> Inr m)"

definition decode_serialized :: "(nat \<Rightarrow> rmw_ret) \<Rightarrow> bytes \<Rightarrow> rmw_ret + bytes" where
  "decode_serialized resize bs = (if resize (length bs) \<noteq> RMW_RET_OK then Inl (resize (length bs)) else Inr bs)"

definition rmw_take ::
    "sys \<Rightarrow> 'm subscription handle option \<Rightarrow> bool \<Rightarrow> world \<Rightarrow> 'm take_out \<times> 'm subscription handle option \<times> world" where
  "rmw_take sy h others w =
     with_entity h others take_failed (\<lambda>sub. take_message (decode_message (su_callbacks sub)) False sy sub w) w"

definition rmw_take_with_info ::
    "sys \<Rightarrow> 'm subscription handle option \<Rightarrow> bool \<Rightarrow> world \<Rightarrow> 'm take_out \<times> 'm subscription handle option \<times> world" where
  "rmw_take_with_info sy h others w =
     with_entity h others take_failed (\<lambda>sub. take_message (decode_message (su_callbacks sub)) True sy sub w) w"

definition rmw_take_serialized_message ::
    "sys \<Rightarrow> (nat \<Rightarrow> rmw_ret) \<Rightarrow> 'm subscription handle option \<Rightarrow> bool \<Rightarrow> world \<Rightarrow>
       bytes take_out \<times> 'm subscription handle option \<times> world" where
  "rmw_take_serialized_message sy resize h others w =
     with_entity h others take_failed (\<lambda>sub. take_message (decode_serialized resize) False sy sub w) w"

definition rmw_take_serialized_message_with_info ::
    "sys \<Rightarrow> (nat \<Rightarrow> rmw_ret) \<Rightarrow> 'm subscription handle option \<Rightarrow> bool \<Rightarrow> world \<Rightarrow>
       bytes take_out \<times> 'm subscription handle option \<times> world" where
  "rmw_take_serialized_message_with_info sy resize h others w =
     with_entity h others take_failed (\<lambda>sub. take_message (decode_serialized resize) True sy sub w) w"

text \<open>
  \<open>rmw_take_sequence\<close>: up to \<open>to_take\<close> messages leave the queue; those that decode are written
  contiguously, the others are lost.
\<close>

fun take_many ::
    "nat \<Rightarrow> 'm subscription \<Rightarrow> ('m \<times> message_info) list \<Rightarrow> ('m \<times> message_info) list \<times> 'm subscription" where
  "take_many 0 sub out = (out, sub)"
| "take_many (Suc k) sub out =
     (case pop_message sub of
        (None, sub1) \<Rightarrow> (out, sub1)
      | (Some m, sub1) \<Rightarrow>
          (case deserialize (su_callbacks sub1) (rm_payload m) of
             None \<Rightarrow> take_many k sub1 out
           | Some x \<Rightarrow>
               take_many k (sub1\<lparr>su_reception_seq := su_reception_seq sub1 + 1\<rparr>)
                 (out @ [(x, info_of m (su_reception_seq sub1))])))"

definition take_sequence ::
    "sys \<Rightarrow> nat \<Rightarrow> nat \<Rightarrow> nat \<Rightarrow> 'm subscription \<Rightarrow> world \<Rightarrow>
       (rmw_ret \<times> ('m \<times> message_info) list) \<times> 'm subscription \<times> world" where
  "take_sequence sy count cap info_cap sub w =
     (let (sub1, w1) = drain_subscription sy sub w;
          t0 = count;
          t1 = (if cap < t0 then cap else t0);
          t2 = (if info_cap < t1 then info_cap else t1);
          to_take = (if length (ib_queue (su_inbox sub1)) < t2 then length (ib_queue (su_inbox sub1)) else t2);
          (out, sub2) = take_many to_take sub1 []
      in ((RMW_RET_OK, out), sub2, w1))"

definition rmw_take_sequence ::
    "sys \<Rightarrow> 'm subscription handle option \<Rightarrow> bool \<Rightarrow> nat \<Rightarrow> nat \<Rightarrow> nat \<Rightarrow> world \<Rightarrow>
       (rmw_ret \<times> ('m \<times> message_info) list) \<times> 'm subscription handle option \<times> world" where
  "rmw_take_sequence sy h others count cap info_cap w =
     with_entity h others (\<lambda>r. (r, [])) (\<lambda>sub. take_sequence sy count cap info_cap sub w) w"

section \<open>Other entry points\<close>

definition rmw_subscription_count_matched_publishers ::
    "'m subscription handle option \<Rightarrow> bool \<Rightarrow> world \<Rightarrow> rmw_ret \<times> nat option" where
  "rmw_subscription_count_matched_publishers h out w =
     (case guard_entry h out of
        Inl r \<Rightarrow> (r, None)
      | Inr sub \<Rightarrow> (RMW_RET_OK,
          Some (length (registry_query (wo_reg w) ENTRY_PUBLISHER (Some (su_topic_name sub)) None None))))"

definition rmw_subscription_get_actual_qos ::
    "'m subscription handle option \<Rightarrow> bool \<Rightarrow> rmw_ret \<times> qos_profile option" where
  "rmw_subscription_get_actual_qos h out =
     (case guard_entry h out of Inl r \<Rightarrow> (r, None) | Inr sub \<Rightarrow> (RMW_RET_OK, Some (su_qos sub)))"

definition rmw_subscription_set_content_filter :: rmw_ret where
  "rmw_subscription_set_content_filter = RMW_RET_UNSUPPORTED"

definition rmw_subscription_get_content_filter :: rmw_ret where
  "rmw_subscription_get_content_filter = RMW_RET_UNSUPPORTED"

definition set_on_new_message :: "nat option \<Rightarrow> 'm subscription \<Rightarrow> 'm subscription" where
  "set_on_new_message callback sub =
     (let sub1 = sub\<lparr>su_on_new_message := callback\<rparr>; waiting = length (ib_queue (su_inbox sub1)) in
      case callback of
        None \<Rightarrow> sub1
      | Some user_data \<Rightarrow>
          if waiting \<noteq> 0 then sub1\<lparr>su_calls := su_calls sub1 @ [(user_data, waiting)]\<rparr> else sub1)"

definition rmw_subscription_set_on_new_message_callback ::
    "'m subscription handle option \<Rightarrow> nat option \<Rightarrow> rmw_ret \<times> 'm subscription handle option" where
  "rmw_subscription_set_on_new_message_callback h callback =
     (case h of
        None \<Rightarrow> (RMW_RET_INVALID_ARGUMENT, None)
      | Some x \<Rightarrow> (RMW_RET_OK, Some (x\<lparr>hn_data := set_on_new_message callback (hn_data x)\<rparr>)))"

end
