(* ===== verification/Uds_Inbox_Props.thy ===== *)
theory Uds_Inbox_Props
  imports Uds_Subscription Uds_Transport_Props
begin

text \<open>
  What a drain does to a queue: it appends admissible messages and keeps the newest ones, at
  most as many as the depth, whatever other readers of the socket do meanwhile.
\<close>

definition lastn :: "nat \<Rightarrow> 'a list \<Rightarrow> 'a list" where
  "lastn k xs = drop (length xs - k) xs"

lemma length_lastn [simp]: "length (lastn k xs) = min k (length xs)"
  by (simp add: lastn_def)

lemma lastn_short: "length xs \<le> k \<Longrightarrow> lastn k xs = xs"
  by (simp add: lastn_def)

lemma lastn_append_lastn: "lastn k (lastn k xs @ ys) = lastn k (xs @ ys)"
proof (cases "length xs \<le> k")
  case False
  then have "length (lastn k xs @ ys) - k = length ys" by simp
  then have "lastn k (lastn k xs @ ys) = drop (length ys) (lastn k xs @ ys)" by (simp only: lastn_def)
  also have "\<dots> = drop (length ys + (length xs - k)) (xs @ ys)"
    using False by (cases "length ys \<le> k") (simp_all add: lastn_def add.commute)
  also have "length ys + (length xs - k) = length (xs @ ys) - k" using False by simp
  finally show ?thesis by (simp only: lastn_def)
qed (simp add: lastn_short)

lemma enqueue_lastn: "enqueue k m (lastn k xs) = lastn k (xs @ [m])"
  using lastn_append_lastn[of k xs "[m]"] by (simp add: enqueue_def lastn_def Let_def)

lemma enqueue_is_lastn: "enqueue k m q = lastn k (q @ [m])"
  by (simp add: enqueue_def lastn_def Let_def)

text \<open>The cut of a queue to its depth, if it has one.\<close>

definition kept :: "nat option \<Rightarrow> 'a list \<Rightarrow> 'a list" where
  "kept depth xs = (case depth of None \<Rightarrow> xs | Some k \<Rightarrow> lastn k xs)"

lemma enqueue_within_kept: "enqueue_within depth m q = kept depth (q @ [m])"
  by (simp add: enqueue_within_def kept_def enqueue_is_lastn split: option.splits)

lemma kept_append_kept: "kept depth (kept depth xs @ ys) = kept depth (xs @ ys)"
  by (simp add: kept_def lastn_append_lastn split: option.splits)

text \<open>The headers a queue may receive: right kind, flag cleared, above the watermark, not unwanted.\<close>

definition admissible :: "drain_cfg \<Rightarrow> (gid \<rightharpoonup> u64) \<Rightarrow> wire_header \<Rightarrow> bool" where
  "admissible cfg marks h \<longleftrightarrow>
     wh_msg_type h = dc_msg_type cfg \<and>
     (dc_dedup cfg \<longrightarrow> (\<forall>mark. marks (wh_gid h) = Some mark \<longrightarrow> sint mark < sint (wh_sequence_number h))) \<and>
     (dc_ignore_local cfg \<longrightarrow> \<not> is_same_context h (dc_context_id cfg))"

lemma resolve_header:
  assumes "shm_resolve_incoming env fs d cache hdr payload = (Some (h, p), cache')"
  shows "wh_gid h = wh_gid hdr" "wh_sequence_number h = wh_sequence_number hdr"
    "wh_msg_type h = wh_msg_type hdr AND NOT SHM_PAYLOAD_FLAG"
proof -
  have t: "t AND NOT SHM_PAYLOAD_FLAG = t" if "t AND SHM_PAYLOAD_FLAG = 0" for t :: u8
    using flag_bits(2)[OF that] that by (auto simp: bit_eq_iff bit_simps)
  show "wh_gid h = wh_gid hdr" "wh_sequence_number h = wh_sequence_number hdr"
    "wh_msg_type h = wh_msg_type hdr AND NOT SHM_PAYLOAD_FLAG"
    using assms t by (auto simp: shm_resolve_incoming_def split: if_splits option.splits prod.splits)
qed

lemma deliver_cases:
  assumes "deliver env fs cfg now msg ib = (ib', queued)"
  shows "ib_watermarks ib' = ib_watermarks ib"
    "\<not> queued \<Longrightarrow> ib_queue ib' = ib_queue ib"
    "queued \<Longrightarrow> \<exists>m. admissible cfg (ib_watermarks ib) (rm_header m) \<and> ib_queue ib' = enqueue_within (dc_depth cfg) m (ib_queue ib)"
proof -
  obtain hdr payload where m: "msg = (hdr, payload)" by (cases msg)
  obtain r cache where r: "shm_resolve_incoming env fs (dc_domain_id cfg) (ib_cache ib) hdr payload = (r, cache)"
    by fastforce
  show "ib_watermarks ib' = ib_watermarks ib" "\<not> queued \<Longrightarrow> ib_queue ib' = ib_queue ib"
    using assms by (auto simp: deliver_def m r Let_def split: if_splits option.splits prod.splits)
  assume queued
  then obtain h p where h: "r = Some (h, p)" "wh_msg_type hdr AND NOT SHM_PAYLOAD_FLAG = dc_msg_type cfg"
    "\<not> (dc_dedup cfg \<and> is_replayed_duplicate ib hdr)" "\<not> (dc_ignore_local cfg \<and> is_same_context h (dc_context_id cfg))"
    "ib_queue ib' = enqueue_within (dc_depth cfg) \<lparr>rm_header = h, rm_payload = p, rm_received_timestamp = now\<rparr> (ib_queue ib)"
    using assms by (auto simp: deliver_def m r Let_def split: if_splits option.splits prod.splits)
  moreover have "admissible cfg (ib_watermarks ib) h"
    using h(2-4) resolve_header[OF r[unfolded h(1)]]
    by (auto simp: admissible_def is_replayed_duplicate_def split: option.splits)
  ultimately show "\<exists>m. admissible cfg (ib_watermarks ib) (rm_header m) \<and> ib_queue ib' = enqueue_within (dc_depth cfg) m (ib_queue ib)"
    by (metis received_message.select_convs(1))
qed

lemma recv_loop_drained:
  "recv_loop rs buf q = (None, q', buf') \<Longrightarrow> rs = [] \<Longrightarrow> q' = []"
  by (induction rs buf q rule: recv_loop.induct) (auto simp: Let_def split: if_splits)

lemma drain_loop_sound:
  "drain_loop env fs cfg now rss buf q ib = (ib', q', buf', n) \<Longrightarrow>
   \<exists>ms. length ms = n \<and> (\<forall>m\<in>set ms. admissible cfg (ib_watermarks ib) (rm_header m)) \<and>
     ib_queue ib' = (if ms = [] then ib_queue ib else kept (dc_depth cfg) (ib_queue ib @ ms)) \<and>
     ib_watermarks ib' = ib_watermarks ib \<and> (rss = [] \<longrightarrow> q' = [])"
proof (induction env fs cfg now rss buf q ib arbitrary: ib' q' buf' n rule: drain_loop.induct)
  case (1 env fs cfg now rss buf q ib)
  obtain r q1 buf1 where r: "recv_loop (case rss of [] \<Rightarrow> [] | rs # _ \<Rightarrow> rs) buf q = (r, q1, buf1)"
    using prod_cases3 by blast
  show ?case
  proof (cases r)
    case None
    have res: "ib' = ib" "q' = q1" "n = 0"
      using "1.prems" r None by (simp_all add: drain_loop.simps[of env fs cfg now rss])
    show ?thesis
      using r[unfolded None] by (intro exI[of _ "[]"]) (auto simp: res dest: recv_loop_drained)
  next
    case (Some m)
    obtain ib1 queued where d: "deliver env fs cfg now m ib = (ib1, queued)" by fastforce
    obtain ib2 q2 buf2 k where l: "drain_loop env fs cfg now (tl rss) buf1 q1 ib1 = (ib2, q2, buf2, k)"
      using prod_cases4 by metis
    have res: "ib' = ib2" "q' = q2" "n = (if queued then Suc k else k)"
      using "1.prems" r Some d l by (simp_all add: drain_loop.simps[of env fs cfg now rss])
    note dc = deliver_cases[OF d]
    obtain ms where ms: "length ms = k" "\<forall>m\<in>set ms. admissible cfg (ib_watermarks ib1) (rm_header m)"
      "ib_queue ib2 = (if ms = [] then ib_queue ib1 else kept (dc_depth cfg) (ib_queue ib1 @ ms))"
      "ib_watermarks ib2 = ib_watermarks ib1" "tl rss = [] \<longrightarrow> q2 = []"
      using "1.IH"[OF r[symmetric] Some refl d[symmetric] l] by blast
    show ?thesis
    proof (cases queued)
      case False
      then show ?thesis using ms dc by (intro exI[of _ ms]) (simp add: res)
    next
      case True
      then obtain x where x: "admissible cfg (ib_watermarks ib) (rm_header x)"
        "ib_queue ib1 = enqueue_within (dc_depth cfg) x (ib_queue ib)" using dc(3) by blast
      have "ib_queue ib2 = kept (dc_depth cfg) (ib_queue ib @ x # ms)"
        using kept_append_kept[of "dc_depth cfg" "ib_queue ib @ [x]" ms]
        by (simp add: ms(3) x(2) enqueue_within_kept split: if_splits)
      then show ?thesis using ms x(1) dc(1) True by (intro exI[of _ "x # ms"]) (simp add: res)
    qed
  qed
qed


end
