(* ===== verification/Uds_Pubsub_Props.thy ===== *)
theory Uds_Pubsub_Props
  imports Uds_Publisher_Props Uds_Inbox_Props
begin

text \<open>
  Publisher and subscriber together: the message taken is the message published.
\<close>

section \<open>Fan-out and a single receive\<close>

definition net_up :: "net_env \<Rightarrow> bool" where
  "net_up env \<longleftrightarrow> (\<forall>a n. ne_send_error env a n = None)"

definition copies :: "net \<Rightarrow> string list \<Rightarrow> nat \<Rightarrow> nat" where
  "copies net paths sock = length (filter (\<lambda>p. nt_bound net (sun_path p) = Some sock) paths)"

lemma fan_out_up:
  assumes "net_up env"
  shows "fst (fan_out env hdr p paths net) = False \<and>
    nt_bound (snd (fan_out env hdr p paths net)) = nt_bound net \<and>
    nt_queue (snd (fan_out env hdr p paths net)) sock =
      nt_queue net sock @ replicate (copies net paths sock) (header_bytes hdr @ p)"
proof (induction paths arbitrary: net)
  case (Cons x paths)
  show ?case
  proof (cases "nt_bound net (sun_path x)")
    case None
    then show ?thesis
      using Cons[of net] by (auto simp: send_to_def classify_errno_def copies_def split: prod.splits)
  next
    case (Some s)
    let ?net = "net\<lparr>nt_queue := (nt_queue net)(s := nt_queue net s @ [header_bytes hdr @ p])\<rparr>"
    have "send_to env net x hdr p = (Send_Ok, ?net)"
      using assms Some by (simp add: send_to_def net_up_def Let_def)
    moreover have "copies ?net paths sock = copies net paths sock" by (simp add: copies_def)
    ultimately show ?thesis
      using Cons[of ?net] Some by (auto simp: copies_def replicate_append_same split: prod.splits)
  qed
qed (simp add: copies_def)

lemma drain_loop_single:
  assumes "wf_header h" "unat (wh_payload_size h) = length p"
  shows "\<exists>buf'. drain_loop env fs cfg now [] buf [header_bytes h @ p] ib =
    (fst (deliver env fs cfg now (h, p) ib), [], buf', if snd (deliver env fs cfg now (h, p) ib) then 1 else 0)"
proof -
  have l: "37 \<le> length (header_bytes h @ p)" using length_header_bytes[OF assms(1)] by (simp add: sizeof_WireHeader_def)
  have r: "recv_loop [] buf [header_bytes h @ p] = (Some (h, p), [], max buf (length (header_bytes h @ p)))"
    using l by (auto simp: Let_def sizeof_WireHeader_def take_payload_datagram[OF assms])
  have "drain_loop env fs cfg now [] buf1 [] ib1 = (ib1, [], buf1, 0)" for buf1 ib1
    by (simp add: drain_loop.simps[of env fs cfg now "[]" buf1 "[]" ib1])
  then show ?thesis
    by (auto simp: drain_loop.simps[of env fs cfg now "[]" buf "[header_bytes h @ p]" ib] r
        simp del: recv_loop.simps split: prod.splits)
qed

section \<open>What the receiver makes of a prepared message\<close>

lemma prepare_send_pid:
  assumes "shm_serialize_prepare_send env alloc d cb msg hdr s = (out, s')" "pid_ok env (ss_ring s)"
  shows "pid_ok env (ss_ring s')"
proof -
  obtain dst fs1 c1 ring1 where r: "shm_stage_reserve env d (the (serialized_size cb msg)) (ss_fs s) (ss_ctr s) (ss_ring s) = (dst, fs1, c1, ring1)"
    using prod_cases4 by metis
  have p: "pid_ok env ring1" by (rule reserve_pid[OF r assms(2)])
  have k: "pid_ok env (ss_ring t)" if "serialize_reserved cb msg est dst' \<lparr>ss_fs = fs1, ss_ctr = c1, ss_ring = ring1\<rparr> = (x, t)" for est dst' x t
    using that p
    by (auto simp: serialize_reserved_def shm_stage_commit_def shm_stage_abort_def pid_ok_def Let_def
        split: sum.splits option.splits if_splits prod.splits)
  show ?thesis
    using assms r p k
    by (auto simp: shm_serialize_prepare_send_def split: option.splits if_splits prod.splits)
qed

lemma sent_resolves:
  assumes "callbacks_ok cb" "wh_msg_type hdr AND SHM_PAYLOAD_FLAG = 0" "wf_header hdr"
    and "shm_serialize_prepare_send env alloc d cb msg hdr s = (Some (wire, hdr'), s')"
    and "ring_ok d (ss_fs s) (ss_ring s)" "page_ok env" "pid_ok env (ss_ring s)"
    and "cb_size cb msg = Some n" "4 + n \<le> UINT32_MAX" "cache_agrees d (ss_fs s') cache"
  shows "wf_header hdr' \<and> unat (wh_payload_size hdr') = length wire \<and>
    wh_msg_type hdr' AND NOT SHM_PAYLOAD_FLAG = wh_msg_type hdr \<and>
    wh_gid hdr' = wh_gid hdr \<and> wh_sequence_number hdr' = wh_sequence_number hdr \<and>
    (\<exists>bs cache'. shm_resolve_incoming reader_up (ss_fs s') d cache hdr' wire =
       (Some (hdr\<lparr>wh_payload_size := of_nat (length bs)\<rparr>, bs), cache') \<and> cb_read cb bs = Some msg)"
proof -
  have pid: "rw_owner_pid (ss_ring s') < 2 ^ 31" using prepare_send_pid[OF assms(4,7)] by (simp add: pid_ok_def)
  have "\<exists>bs. cb_read cb bs = Some msg \<and> length bs \<le> 4 + n \<and>
      ((wire = bs \<and> hdr' = hdr\<lparr>wh_payload_size := of_nat (length bs)\<rparr>) \<or>
       (hdr' = flag_header hdr \<and> length wire = sizeof_desc \<and>
        (\<exists>cache'. shm_fetch_payload reader_up (ss_fs s') d cache wire = (Some bs, cache'))))"
    using prepare_send_cases(2)[OF assms(1,2,4-8), THEN conjunct2, THEN spec, THEN spec, THEN mp, OF refl] pid assms(10)
    by blast
  then obtain bs where bs: "cb_read cb bs = Some msg" "length bs \<le> 4 + n"
    "(wire = bs \<and> hdr' = hdr\<lparr>wh_payload_size := of_nat (length bs)\<rparr>) \<or>
       (hdr' = flag_header hdr \<and> length wire = sizeof_desc \<and>
        (\<exists>cache'. shm_fetch_payload reader_up (ss_fs s') d cache wire = (Some bs, cache')))" by blast
  have t: "wh_msg_type hdr AND NOT SHM_PAYLOAD_FLAG = wh_msg_type hdr"
    using flag_bits(2)[OF assms(2)] assms(2) by (auto simp: bit_eq_iff bit_simps)
  from bs(3) show ?thesis
  proof (elim disjE conjE exE)
    assume w: "wire = bs" "hdr' = hdr\<lparr>wh_payload_size := of_nat (length bs)\<rparr>"
    have "length bs \<le> UINT32_MAX" using bs(2) assms(9) by simp
    then show ?thesis
      using bs(1) w assms(2,3) t by (simp add: unat_of_nat_small32 wf_header_def shm_resolve_incoming_def)
  next
    fix cache' assume w: "hdr' = flag_header hdr" "length wire = sizeof_desc"
      "shm_fetch_payload reader_up (ss_fs s') d cache wire = (Some bs, cache')"
    show ?thesis
      using resolve_flagged[OF assms(2) w(3)] bs(1) w(1,2) assms(3) flag_bits(2)[OF assms(2)]
      by (auto simp: flag_header_def wf_header_def sizeof_desc_def)
  qed
qed

section \<open>End to end\<close>

definition ready_subscriber :: "'m publisher \<Rightarrow> 'm subscription \<Rightarrow> world \<Rightarrow> bool" where
  "ready_subscriber pub sub w \<longleftrightarrow>
     su_callbacks sub = pb_callbacks pub \<and> cx_domain_id (su_context sub) = cx_domain_id (pb_context pub) \<and>
     copies (wo_net w) (sub_view (pb_topic_name pub) (wo_reg w)) (su_socket sub) = 1 \<and>
     nt_queue (wo_net w) (su_socket sub) = [] \<and> ib_queue (su_inbox sub) = [] \<and> 0 < su_queue_depth sub \<and>
     ib_watermarks (su_inbox sub) (pb_gid pub) = None \<and>
     (su_ignore_local sub \<longrightarrow> dec64 (take 8 (drop 8 (pb_gid pub))) \<noteq> cx_context_id (su_context sub))"

definition the_handle :: "'d \<Rightarrow> 'd handle option" where
  "the_handle d = Some \<lparr>hn_identifier = uds_identifier, hn_data = d\<rparr>"

lemma publish_volatile:
  assumes "q_durability (pb_qos pub) \<noteq> DURABILITY_TRANSIENT_LOCAL" "cache_coherent pub (wo_reg w)" "net_up (sy_net sy)"
    and "shm_serialize_prepare_send (sy_shm sy) (sy_alloc sy) (cx_domain_id (pb_context pub)) (pb_callbacks pub) msg
       ((topic_header sy pub)\<lparr>wh_sequence_number := pb_sequence_number pub\<rparr>)
       \<lparr>ss_fs = wo_fs w, ss_ctr = wo_owner_ctr w, ss_ring = pb_shm_ring pub\<rparr> = (Some (wire, hdr), s)"
    and "publish sy pub msg w = (ret, pub', w')"
  shows "ret = RMW_RET_OK \<and> wo_fs w' = ss_fs s \<and> wo_reg w' = wo_reg w \<and> nt_bound (wo_net w') = nt_bound (wo_net w) \<and>
    nt_queue (wo_net w') sock = nt_queue (wo_net w) sock @
      replicate (copies (wo_net w) (sub_view (pb_topic_name pub) (wo_reg w)) sock) (header_bytes hdr @ wire)"
proof -
  let ?pub1 = "pub\<lparr>pb_sequence_number := pb_sequence_number pub + 1\<rparr>"
  obtain paths pub2 where r: "refresh_sub_paths (wo_reg w) (registry_generation (wo_reg w)) ?pub1 = (paths, pub2)" by fastforce
  note m = refresh_is_memo[OF r]
  have v: "eff_paths paths = sub_view (pb_topic_name pub) (wo_reg w)"
    using sub_paths.refresh_now[OF assms(2)[unfolded cache_coherent_def]] m(1,2) by simp
  have ring: "pb_shm_ring pub2 = pb_shm_ring pub" using arg_cong[OF m(3), of pb_shm_ring] by simp
  have p: "publish_side pub2 w = \<lparr>ss_fs = wo_fs w, ss_ctr = wo_owner_ctr w, ss_ring = pb_shm_ring pub\<rparr>"
    by (simp add: publish_side_def ring)
  show ?thesis
    using assms(1,4,5) fan_out_up[OF assms(3), of hdr wire "eff_paths paths" "wo_net w" sock]
    by (auto simp: publish_def Let_def refresh_in_def r p send_all_def set_side_def v[symmetric] eff_paths_def split: prod.splits)
qed

text \<open>
  C6: what is published is taken. When a publisher without durability publishes a message of
  any size the wire format can describe, every subscriber ready for it (registered once under
  a bound path, empty, of the same domain and type, not filtering it) that takes next gets
  exactly that message, with the publisher's id and sequence number and both timestamps, and
  its socket is empty again. The publisher's list of paths may be stale before the call.
\<close>

theorem published_message_is_taken:
  assumes "q_durability (pb_qos pub) \<noteq> DURABILITY_TRANSIENT_LOCAL" "cache_coherent pub (wo_reg w)" "length (pb_gid pub) = 16"
    and "callbacks_ok (pb_callbacks pub)" "cb_size (pb_callbacks pub) msg = Some n" "4 + n \<le> UINT32_MAX" "sy_alloc sy (4 + n)"
    and "ring_ok (cx_domain_id (pb_context pub)) (wo_fs w) (pb_shm_ring pub)" "page_ok (sy_shm sy)" "pid_ok (sy_shm sy) (pb_shm_ring pub)"
    and "net_up (sy_net sy)" "ready_subscriber pub sub w"
    and "rmw_publish sy (the_handle pub) (Some msg) w = (ret, h', w1)"
    and "sy_reader sy2 = reader_up" "sy_rounds sy2 = []"
      "cache_agrees (cx_domain_id (pb_context pub)) (wo_fs w1) (ib_cache (su_inbox sub))"
    and "rmw_take_with_info sy2 (the_handle sub) True w1 = (out, h2, w2)"
  shows "ret = RMW_RET_OK \<and> nt_queue (wo_net w2) (su_socket sub) = [] \<and>
    out = \<lparr>to_ret = RMW_RET_OK, to_taken = Some True, to_message = Some msg,
      to_info = Some \<lparr>mi_source_timestamp = sy_now_ns sy, mi_received_timestamp = sy_now_ns sy2,
        mi_publication_sequence_number = pb_sequence_number pub, mi_reception_sequence_number = su_reception_seq sub,
        mi_publisher_gid = pb_gid pub, mi_identifier = uds_identifier, mi_from_intra_process = False\<rparr>\<rparr>"
proof -
  let ?d = "cx_domain_id (pb_context pub)"
  let ?h = "(topic_header sy pub)\<lparr>wh_sequence_number := pb_sequence_number pub\<rparr>"
  let ?s = "\<lparr>ss_fs = wo_fs w, ss_ctr = wo_owner_ctr w, ss_ring = pb_shm_ring pub\<rparr>"
  have h: "wh_msg_type ?h = 0" "wh_gid ?h = pb_gid pub" "wh_sequence_number ?h = pb_sequence_number pub"
    "wh_source_timestamp ?h = sy_now_ns sy" by (simp_all add: topic_header_def uds_defs)
  have t: "wh_msg_type ?h AND SHM_PAYLOAD_FLAG = 0" and wf: "wf_header ?h" using h assms(3) by (simp_all add: wf_header_def)
  obtain out1 s where prep: "shm_serialize_prepare_send (sy_shm sy) (sy_alloc sy) ?d (pb_callbacks pub) msg ?h ?s = (out1, s)"
    by fastforce
  have ok: "ring_ok ?d (ss_fs ?s) (ss_ring ?s)" "pid_ok (sy_shm sy) (ss_ring ?s)" using assms(8,10) by simp_all
  have "out1 \<noteq> None" using prepare_send_cases(2)[OF assms(4) t prep ok(1) assms(9) ok(2) assms(5)] assms(7) by blast
  then obtain wire hdr where out1: "out1 = Some (wire, hdr)" by (metis option.exhaust prod.exhaust)
  obtain ret0 pub0 w0 where p0: "publish sy pub msg w = (ret0, pub0, w0)" using prod_cases3 by blast
  have eqs: "ret = ret0" "w1 = w0" using assms(13) p0 by (simp_all add: rmw_publish_def with_entity_def the_handle_def)
  note rd = assms(12)[unfolded ready_subscriber_def]
  have pv: "ret = RMW_RET_OK" "wo_fs w1 = ss_fs s" "nt_queue (wo_net w1) (su_socket sub) = [header_bytes hdr @ wire]"
    using publish_volatile[OF assms(1,2,11) prep[unfolded out1] p0, of "su_socket sub"] rd by (simp_all add: eqs)
  note sr = sent_resolves[OF assms(4) t wf prep[unfolded out1] ok(1) assms(9) ok(2) assms(5,6), of "ib_cache (su_inbox sub)"]
  obtain bs cache' where b: "shm_resolve_incoming reader_up (wo_fs w1) ?d (ib_cache (su_inbox sub)) hdr wire =
      (Some (?h\<lparr>wh_payload_size := of_nat (length bs)\<rparr>, bs), cache')" "cb_read (pb_callbacks pub) bs = Some msg"
    using sr assms(16) pv(2) by auto
  have hd: "wf_header hdr" "unat (wh_payload_size hdr) = length wire" "wh_msg_type hdr AND NOT SHM_PAYLOAD_FLAG = 0"
    "wh_gid hdr = pb_gid pub" using sr assms(16) pv(2) h by simp_all
  let ?m = "\<lparr>rm_header = ?h\<lparr>wh_payload_size := of_nat (length bs)\<rparr>, rm_payload = bs, rm_received_timestamp = sy_now_ns sy2\<rparr>"
  have dl: "deliver reader_up (wo_fs w1) (sub_cfg sub) (sy_now_ns sy2) (hdr, wire) (su_inbox sub) =
      ((su_inbox sub)\<lparr>ib_cache := cache', ib_queue := [?m]\<rparr>, True)"
    using rd hd b(1)
    by (simp add: deliver_def sub_cfg_def uds_defs is_replayed_duplicate_def Let_def enqueue_def enqueue_within_def is_same_context_def h(2)[simplified])
  obtain buf' where "drain_loop reader_up (wo_fs w1) (sub_cfg sub) (sy_now_ns sy2) [] (wo_recv_buf w1) [header_bytes hdr @ wire] (su_inbox sub)
      = ((su_inbox sub)\<lparr>ib_cache := cache', ib_queue := [?m]\<rparr>, [], buf', 1)"
    using drain_loop_single[OF hd(1,2), of reader_up "wo_fs w1" "sub_cfg sub" "sy_now_ns sy2" "wo_recv_buf w1" "su_inbox sub"]
    by (auto simp: dl)
  then show ?thesis
    using assms(17) pv rd b(2) h
    by (auto simp: rmw_take_with_info_def with_entity_def the_handle_def take_message_def drain_subscription_def drain_def
        assms(14,15) pop_message_def decode_message_def deserialize_def info_of_def)
qed

section \<open>A small world\<close>

definition ctx0 :: uds_context where "ctx0 = \<lparr>cx_domain_id = 0, cx_context_id = 1\<rparr>"

definition sys0 :: sys where
  "sys0 = \<lparr>sy_shm = env0, sy_reader = reader_up,
     sy_net = \<lparr>ne_socket_ok = True, ne_bind_ok = True, ne_send_error = (\<lambda>_ _. None)\<rparr>, sy_ring = example_env,
     sy_proc = (\<lambda>_. Proc_present), sy_alloc = (\<lambda>_. True), sy_new_ok = True, sy_handle_ok = True, sy_latch_ok = True,
     sy_now_ns = 7, sy_look = still, sy_rounds = []\<rparr>"

definition slot0 :: slot where
  "slot0 = \<lparr>sl_seq = 2, sl_state = ENTRY_SUBSCRIPTION, sl_payload = zero_payload\<lparr>pl_topic_name := ''/t'', pl_socket_path := ''/s''\<rparr>\<rparr>"

definition reg0 :: registry where
  "reg0 = \<lparr>rg_slots = [slot0], rg_generation = 1, rg_high_water = 1\<rparr>"

definition world0 :: world where
  "world0 = \<lparr>wo_reg = reg0, wo_fs = empty_fs, wo_net = \<lparr>nt_bound = [''/s'' \<mapsto> 0], nt_queue = (\<lambda>_. []), nt_next = 1\<rparr>,
     wo_owner_ctr = 1, wo_gid_ctr = 1, wo_path_ctr = 1, wo_uid_ctr = 1, wo_recv_buf = 0\<rparr>"

definition pub0 :: "bytes publisher" where
  "pub0 = new_publisher ctx0 (replicate 16 3) ''/t'' bytes_callbacks zero_qos"

definition sub0 :: "bytes subscription" where
  "sub0 = new_subscription ctx0 1 (replicate 16 4) ''/t'' bytes_callbacks zero_qos None ''/s''"

lemma wf_reg0: "wf_registry reg0"
  by (simp add: wf_registry_def reg0_def slot0_def wf_slot_def max_entries_def uds_defs)

lemma entries_reg0: "entries reg0 = [0 \<mapsto> \<lparr>en_type = ENTRY_SUBSCRIPTION, en_payload = sl_payload slot0\<rparr>]"
  by (auto simp: fun_eq_iff entries_def slot_entry_def occupied_def reg0_def slot0_def max_entries_def uds_defs)

lemma sub_view_reg0: "sub_view ''/t'' reg0 = [''/s'']"
  unfolding sub_view_def subscriber_paths_def registry_query_spec[OF wf_reg0] query_spec_def entries_reg0
  by (simp add: max_entries_def reg0_def List.map_filter_simps entry_matches_def matches_def entry_result_def to_result_def slot0_def uds_defs)

lemma coherent0: "cache_coherent pub0 reg0"
  by (simp add: cache_coherent_def memo_coherent_def registry_generation_def reg0_def pub0_def new_publisher_def)

lemma ready0: "ready_subscriber pub0 sub0 world0"
  by (simp add: ready_subscriber_def pub0_def sub0_def new_publisher_def new_subscription_def Let_def new_inbox_def
      world0_def sub_view_reg0 copies_def sun_path_def resolve_qos_def zero_qos_def policy_defs)

theorem published_message_is_taken_witness:
  "to_message (fst (rmw_take_with_info sys0 (the_handle sub0) True
      (snd (snd (rmw_publish sys0 (the_handle pub0) (Some [1, 2]) world0))))) = Some [1, 2]"
proof -
  obtain ret h' w1 where p: "rmw_publish sys0 (the_handle pub0) (Some [1, 2]) world0 = (ret, h', w1)"
    using prod_cases3 by blast
  obtain out h2 w2 where t: "rmw_take_with_info sys0 (the_handle sub0) True w1 = (out, h2, w2)"
    using prod_cases3 by blast
  have q: "q_durability (pb_qos pub0) \<noteq> DURABILITY_TRANSIENT_LOCAL" "length (pb_gid pub0) = 16"
    "callbacks_ok (pb_callbacks pub0)" "cb_size (pb_callbacks pub0) [1, 2] = Some 2"
    "ring_ok (cx_domain_id (pb_context pub0)) (wo_fs world0) (pb_shm_ring pub0)" "pid_ok (sy_shm sys0) (pb_shm_ring pub0)"
    "page_ok (sy_shm sys0)" "net_up (sy_net sys0)" "sy_alloc sys0 (4 + 2)" "sy_reader sys0 = reader_up" "sy_rounds sys0 = []"
    using bytes_callbacks_ok env0_ok
    by (simp_all add: pub0_def new_publisher_def resolve_qos_def zero_qos_def policy_defs bytes_callbacks_def
        world0_def sys0_def net_up_def)
  have "cache_agrees (cx_domain_id (pb_context pub0)) (wo_fs w1) (ib_cache (su_inbox sub0))"
    by (simp add: cache_agrees_def sub0_def new_subscription_def Let_def new_inbox_def)
  moreover have "4 + 2 \<le> UINT32_MAX" by (simp add: uds_defs)
  moreover have "cache_coherent pub0 (wo_reg world0)" using coherent0 by (simp add: world0_def)
  ultimately show ?thesis
    using published_message_is_taken[OF q(1) _ q(2-4) _ q(9,5,7,6,8) ready0 p q(10,11) _ t] by (simp add: p t)
qed

text \<open>The same world serves the other properties.\<close>

theorem refresh_covers_generation_witness:
  "eff_paths (fst (refresh_sub_paths reg0 (registry_generation reg0) pub0)) = [''/s'']"
proof -
  obtain paths pub' where r: "refresh_sub_paths reg0 (registry_generation reg0) pub0 = (paths, pub')" by fastforce
  have "pb_topic_name pub0 = ''/t''" by (simp add: pub0_def new_publisher_def)
  then show ?thesis
    using refresh_covers_generation[OF coherent0 wf_reg0 rtranclp.rtrancl_refl rtranclp.rtrancl_refl r]
    by (simp add: r sub_view_reg0)
qed


end
