(* ===== verification/Uds_Late_Join.thy ===== *)
theory Uds_Late_Join
  imports Uds_Pubsub_Props
begin

text \<open>
  A late joiner of a TRANSIENT_LOCAL topic, concurrently with the publisher. The publisher's
  latch, its refresh of the subscriber list and its fan-out are separate steps, and so are the
  joiner's registration, its pull and its drains; other endpoints come and go in between.
  The theorem at the end says that every sample reaches the joiner exactly once and in order.
\<close>

section \<open>The protocol as a step relation\<close>

datatype phase =
    Idle
  | Latched latch_out bytes
  | Refreshed latch_out bytes "string list option"

record 'm join =
  jo_world :: world
  jo_pub :: "'m publisher"
  jo_phase :: phase
  jo_sub :: "'m subscription option"
  jo_replayed :: bool
  jo_hist :: "(wire_header \<times> bytes) list"   \<comment> \<open>the samples latched so far\<close>

text \<open>The system's answers in these steps: nothing fails and nobody else reads the sockets.\<close>

definition calm :: "sys \<Rightarrow> bool" where
  "calm sy \<longleftrightarrow> sy_reader sy = reader_up \<and> sy_look sy = still \<and> sy_rounds sy = [] \<and> net_up (sy_net sy) \<and> sy_latch_ok sy"

definition phase_paths :: "phase \<Rightarrow> string list" where
  "phase_paths ph = (case ph of Refreshed _ _ paths \<Rightarrow> eff_paths paths | _ \<Rightarrow> [])"

text \<open>
  The path of a new socket is unused: no path on the publisher's lists or in the registry's
  entries for the topic addresses it, and the registry has room.
\<close>

definition fresh_socket :: "string \<Rightarrow> 'm join \<Rightarrow> bool" where
  "fresh_socket path s \<longleftrightarrow>
     (\<forall>p \<in> set (sub_view (pb_topic_name (jo_pub s)) (wo_reg (jo_world s))) \<union> set (phase_paths (jo_phase s)).
        sun_path p \<noteq> sun_path path) \<and>
     first_free (max_entries (wo_reg (jo_world s))) (entries (wo_reg (jo_world s))) \<noteq> None \<and>
     unat (rg_generation (wo_reg (jo_world s))) + 2 ^ 31 < 2 ^ 64"

inductive join_step :: "'m join \<Rightarrow> 'm join \<Rightarrow> bool" where
  latch: "jo_phase s = Idle \<Longrightarrow> calm sy \<Longrightarrow> length payload \<le> TL_EMBED_CAP \<Longrightarrow> Suc (length (jo_hist s)) < 2 ^ 31 \<Longrightarrow>
    tl_latch sy (jo_pub s) ((topic_header sy (jo_pub s))\<lparr>wh_payload_size := of_nat (length payload)\<rparr>) payload None (jo_world s)
      = (lo, pub', w') \<Longrightarrow>
    join_step s (s\<lparr>jo_world := w', jo_pub := pub', jo_phase := Latched lo payload,
      jo_hist := jo_hist s @ [(lo_header lo, payload)]\<rparr>)"
| refresh: "jo_phase s = Latched lo payload \<Longrightarrow> refresh_in (jo_pub s) (jo_world s) = (paths, pub') \<Longrightarrow>
    join_step s (s\<lparr>jo_pub := pub', jo_phase := Refreshed lo payload paths\<rparr>)"
| send: "jo_phase s = Refreshed lo payload paths \<Longrightarrow> calm sy \<Longrightarrow> tl_wire lo payload None = (hdr, wire) \<Longrightarrow>
    send_all sy hdr wire paths (jo_world s) = (ret, w') \<Longrightarrow>
    join_step s (s\<lparr>jo_world := w'\<lparr>wo_fs := durable_close (wo_fs w') (lo_evicted lo)\<rparr>, jo_phase := Idle\<rparr>)"
| register: "jo_sub s = None \<Longrightarrow> q_durability qos = DURABILITY_TRANSIENT_LOCAL \<Longrightarrow>
    register_subscription sy node cb (pb_topic_name (jo_pub s)) qos None (jo_world s) = (Some sub, w') \<Longrightarrow>
    fresh_socket (su_socket_path sub) s \<Longrightarrow>
    join_step s (s\<lparr>jo_world := w', jo_sub := Some sub\<rparr>)"
| replay: "jo_sub s = Some sub \<Longrightarrow> \<not> jo_replayed s \<Longrightarrow> calm sy \<Longrightarrow>
    join_step s (s\<lparr>jo_sub := Some (replay sy (jo_world s) sub), jo_replayed := True\<rparr>)"
| drain: "jo_sub s = Some sub \<Longrightarrow> jo_replayed s \<Longrightarrow> calm sy \<Longrightarrow>
    drain_subscription sy sub (jo_world s) = (sub', w') \<Longrightarrow>
    join_step s (s\<lparr>jo_sub := Some sub', jo_world := w'\<rparr>)"
| others: "reg_step (wo_reg (jo_world s)) r' \<Longrightarrow>
    registry_query r' ENTRY_PUBLISHER (Some (pb_topic_name (jo_pub s))) None None =
      registry_query (wo_reg (jo_world s)) ENTRY_PUBLISHER (Some (pb_topic_name (jo_pub s))) None None \<Longrightarrow>
    sub_view (pb_topic_name (jo_pub s)) r' = sub_view (pb_topic_name (jo_pub s)) (wo_reg (jo_world s)) \<Longrightarrow>
    join_step s (s\<lparr>jo_world := (jo_world s)\<lparr>wo_reg := r'\<rparr>\<rparr>)"

section \<open>Samples\<close>

text \<open>The \<open>k\<close>-th sample carries sequence number \<open>k + 1\<close> and the publisher's id, inline.\<close>

definition good_sample :: "gid \<Rightarrow> nat \<Rightarrow> wire_header \<times> bytes \<Rightarrow> bool" where
  "good_sample gid k x \<longleftrightarrow> wh_gid (fst x) = gid \<and> wh_sequence_number (fst x) = of_nat (Suc k) \<and>
     wh_msg_type (fst x) = 0 \<and> unat (wh_payload_size (fst x)) = length (snd x) \<and> length (snd x) \<le> TL_EMBED_CAP"

definition good_hist :: "gid \<Rightarrow> (wire_header \<times> bytes) list \<Rightarrow> bool" where
  "good_hist gid hist \<longleftrightarrow> length gid = 16 \<and> length hist < 2 ^ 31 \<and> (\<forall>k < length hist. good_sample gid k (hist ! k))"

definition dgram :: "wire_header \<times> bytes \<Rightarrow> bytes" where
  "dgram x = header_bytes (fst x) @ snd x"

abbreviation msgs :: "received_message list \<Rightarrow> (wire_header \<times> bytes) list" where
  "msgs q \<equiv> map (\<lambda>m. (rm_header m, rm_payload m)) q"

lemma lastn_map: "lastn k (map f xs) = map f (lastn k xs)"
  by (simp add: lastn_def drop_map)

lemma sint_small: "n < 2 ^ 63 \<Longrightarrow> sint (of_nat n :: u64) = int n"
  by (subst signed_of_nat, subst signed_take_bit_int_eq_self) simp_all

lemma good_sample_seq:
  assumes "good_hist gid hist" "k < length hist"
  shows "sint (wh_sequence_number (fst (hist ! k))) = int (Suc k)"
proof -
  have "Suc k < 2 ^ 63" using assms by (simp add: good_hist_def)
  then show ?thesis using assms sint_small by (simp add: good_hist_def good_sample_def del: of_nat_Suc)
qed

lemma good_hist_increasing: "good_hist gid hist \<Longrightarrow> increasing hist"
proof -
  assume "good_hist gid hist"
  then have sq: "seq_of (hist ! k) = int (Suc k)" if "k < length hist" for k
    using good_sample_seq that by (simp add: seq_of_def)
  then have "0 < seq_of x" if "x \<in> set hist" for x using that by (auto simp only: in_set_conv_nth)
  then show ?thesis using sq by (simp add: increasing_def sorted_wrt_iff_nth_less)
qed

lemma good_hist_in:
  assumes "good_hist gid hist" "x \<in> set hist"
  shows "wf_header (fst x) \<and> wh_msg_type (fst x) = 0 \<and> unat (wh_payload_size (fst x)) = length (snd x)"
proof -
  obtain k where "k < length hist" "hist ! k = x" using assms(2) unfolding in_set_conv_nth by blast
  then show ?thesis using assms(1) unfolding good_hist_def good_sample_def wf_header_def by metis
qed

lemma resolve_inline: "wh_msg_type h = 0 \<Longrightarrow> shm_resolve_incoming env fs d cache h p = (Some (h, p), cache)"
  by (simp add: shm_resolve_incoming_def)

section \<open>Absorbing and draining runs of samples\<close>

lemma absorb_samples:
  assumes "\<forall>x\<in>set xs. wf_header (fst x) \<and> wh_msg_type (fst x) = 0"
  shows "\<exists>q'. absorb env fs d depth now (map pulled xs) mx cache q = (q', mx, cache) \<and>
    (msgs q = lastn depth ys \<longrightarrow> msgs q' = lastn depth (ys @ xs))"
  using assms
proof (induction xs arbitrary: q ys)
  case (Cons x xs)
  obtain h p where x: "x = (h, p)" by (cases x)
  let ?q = "enqueue depth \<lparr>rm_header = h, rm_payload = p, rm_received_timestamp = now\<rparr> q"
  have r: "shm_resolve_incoming env fs d cache (parse_header (pr_wire_header (pulled x))) (pr_payload (pulled x)) = (Some (h, p), cache)"
    using Cons.prems parse_header_bytes[of h "[]"] by (simp add: x pulled_def resolve_inline)
  have q: "msgs ?q = lastn depth ((ys @ [x]) @ [])" if "msgs q = lastn depth ys"
    using that lastn_append_lastn[of depth ys "[x]"] by (simp add: x enqueue_is_lastn lastn_map[symmetric])
  obtain q' where "absorb env fs d depth now (map pulled xs) mx cache ?q = (q', mx, cache)"
    "msgs ?q = lastn depth (ys @ [x]) \<longrightarrow> msgs q' = lastn depth ((ys @ [x]) @ xs)"
    using Cons.IH[of ?q "ys @ [x]"] Cons.prems by auto
  then show ?case using r q by (intro exI[of _ q']) simp
qed simp

text \<open>The drain of a quiet socket holding samples: those above the watermark are queued.\<close>

definition passes :: "inbox \<Rightarrow> wire_header \<times> bytes \<Rightarrow> bool" where
  "passes ib x \<longleftrightarrow> \<not> is_replayed_duplicate ib (fst x)"

lemma drain_samples:
  assumes "\<forall>x\<in>set xs. wf_header (fst x) \<and> wh_msg_type (fst x) = 0 \<and> unat (wh_payload_size (fst x)) = length (snd x)"
    and "dc_msg_type cfg = 0" "dc_dedup cfg" "\<not> dc_ignore_local cfg" "dc_depth cfg = Some dep"
  shows "\<exists>ib' buf' n. drain_loop env fs cfg now [] buf (map dgram xs) ib = (ib', [], buf', n) \<and>
    ib_watermarks ib' = ib_watermarks ib \<and> ib_cache ib' = ib_cache ib \<and>
    (msgs (ib_queue ib) = lastn dep ys \<longrightarrow>
       msgs (ib_queue ib') = lastn dep (ys @ filter (passes ib) xs))"
  using assms(1)
proof (induction xs arbitrary: ib buf ys)
  case Nil
  show ?case by (simp add: drain_loop.simps[of env fs cfg now "[]" buf "[]" ib])
next
  case (Cons x xs)
  obtain h p where x: "x = (h, p)" by (cases x)
  have h: "wf_header h" "wh_msg_type h = 0" "unat (wh_payload_size h) = length p" using Cons.prems by (simp_all add: x)
  have l: "37 \<le> length (header_bytes h @ p)" using length_header_bytes[OF h(1)] by (simp add: sizeof_WireHeader_def)
  have r: "recv_loop [] buf (map dgram (x # xs)) = (Some (h, p), map dgram xs, max buf (length (header_bytes h @ p)))"
    using l by (auto simp: x dgram_def Let_def sizeof_WireHeader_def take_payload_datagram[OF h(1,3)])
  let ?m = "\<lparr>rm_header = h, rm_payload = p, rm_received_timestamp = now\<rparr>"
  let ?ib = "if passes ib x then ib\<lparr>ib_queue := enqueue dep ?m (ib_queue ib)\<rparr> else ib"
  have d: "deliver env fs cfg now (h, p) ib = (?ib, passes ib x)"
    using assms(2-5) h(2) by (simp add: deliver_def resolve_inline passes_def x enqueue_within_def)
  have same: "passes ?ib = passes ib" "ib_watermarks ?ib = ib_watermarks ib" "ib_cache ?ib = ib_cache ib"
    by (auto simp: passes_def is_replayed_duplicate_def fun_eq_iff)
  let ?ys = "if passes ib x then ys @ [x] else ys"
  have q: "msgs (ib_queue ?ib) = lastn dep ?ys" if "msgs (ib_queue ib) = lastn dep ys"
    using that lastn_append_lastn[of dep ys "[x]"] by (simp add: x enqueue_is_lastn lastn_map[symmetric])
  obtain ib' buf' n where "drain_loop env fs cfg now [] (max buf (length (header_bytes h @ p))) (map dgram xs) ?ib = (ib', [], buf', n)"
    "ib_watermarks ib' = ib_watermarks ?ib" "ib_cache ib' = ib_cache ?ib"
    "msgs (ib_queue ?ib) = lastn dep ?ys \<longrightarrow> msgs (ib_queue ib') = lastn dep (?ys @ filter (passes ?ib) xs)"
    using Cons.IH[of "max buf (length (header_bytes h @ p))" ?ib ?ys] Cons.prems by auto
  moreover have "?ys @ filter (passes ib) xs = ys @ filter (passes ib) (x # xs)" by simp
  ultimately show ?case
    using q unfolding same
    by (simp add: drain_loop.simps[of env fs cfg now "[]" buf "map dgram (x # xs)" ib] r d
        del: recv_loop.simps list.map filter.simps append_assoc)
qed

section \<open>Registration\<close>

lemma map_filter_insert:
  fixes m :: "nat \<Rightarrow> reg_entry option"
  assumes "m i = None" "i < n"
  shows "\<exists>as bs. List.map_filter m [0..<n] = as @ bs \<and> List.map_filter (m(i \<mapsto> e)) [0..<n] = as @ e # bs"
proof -
  have up: "[0..<n] = [0..<i] @ i # [Suc i..<n]"
    using assms(2) by (metis le_add1 less_imp_le_nat upt_add_eq_append upt_conv_Cons add_0 le_add_diff_inverse)
  have cong: "List.map_filter (m(i \<mapsto> e)) xs = List.map_filter m xs" if "i \<notin> set xs" for xs
    using that by (induction xs) (auto simp: List.map_filter_simps split: option.splits)
  have app: "List.map_filter f (xs @ ys) = List.map_filter f xs @ List.map_filter f ys" for f :: "nat \<Rightarrow> reg_entry option" and xs ys
    by (simp add: List.map_filter_def)
  show ?thesis
    using assms(1)
    unfolding up
    by (rule_tac x = "List.map_filter m [0..<i]" in exI, rule_tac x = "List.map_filter m [Suc i..<n]" in exI)
      (simp add: app cong List.map_filter_simps)
qed

lemma add_entry_room:
  assumes "wf_registry (wo_reg w)" "wf_entry e" "add_entry sy e w = (k, w')"
    and "first_free (max_entries (wo_reg w)) (entries (wo_reg w)) \<noteq> None"
    and "unat (rg_generation (wo_reg w)) + 2 ^ 31 < 2 ^ 64"
  shows "w' = w\<lparr>wo_reg := wo_reg w'\<rparr> \<and> reg_step (wo_reg w) (wo_reg w') \<and> wf_registry (wo_reg w') \<and>
    (\<exists>as bs. List.map_filter (entries (wo_reg w)) [0..<max_entries (wo_reg w)] = as @ bs \<and>
       List.map_filter (entries (wo_reg w')) [0..<max_entries (wo_reg w')] = as @ e # bs)"
proof -
  obtain r effs rung where a: "registry_add (sy_ring sy) (sy_proc sy) (wo_reg w) e = (k, r, effs, rung)"
    using assms(3) by (cases "registry_add (sy_ring sy) (sy_proc sy) (wo_reg w) e") (auto simp: add_entry_def)
  note p = registry_add_props[OF assms(1,2) a]
  obtain i where i: "first_free (max_entries (wo_reg w)) (entries (wo_reg w)) = Some i" using assms(4) by blast
  have "effs = (if first_free (max_entries (wo_reg w)) (entries (wo_reg w)) = None
      then swept_unlinks (sy_proc sy) [0..<max_entries (wo_reg w)] (entries (wo_reg w)) else [])" using p by blast
  then have eff: "effs = []" by (simp add: i)
  have w': "w' = w\<lparr>wo_reg := r\<rparr>" using assms(3) by (simp add: add_entry_def a eff)
  have "entries (wo_reg w) i = None \<and> i < max_entries (wo_reg w)" by (rule first_free_SomeD[OF i])
  then have split: "\<exists>as bs. List.map_filter (entries (wo_reg w)) [0..<max_entries (wo_reg w)] = as @ bs \<and>
      List.map_filter ((entries (wo_reg w))(i \<mapsto> e)) [0..<max_entries (wo_reg w)] = as @ e # bs"
    using map_filter_insert[of "entries (wo_reg w)" i "max_entries (wo_reg w)" e] by blast
  have "(k, entries r) = add_spec (sy_proc sy) (max_entries (wo_reg w)) (entries (wo_reg w)) e" using p by blast
  then have "entries r = (entries (wo_reg w))(i \<mapsto> e)" by (simp add: add_spec_def i)
  moreover have "reg_step (wo_reg w) r" by (rule reg_step.add[OF assms(1,2,5) a])
  moreover have "wf_registry r" "max_entries r = max_entries (wo_reg w)" using p by blast+
  ultimately show ?thesis using split by (simp add: w')
qed

definition live_sub :: "'m subscription \<Rightarrow> bool" where
  "live_sub sub \<longleftrightarrow> q_durability (su_qos sub) = DURABILITY_TRANSIENT_LOCAL \<and> \<not> su_ignore_local sub \<and> 0 < su_queue_depth sub"

lemma resolve_qos_durability: "q_durability q = DURABILITY_TRANSIENT_LOCAL \<Longrightarrow> q_durability (resolve_qos q) = DURABILITY_TRANSIENT_LOCAL"
  by (simp add: resolve_qos_def Let_def policy_defs)

lemma make_socket_path_nonempty: "make_socket_path d pfx pid c t \<noteq> []"
  by (simp add: make_socket_path_def snprintf_def)

text \<open>Bound sockets are older than the next one to be created.\<close>

definition net_wf :: "net \<Rightarrow> bool" where
  "net_wf net \<longleftrightarrow> (\<forall>a s. nt_bound net a = Some s \<longrightarrow> s < nt_next net)"

lemma register_facts:
  assumes reg: "register_subscription sy node cb topic qos None w = (Some sub, w')"
    and wf: "wf_registry (wo_reg w)" and q: "q_durability qos = DURABILITY_TRANSIENT_LOCAL" and len: "length topic \<le> 255"
    and room: "first_free (max_entries (wo_reg w)) (entries (wo_reg w)) \<noteq> None" "unat (rg_generation (wo_reg w)) + 2 ^ 31 < 2 ^ 64"
    and new: "\<forall>p \<in> set (sub_view topic (wo_reg w)). sun_path p \<noteq> sun_path (su_socket_path sub)" and net: "net_wf (wo_net w)"
  shows "wo_fs w' = wo_fs w" "reg_step (wo_reg w) (wo_reg w')" "wf_registry (wo_reg w')" "live_sub sub"
    "su_topic_name sub = topic" "su_inbox sub = new_inbox" "net_wf (wo_net w')" "su_socket sub = nt_next (wo_net w)"
    "nt_queue (wo_net w') (su_socket sub) = []"
    "registry_query (wo_reg w') ENTRY_PUBLISHER (Some topic) None None = registry_query (wo_reg w) ENTRY_PUBLISHER (Some topic) None None"
    "copies (wo_net w') (sub_view topic (wo_reg w')) (su_socket sub) = 1"
    "sun_path p \<noteq> sun_path (su_socket_path sub) \<Longrightarrow> nt_bound (wo_net w') (sun_path p) \<noteq> Some (su_socket sub)"
    "su_socket sub < nt_next (wo_net w')"
proof -
  let ?path = "make_socket_path (cx_domain_id (nd_context node)) ''sub'' (sy_pid sy) (wo_path_ctr w) (se_now_us (sy_shm sy))"
  obtain gid gctr where g: "gid_generate (of_int (sy_pid sy)) (cx_context_id (nd_context node)) (wo_gid_ctr w) = (gid, gctr)" by fastforce
  obtain uid uctr where u: "next_entity_uid (wo_uid_ctr w) = (uid, uctr)" by fastforce
  let ?w1 = "w\<lparr>wo_uid_ctr := uctr, wo_gid_ctr := gctr, wo_path_ctr := wo_path_ctr w + 1\<rparr>"
  let ?sub = "new_subscription (nd_context node) uid gid topic cb qos None ?path :: 'a subscription"
  let ?e = "entity_entry sy ENTRY_SUBSCRIPTION node gid topic (su_type_name ?sub) ?path (su_qos ?sub)"
  obtain sock net where b: "create_bound_socket (sy_net sy) (wo_net w) ?path = (Some sock, net)"
    using reg by (auto simp: register_subscription_def g u Let_def split: prod.splits option.splits)
  obtain index w2 where a: "add_entry sy ?e (?w1\<lparr>wo_net := net\<rparr>) = (index, w2)" by fastforce
  have res: "sub = ?sub\<lparr>su_socket := sock, su_registry_index := index\<rparr>" "w' = w2"
    using reg b a by (auto simp: register_subscription_def g u Let_def split: if_splits)
  have path: "su_socket_path sub = ?path" by (simp add: res new_subscription_def Let_def)
  have we: "wf_entry ?e" by (simp add: wf_entry_def entity_entry_def uds_defs)
  obtain as bs where r: "w2 = ?w1\<lparr>wo_net := net, wo_reg := wo_reg w2\<rparr>" "reg_step (wo_reg w) (wo_reg w2)" "wf_registry (wo_reg w2)"
    "List.map_filter (entries (wo_reg w)) [0..<max_entries (wo_reg w)] = as @ bs"
    "List.map_filter (entries (wo_reg w2)) [0..<max_entries (wo_reg w2)] = as @ ?e # bs"
    using add_entry_room[OF _ we a] wf room by auto
  have n: "sock = nt_next (wo_net w)" "nt_bound net = ((nt_bound (wo_net w))(?path := None))(sun_path ?path \<mapsto> nt_next (wo_net w))"
    "nt_queue net sock = []" "nt_next net = Suc (nt_next (wo_net w))"
    using b by (auto simp: create_bound_socket_def net_unlink_def Let_def split: if_splits)
  have wn: "wo_net w2 = net" "wo_fs w2 = wo_fs w" using arg_cong[OF r(1), of wo_net] arg_cong[OF r(1), of wo_fs] by simp_all
  show "wo_fs w' = wo_fs w" "reg_step (wo_reg w) (wo_reg w')" "wf_registry (wo_reg w')" using r(2,3) wn by (simp_all add: res)
  show "su_topic_name sub = topic" "su_inbox sub = new_inbox" "su_socket sub = nt_next (wo_net w)"
    by (simp_all add: res new_subscription_def Let_def n)
  show "su_socket sub < nt_next (wo_net w')" by (simp add: res wn n)
  show "live_sub sub"
    using resolve_qos_durability[OF q] resolve_qos_depth[of qos]
    by (simp add: live_sub_def res new_subscription_def Let_def unat_gt_0)
  show "net_wf (wo_net w')" using net by (auto simp: net_wf_def res wn n less_Suc_eq)
  show "nt_queue (wo_net w') (su_socket sub) = []" using n(3) by (simp add: res wn)
  show bd: "nt_bound (wo_net w') (sun_path p) \<noteq> Some (su_socket sub)" if "sun_path p \<noteq> sun_path (su_socket_path sub)" for p
    using that net by (auto simp: res wn n net_wf_def new_subscription_def Let_def)
  show "registry_query (wo_reg w') ENTRY_PUBLISHER (Some topic) None None = registry_query (wo_reg w) ENTRY_PUBLISHER (Some topic) None None"
    unfolding registry_query_spec[OF wf] registry_query_spec[OF r(3)] query_spec_def res(2) r(4,5)
    by (simp add: entry_matches_def matches_def entity_entry_def uds_defs)
  let ?P = "entry_matches ENTRY_SUBSCRIPTION (Some topic) None None"
  have fit: "fit 256 topic = topic" "fit 108 ?path \<noteq> []" "sun_path (fit 108 ?path) = sun_path ?path"
    using len make_socket_path_nonempty by (simp_all add: fit_def sun_path_def)
  have vw: "sub_view topic (wo_reg w) = subscriber_paths (map entry_result (filter ?P as)) @ subscriber_paths (map entry_result (filter ?P bs))"
    unfolding sub_view_def registry_query_spec[OF wf] query_spec_def r(4) by (simp add: subscriber_paths_def)
  have vw': "sub_view topic (wo_reg w') = subscriber_paths (map entry_result (filter ?P as)) @ fit 108 ?path # subscriber_paths (map entry_result (filter ?P bs))"
    unfolding sub_view_def registry_query_spec[OF r(3)] query_spec_def res(2) r(5)
    using fit by (simp add: subscriber_paths_def entry_matches_def matches_def entity_entry_def entry_result_def to_result_def uds_defs)
  have none: "filter (\<lambda>p. nt_bound (wo_net w') (sun_path p) = Some (su_socket sub)) xs = []" if "set xs \<subseteq> set (sub_view topic (wo_reg w))" for xs
    using that new bd by (auto simp: filter_empty_conv)
  have "nt_bound (wo_net w') (sun_path (fit 108 ?path)) = Some (su_socket sub)" by (simp add: fit(3) res wn n)
  then show "copies (wo_net w') (sub_view topic (wo_reg w')) (su_socket sub) = 1"
    using none[of "subscriber_paths (map entry_result (filter ?P as))"] none[of "subscriber_paths (map entry_result (filter ?P bs))"]
    by (simp add: copies_def vw' vw)
qed

section \<open>The invariant\<close>

definition fanned :: "'m join \<Rightarrow> nat" where
  "fanned s = (if jo_phase s = Idle then length (jo_hist s) else length (jo_hist s) - 1)"

definition in_flight :: "(wire_header \<times> bytes) list \<Rightarrow> phase \<Rightarrow> bool" where
  "in_flight hist ph \<longleftrightarrow>
     (case ph of Idle \<Rightarrow> True
      | Latched lo p \<Rightarrow> lo_evicted lo = None \<and> (\<exists>h. hist = h @ [(lo_header lo, p)])
      | Refreshed lo p _ \<Rightarrow> lo_evicted lo = None \<and> (\<exists>h. hist = h @ [(lo_header lo, p)]))"

definition pub_inv :: "gid \<Rightarrow> nat \<Rightarrow> 'm join \<Rightarrow> bool" where
  "pub_inv gid slots s \<longleftrightarrow>
     (let w = jo_world s; p = jo_pub s; ring = pb_tl_ring p in
      good_hist gid (jo_hist s) \<and> tl_ok (wo_fs w) ring gid slots (jo_hist s) \<and>
      tw_durable_segs ring = replicate slots None \<and>
      pb_gid p = gid \<and> pb_sequence_number p = of_nat (Suc (length (jo_hist s))) \<and> length (pb_topic_name p) \<le> 255 \<and>
      wf_registry (wo_reg w) \<and> cache_coherent p (wo_reg w) \<and> net_wf (wo_net w) \<and>
      (\<exists>pq. registry_query (wo_reg w) ENTRY_PUBLISHER (Some (pb_topic_name p)) None None = [pq] \<and> qr_gid pq = gid \<and>
         q_durability (qr_qos pq) = DURABILITY_TRANSIENT_LOCAL \<and> qr_socket_path pq = tw_shm_name ring) \<and>
      in_flight (jo_hist s) (jo_phase s))"

text \<open>
  Of a joiner, \<open>k0\<close> is the first sample whose refresh saw the registration and \<open>c\<close> how many of
  those sent to it have been drained; \<open>nq\<close> is the length of the history at the pull.
\<close>

definition replay_inv :: "gid \<Rightarrow> nat \<Rightarrow> 'm join \<Rightarrow> 'm subscription \<Rightarrow> nat \<Rightarrow> nat \<Rightarrow> bool" where
  "replay_inv gid slots s sub k0 c \<longleftrightarrow>
     (if jo_replayed s
      then (\<exists>nq. k0 \<le> nq \<and> nq \<le> length (jo_hist s) \<and>
              ib_watermarks (su_inbox sub) gid = (if nq = 0 then None else Some (of_nat nq)) \<and>
              msgs (ib_queue (su_inbox sub)) =
                lastn (su_queue_depth sub) (drop (nq - min slots (su_queue_depth sub)) (take (max nq (k0 + c)) (jo_hist s))))
      else c = 0 \<and> su_inbox sub = new_inbox)"

definition addressed :: "phase \<Rightarrow> nat \<Rightarrow> nat \<Rightarrow> net \<Rightarrow> nat \<Rightarrow> bool" where
  "addressed ph k0 f net sock \<longleftrightarrow>
     (case ph of
        Refreshed _ _ paths \<Rightarrow> k0 \<le> Suc f \<and> copies net (eff_paths paths) sock = (if k0 \<le> f then 1 else 0)
      | _ \<Rightarrow> k0 \<le> f)"

lemma addressed_simps [simp]:
  "addressed Idle k0 f net sock \<longleftrightarrow> k0 \<le> f"
  "addressed (Latched lo p) k0 f net sock \<longleftrightarrow> k0 \<le> f"
  "addressed (Refreshed lo p paths) k0 f net sock \<longleftrightarrow>
     k0 \<le> Suc f \<and> copies net (eff_paths paths) sock = (if k0 \<le> f then 1 else 0)"
  by (simp_all add: addressed_def)

definition sub_inv :: "gid \<Rightarrow> nat \<Rightarrow> 'm join \<Rightarrow> 'm subscription \<Rightarrow> nat \<Rightarrow> nat \<Rightarrow> bool" where
  "sub_inv gid slots s sub k0 c \<longleftrightarrow>
     (let net = wo_net (jo_world s); topic = pb_topic_name (jo_pub s); sock = su_socket sub in
      live_sub sub \<and> su_topic_name sub = topic \<and> sock < nt_next net \<and>
      copies net (sub_view topic (wo_reg (jo_world s))) sock = 1 \<and>
      nt_queue net sock = map dgram (drop (k0 + c) (take (fanned s) (jo_hist s))) \<and>
      addressed (jo_phase s) k0 (fanned s) net sock \<and>
      (if k0 \<le> fanned s then k0 + c \<le> fanned s else c = 0) \<and> replay_inv gid slots s sub k0 c)"

definition join_inv :: "gid \<Rightarrow> nat \<Rightarrow> 'm join \<Rightarrow> bool" where
  "join_inv gid slots s \<longleftrightarrow> pub_inv gid slots s \<and>
     (case jo_sub s of None \<Rightarrow> \<not> jo_replayed s | Some sub \<Rightarrow> \<exists>k0 c. sub_inv gid slots s sub k0 c)"

section \<open>Every step keeps it\<close>

lemma good_hist_snoc:
  assumes "good_hist gid hist" "Suc (length hist) < 2 ^ 31" "good_sample gid (length hist) x"
  shows "good_hist gid (hist @ [x])"
  using assms by (auto simp: good_hist_def nth_append less_Suc_eq)

lemma fanned_le: "fanned s \<le> length (jo_hist s)"
  by (simp add: fanned_def)

lemma copies_cong: "nt_bound net' = nt_bound net \<Longrightarrow> copies net' paths sock = copies net paths sock"
  by (simp add: copies_def)

lemma replay_inv_extend:
  assumes "replay_inv gid slots s sub k0 c" "jo_replayed s' = jo_replayed s" "jo_hist s' = jo_hist s @ [x]"
    and "k0 + c \<le> length (jo_hist s)"
  shows "replay_inv gid slots s' sub k0 c"
proof (cases "jo_replayed s")
  case True
  then obtain nq where n: "k0 \<le> nq" "nq \<le> length (jo_hist s)" "ib_watermarks (su_inbox sub) gid = (if nq = 0 then None else Some (of_nat nq))"
    "msgs (ib_queue (su_inbox sub)) =
       lastn (su_queue_depth sub) (drop (nq - min slots (su_queue_depth sub)) (take (max nq (k0 + c)) (jo_hist s)))"
    using assms(1) unfolding replay_inv_def by auto
  have "take (max nq (k0 + c)) (jo_hist s @ [x]) = take (max nq (k0 + c)) (jo_hist s)" using n(2) assms(4) by simp
  then have q: "msgs (ib_queue (su_inbox sub)) =
      lastn (su_queue_depth sub) (drop (nq - min slots (su_queue_depth sub)) (take (max nq (k0 + c)) (jo_hist s')))"
    using n(4) by (simp only: assms(3))
  have l: "nq \<le> length (jo_hist s')" using n(2) by (simp add: assms(3))
  show ?thesis
    unfolding replay_inv_def assms(2) if_P[OF True] by (intro exI[of _ nq] conjI n(1) l n(3) q)
qed (use assms in \<open>simp add: replay_inv_def\<close>)

lemma replay_inv_same:
  "jo_replayed s' = jo_replayed s \<Longrightarrow> jo_hist s' = jo_hist s \<Longrightarrow> replay_inv gid slots s' sub k0 c = replay_inv gid slots s sub k0 c"
  by (simp add: replay_inv_def)

lemma join_inv_step:
  assumes "join_inv gid slots s" "pub_inv gid slots s'" "jo_sub s' = jo_sub s" "jo_replayed s' = jo_replayed s"
    and "\<And>sub k0 c. sub_inv gid slots s sub k0 c \<Longrightarrow> sub_inv gid slots s' sub k0 c"
  shows "join_inv gid slots s'"
  using assms(1-4) assms(5) unfolding join_inv_def by (cases "jo_sub s") (simp_all, blast)

lemma fan_out_next: "nt_next (snd (fan_out env hdr p paths net)) = nt_next net"
  by (induction env hdr p paths net rule: fan_out.induct) (auto simp: send_to_def Let_def split: prod.splits option.splits)

lemma tl_latch_facts:
  assumes inv: "pub_inv gid slots s" and calm: "calm sy" and len: "length payload \<le> TL_EMBED_CAP"
    and bound: "Suc (length (jo_hist s)) < 2 ^ 31"
    and l: "tl_latch sy (jo_pub s) ((topic_header sy (jo_pub s))\<lparr>wh_payload_size := of_nat (length payload)\<rparr>) payload None (jo_world s)
      = (lo, pub', w')"
  shows "good_sample gid (length (jo_hist s)) (lo_header lo, payload)" "lo_evicted lo = None"
    "tl_ok (wo_fs w') (pb_tl_ring pub') gid slots (jo_hist s @ [(lo_header lo, payload)])"
    "tw_durable_segs (pb_tl_ring pub') = replicate slots None" "tw_shm_name (pb_tl_ring pub') = tw_shm_name (pb_tl_ring (jo_pub s))"
    "pub' = (jo_pub s)\<lparr>pb_sequence_number := pb_sequence_number (jo_pub s) + 1, pb_tl_ring := pb_tl_ring pub'\<rparr>"
    "w' = (jo_world s)\<lparr>wo_fs := wo_fs w'\<rparr>"
proof -
  let ?p = "jo_pub s" and ?w = "jo_world s"
  let ?h = "((topic_header sy ?p)\<lparr>wh_payload_size := of_nat (length payload)\<rparr>)\<lparr>wh_sequence_number := pb_sequence_number ?p\<rparr>"
  have i: "tl_ok (wo_fs ?w) (pb_tl_ring ?p) gid slots (jo_hist s)" "tw_durable_segs (pb_tl_ring ?p) = replicate slots None"
    "pb_gid ?p = gid" "pb_sequence_number ?p = of_nat (Suc (length (jo_hist s)))" "length gid = 16"
    using inv by (simp_all add: pub_inv_def Let_def good_hist_def del: of_nat_Suc)
  obtain latched ev fs ring where r: "tl_ring_latch (sy_latch_ok sy) (wo_fs ?w) (pb_tl_ring ?p) ?h payload None None = (latched, ev, fs, ring)"
    using prod_cases4 by metis
  have base: "tw_base (pb_tl_ring ?p) \<noteq> None" "tw_slots (pb_tl_ring ?p) = slots" "0 < slots" using i(1) by (auto simp: tl_ok_def)
  have ok: "latched"
    using tl_ring_latch_true[OF base(1), of None payload "wo_fs ?w" ?h None] len calm r by (simp add: calm_def)
  note r' = r[unfolded ok[THEN eqTrueI]]
  have wf: "wf_header ?h" using i(3,5) by (simp add: wf_header_def topic_header_def)
  have res: "lo = \<lparr>lo_latched = True, lo_header = ?h, lo_evicted = ev\<rparr>" "w' = ?w\<lparr>wo_fs := fs\<rparr>"
    "pub' = ?p\<lparr>pb_sequence_number := pb_sequence_number ?p + 1, pb_tl_ring := ring\<rparr>"
    using l r ok by (simp_all add: tl_latch_def)
  show "good_sample gid (length (jo_hist s)) (lo_header lo, payload)"
    using len i(3,4) by (simp add: good_sample_def res topic_header_def uds_defs TL_EMBED_CAP_def unat_of_nat_small32)
  obtain slot where sl: "slot < slots" "ev = tw_durable_segs (pb_tl_ring ?p) ! slot" "tw_durable_segs ring = (tw_durable_segs (pb_tl_ring ?p))[slot := None]"
    using tl_ring_latch_slot[OF r'] base(2,3) by auto
  show "lo_evicted lo = None" "tw_durable_segs (pb_tl_ring pub') = replicate slots None"
    using sl by (simp_all add: res i(2) list_update_same_conv)
  show "tl_ok (wo_fs w') (pb_tl_ring pub') gid slots (jo_hist s @ [(lo_header lo, payload)])"
    "tw_shm_name (pb_tl_ring pub') = tw_shm_name (pb_tl_ring ?p)"
    using tl_ring_latch_ok[OF i(1) bound r' wf] by (simp_all add: res slot_record_def)
  show "pub' = ?p\<lparr>pb_sequence_number := pb_sequence_number ?p + 1, pb_tl_ring := pb_tl_ring pub'\<rparr>" "w' = ?w\<lparr>wo_fs := wo_fs w'\<rparr>"
    by (simp_all add: res)
qed

lemma step_latch:
  assumes inv: "join_inv gid slots s" and ph: "jo_phase s = Idle" and calm: "calm sy" and len: "length payload \<le> TL_EMBED_CAP"
    and bound: "Suc (length (jo_hist s)) < 2 ^ 31"
    and l: "tl_latch sy (jo_pub s) ((topic_header sy (jo_pub s))\<lparr>wh_payload_size := of_nat (length payload)\<rparr>) payload None (jo_world s)
      = (lo, pub', w')"
  shows "join_inv gid slots (s\<lparr>jo_world := w', jo_pub := pub', jo_phase := Latched lo payload,
      jo_hist := jo_hist s @ [(lo_header lo, payload)]\<rparr>)"
proof -
  let ?s' = "s\<lparr>jo_world := w', jo_pub := pub', jo_phase := Latched lo payload, jo_hist := jo_hist s @ [(lo_header lo, payload)]\<rparr>"
  have pi: "pub_inv gid slots s" using inv by (simp add: join_inv_def)
  note f = tl_latch_facts[OF pi calm len bound l]
  have pf: "pb_topic_name pub' = pb_topic_name (jo_pub s)" "pb_gid pub' = pb_gid (jo_pub s)"
    "pb_sequence_number pub' = pb_sequence_number (jo_pub s) + 1" "pb_cached_generation pub' = pb_cached_generation (jo_pub s)"
    "pb_cached_subscriber_paths pub' = pb_cached_subscriber_paths (jo_pub s)"
    by (subst f(6), simp)+
  have wf: "wo_reg w' = wo_reg (jo_world s)" "wo_net w' = wo_net (jo_world s)" by (subst f(7), simp)+
  have gh: "good_hist gid (jo_hist s @ [(lo_header lo, payload)])"
    using good_hist_snoc[OF _ bound f(1)] pi by (simp add: pub_inv_def Let_def)
  have p': "pub_inv gid slots ?s'"
    using pi f(2-5) gh pf wf by (simp add: pub_inv_def Let_def cache_coherent_def in_flight_def)
  have fn: "fanned ?s' = fanned s" using ph by (simp add: fanned_def)
  have tk: "take n (jo_hist s @ [(lo_header lo, payload)]) = take n (jo_hist s)" if "n \<le> length (jo_hist s)" for n
    using that by simp
  have "sub_inv gid slots ?s' sub k0 c" if si: "sub_inv gid slots s sub k0 c" for sub k0 c
  proof -
    have k: "k0 \<le> fanned s" "k0 + c \<le> fanned s" using si ph by (auto simp: sub_inv_def Let_def)
    then have "k0 + c \<le> length (jo_hist s)" using fanned_le[of s] by linarith
    then have "replay_inv gid slots ?s' sub k0 c"
      by (intro replay_inv_extend[of gid slots s sub k0 c ?s']) (use si in \<open>simp_all add: sub_inv_def Let_def\<close>)
    then show ?thesis using si ph k by (simp add: sub_inv_def Let_def fn tk fanned_le wf pf)
  qed
  then show ?thesis by (intro join_inv_step[OF inv p']) simp_all
qed

lemma step_refresh:
  assumes inv: "join_inv gid slots s" and ph: "jo_phase s = Latched lo payload"
    and r: "refresh_in (jo_pub s) (jo_world s) = (paths, pub')"
  shows "join_inv gid slots (s\<lparr>jo_pub := pub', jo_phase := Refreshed lo payload paths\<rparr>)"
proof -
  let ?s' = "s\<lparr>jo_pub := pub', jo_phase := Refreshed lo payload paths\<rparr>" and ?reg = "wo_reg (jo_world s)"
  have pi: "pub_inv gid slots s" using inv by (simp add: join_inv_def)
  have r': "refresh_sub_paths ?reg (registry_generation ?reg) (jo_pub s) = (paths, pub')"
    using r by (simp add: refresh_in_def Let_def)
  note m = refresh_is_memo[OF r']
  have coh: "cache_coherent (jo_pub s) ?reg" using pi by (simp add: pub_inv_def Let_def)
  have pf: "pb_topic_name pub' = pb_topic_name (jo_pub s)" "pb_gid pub' = pb_gid (jo_pub s)"
    "pb_sequence_number pub' = pb_sequence_number (jo_pub s)" "pb_tl_ring pub' = pb_tl_ring (jo_pub s)"
    by (subst m(3), simp)+
  have v: "eff_paths paths = sub_view (pb_topic_name (jo_pub s)) ?reg"
    using sub_paths.refresh_now[OF coh[unfolded cache_coherent_def]] m(1,2) by simp
  have coh': "cache_coherent pub' ?reg"
    using sub_paths.refresh_coherent[OF coh[unfolded cache_coherent_def] rtranclp.rtrancl_refl]
    unfolding m(1) cache_coherent_def pf by simp
  have p': "pub_inv gid slots ?s'" using pi coh' ph by (simp add: pub_inv_def Let_def in_flight_def pf)
  have fn: "fanned ?s' = fanned s" using ph by (simp add: fanned_def)
  have rp: "replay_inv gid slots ?s' sub k0 c = replay_inv gid slots s sub k0 c" for sub :: "'a subscription" and k0 c
    by (simp add: replay_inv_def)
  have "sub_inv gid slots ?s' sub k0 c" if "sub_inv gid slots s sub k0 c" for sub k0 c
    using that ph v by (simp add: sub_inv_def Let_def fn rp pf)
  then show ?thesis by (intro join_inv_step[OF inv p']) simp_all
qed

lemma drop_take_snoc: "a \<le> n \<Longrightarrow> n < length xs \<Longrightarrow> drop a (take (Suc n) xs) = drop a (take n xs) @ [xs ! n]"
  by (simp add: take_Suc_conv_app_nth)

lemma step_send:
  assumes inv: "join_inv gid slots s" and ph: "jo_phase s = Refreshed lo payload paths" and calm: "calm sy"
    and wire: "tl_wire lo payload None = (hdr, wire)" and send: "send_all sy hdr wire paths (jo_world s) = (ret, w')"
  shows "join_inv gid slots (s\<lparr>jo_world := w'\<lparr>wo_fs := durable_close (wo_fs w') (lo_evicted lo)\<rparr>, jo_phase := Idle\<rparr>)"
proof -
  let ?w' = "w'\<lparr>wo_fs := durable_close (wo_fs w') (lo_evicted lo)\<rparr>"
  let ?s' = "s\<lparr>jo_world := ?w', jo_phase := Idle\<rparr>"
  have pi: "pub_inv gid slots s" using inv by (simp add: join_inv_def)
  have fl: "lo_evicted lo = None" "\<exists>h. jo_hist s = h @ [(lo_header lo, payload)]"
    using pi ph by (auto simp: pub_inv_def Let_def in_flight_def)
  have n: "fanned s < length (jo_hist s)" "fanned (s\<lparr>jo_world := v, jo_phase := Idle\<rparr>) = Suc (fanned s)" "jo_hist s ! fanned s = (hdr, wire)" for v
    using fl(2) ph wire by (auto simp: fanned_def tl_wire_def)
  have up: "net_up (sy_net sy)" using calm by (simp add: calm_def)
  have fo: "snd (fan_out (sy_net sy) hdr wire (eff_paths paths) (wo_net (jo_world s))) = wo_net w'"
    "wo_reg w' = wo_reg (jo_world s)" "wo_fs w' = wo_fs (jo_world s)" "nt_next (wo_net w') = nt_next (wo_net (jo_world s))"
    using send fan_out_next[of "sy_net sy" hdr wire "eff_paths paths" "wo_net (jo_world s)"]
    by (auto simp: send_all_def eff_paths_def[symmetric] split: prod.splits)
  note net = fan_out_up[OF up, of hdr wire "eff_paths paths" "wo_net (jo_world s)", unfolded fo(1)]
  have bd: "nt_bound (wo_net w') = nt_bound (wo_net (jo_world s))" using net by blast
  have cs: "copies (wo_net w') ps sock = copies (wo_net (jo_world s)) ps sock" for ps sock by (rule copies_cong[OF bd])
  have p': "pub_inv gid slots ?s'"
    using pi bd by (simp add: pub_inv_def Let_def in_flight_def fo fl(1) durable_close_def net_wf_def)
  have "sub_inv gid slots ?s' sub k0 c" if si: "sub_inv gid slots s sub k0 c" for sub k0 c
  proof -
    have q: "nt_queue (wo_net w') (su_socket sub) =
        map dgram (drop (k0 + c) (take (fanned s) (jo_hist s))) @ replicate (if k0 \<le> fanned s then 1 else 0) (dgram (hdr, wire))"
      using si ph net by (simp add: sub_inv_def Let_def dgram_def)
    have k: "k0 \<le> Suc (fanned s)" "if k0 \<le> fanned s then k0 + c \<le> fanned s else c = 0"
      using si ph by (simp_all add: sub_inv_def Let_def)
    have "nt_queue (wo_net w') (su_socket sub) = map dgram (drop (k0 + c) (take (Suc (fanned s)) (jo_hist s)))"
    proof (cases "k0 \<le> fanned s")
      case True
      then show ?thesis using q k drop_take_snoc[of "k0 + c" "fanned s" "jo_hist s"] n by simp
    next
      case False
      then show ?thesis using q k by simp
    qed
    moreover have "replay_inv gid slots ?s' sub k0 c = replay_inv gid slots s sub k0 c" by (simp add: replay_inv_def)
    moreover have "k0 + c \<le> Suc (fanned s)" using k by (auto split: if_splits)
    ultimately show ?thesis using si k by (auto simp: sub_inv_def Let_def fo cs n(2))
  qed
  then show ?thesis by (intro join_inv_step[OF inv p']) simp_all
qed

lemma copies_zero:
  assumes "\<forall>p\<in>set ps. nt_bound net (sun_path p) \<noteq> Some sock"
  shows "copies net ps sock = 0"
  using assms by (auto simp: copies_def filter_empty_conv)

lemma pub_inv_world:
  assumes "pub_inv gid slots s" "jo_pub s' = jo_pub s" "jo_phase s' = jo_phase s" "jo_hist s' = jo_hist s"
    and "wo_fs (jo_world s') = wo_fs (jo_world s)" "reg_step\<^sup>*\<^sup>* (wo_reg (jo_world s)) (wo_reg (jo_world s'))"
    and "registry_query (wo_reg (jo_world s')) ENTRY_PUBLISHER (Some (pb_topic_name (jo_pub s))) None None =
      registry_query (wo_reg (jo_world s)) ENTRY_PUBLISHER (Some (pb_topic_name (jo_pub s))) None None"
    and "net_wf (wo_net (jo_world s'))"
  shows "pub_inv gid slots s'"
proof -
  have "wf_registry (wo_reg (jo_world s'))"
    using reg_steps_wf[OF assms(6)] assms(1) by (simp add: pub_inv_def Let_def)
  moreover have "cache_coherent (jo_pub s) (wo_reg (jo_world s'))"
    using sub_paths.coherent_steps[OF _ assms(6)] assms(1) by (simp add: pub_inv_def Let_def cache_coherent_def)
  ultimately show ?thesis using assms by (simp add: pub_inv_def Let_def)
qed

lemma step_register:
  assumes inv: "join_inv gid slots s" and none: "jo_sub s = None" and q: "q_durability qos = DURABILITY_TRANSIENT_LOCAL"
    and reg: "register_subscription sy node cb (pb_topic_name (jo_pub s)) qos None (jo_world s) = (Some sub, w')"
    and fresh: "fresh_socket (su_socket_path sub) s"
  shows "join_inv gid slots (s\<lparr>jo_world := w', jo_sub := Some sub\<rparr>)"
proof -
  let ?s' = "s\<lparr>jo_world := w', jo_sub := Some sub\<rparr>" and ?w = "jo_world s" and ?t = "pb_topic_name (jo_pub s)"
  have pi: "pub_inv gid slots s" and nr: "\<not> jo_replayed s" using inv none by (simp_all add: join_inv_def)
  have i: "wf_registry (wo_reg ?w)" "net_wf (wo_net ?w)" "length ?t \<le> 255" "in_flight (jo_hist s) (jo_phase s)"
    using pi by (simp_all add: pub_inv_def Let_def)
  have fr: "first_free (max_entries (wo_reg ?w)) (entries (wo_reg ?w)) \<noteq> None"
    "unat (rg_generation (wo_reg ?w)) + 2 ^ 31 < 2 ^ 64"
    "\<forall>p \<in> set (sub_view ?t (wo_reg ?w)). sun_path p \<noteq> sun_path (su_socket_path sub)"
    "\<forall>p \<in> set (phase_paths (jo_phase s)). sun_path p \<noteq> sun_path (su_socket_path sub)"
    using fresh unfolding fresh_socket_def by blast+
  note f = register_facts[OF reg i(1) q i(3) fr(1,2,3) i(2)]
  have p': "pub_inv gid slots ?s'"
    by (rule pub_inv_world[OF pi]) (use f(1,2,7,10) in simp_all)
  define k0 where "k0 = (case jo_phase s of Latched _ _ \<Rightarrow> length (jo_hist s) - 1 | _ \<Rightarrow> length (jo_hist s))"
  have fn: "fanned ?s' = fanned s" by (simp add: fanned_def)
  have zero: "copies (wo_net w') (eff_paths paths) (su_socket sub) = 0" if "jo_phase s = Refreshed lo p paths" for lo p paths
    using fr(4) f(12) that by (intro copies_zero) (auto simp: phase_paths_def)
  have pos: "jo_phase s \<noteq> Idle \<Longrightarrow> 0 < length (jo_hist s)" using i(4) by (auto simp: in_flight_def split: phase.splits)
  have ph: "addressed (jo_phase s) k0 (fanned s) (wo_net w') (su_socket sub)"
    using zero pos by (auto simp: addressed_def k0_def fanned_def simp del: length_greater_0_conv split: phase.splits)
  have "fanned s \<le> k0" by (auto simp: k0_def fanned_def split: phase.splits)
  then have "sub_inv gid slots ?s' sub k0 0"
    using f(4,5,6,9,11,13) ph nr by (auto simp: sub_inv_def Let_def fn replay_inv_def)
  then show ?thesis using p' by (auto simp: join_inv_def)
qed

lemma step_others:
  assumes inv: "join_inv gid slots s" and st: "reg_step (wo_reg (jo_world s)) r'"
    and pq: "registry_query r' ENTRY_PUBLISHER (Some (pb_topic_name (jo_pub s))) None None =
      registry_query (wo_reg (jo_world s)) ENTRY_PUBLISHER (Some (pb_topic_name (jo_pub s))) None None"
    and sv: "sub_view (pb_topic_name (jo_pub s)) r' = sub_view (pb_topic_name (jo_pub s)) (wo_reg (jo_world s))"
  shows "join_inv gid slots (s\<lparr>jo_world := (jo_world s)\<lparr>wo_reg := r'\<rparr>\<rparr>)"
proof -
  let ?s' = "s\<lparr>jo_world := (jo_world s)\<lparr>wo_reg := r'\<rparr>\<rparr>"
  have pi: "pub_inv gid slots s" using inv by (simp add: join_inv_def)
  have p': "pub_inv gid slots ?s'"
    by (rule pub_inv_world[OF pi]) (use st pq pi in \<open>simp_all add: pub_inv_def Let_def\<close>)
  have fn: "fanned ?s' = fanned s" by (simp add: fanned_def)
  show ?thesis
  proof (rule join_inv_step[OF inv p'])
    fix sub :: "'a subscription" and k0 c assume si: "sub_inv gid slots s sub k0 c"
    have "replay_inv gid slots ?s' sub k0 c = replay_inv gid slots s sub k0 c" by (rule replay_inv_same) simp_all
    then show "sub_inv gid slots ?s' sub k0 c" using si unfolding sub_inv_def Let_def fn by (simp add: sv)
  qed simp_all
qed

lemma replay_facts:
  assumes pi: "pub_inv gid slots s" and calm: "calm sy" and live: "live_sub sub" "su_topic_name sub = pb_topic_name (jo_pub s)"
    and new: "su_inbox sub = new_inbox"
  shows "\<exists>ib. replay sy (jo_world s) sub = sub\<lparr>su_inbox := ib\<rparr> \<and>
    ib_watermarks ib gid = (if jo_hist s = [] then None else Some (of_nat (length (jo_hist s)))) \<and>
    msgs (ib_queue ib) = lastn (su_queue_depth sub) (drop (length (jo_hist s) - min slots (su_queue_depth sub)) (jo_hist s))"
proof -
  let ?w = "jo_world s" and ?hist = "jo_hist s" and ?d = "su_queue_depth sub" and ?ring = "pb_tl_ring (jo_pub s)"
  obtain pq where i: "good_hist gid ?hist" "tl_ok (wo_fs ?w) ?ring gid slots ?hist"
    and pq: "registry_query (wo_reg ?w) ENTRY_PUBLISHER (Some (pb_topic_name (jo_pub s))) None None = [pq]" "qr_gid pq = gid"
      "q_durability (qr_qos pq) = DURABILITY_TRANSIENT_LOCAL" "qr_socket_path pq = tw_shm_name ?ring"
    using pi by (auto simp: pub_inv_def Let_def)
  have d: "0 < ?d" "q_durability (su_qos sub) = DURABILITY_TRANSIENT_LOCAL" "\<not> su_ignore_local sub"
    using live(1) by (simp_all add: live_sub_def)
  have ne: "tw_shm_name ?ring \<noteq> []" using i(2) by (auto simp: tl_ok_def)
  have len: "length ?hist < 2 ^ 31" using i(1) by (simp add: good_hist_def)
  let ?xs = "drop (length ?hist - min slots ?d) ?hist"
  have pull: "tl_ring_pull (sy_reader sy) (sy_look sy) (wo_fs ?w) (tw_shm_name ?ring) gid ?d =
    \<lparr>pu_ok = (?hist \<noteq> []), pu_records = map pulled ?xs,
     pu_max_seq = (if ?hist = [] then 0 else wh_sequence_number (fst (last ?hist))), pu_overlapped = False\<rparr>"
    using pull_history[OF i(2) good_hist_increasing[OF i(1)] len d(1)] calm by (simp add: calm_def)
  have rp: "replay sy ?w sub = sub\<lparr>su_inbox := snd (replay_publisher sy (wo_fs ?w) sub pq ([], new_inbox))\<rparr>"
    by (simp add: replay_def d(2) live(2) pq(1) new)
  show ?thesis
  proof (cases "?hist = []")
    case True
    then show ?thesis
      using pull ne d(3) by (intro exI[of _ new_inbox]) (simp add: rp replay_publisher_def pq Let_def new_inbox_def lastn_def)
  next
    case False
    let ?mx = "wh_sequence_number (fst (last ?hist))"
    have mx: "?mx = of_nat (length ?hist)"
    proof -
      have "good_sample gid (length ?hist - 1) (?hist ! (length ?hist - 1))" using i(1) False by (simp add: good_hist_def)
      then show ?thesis using False by (simp add: good_sample_def last_conv_nth)
    qed
    have ok: "\<forall>x\<in>set ?xs. wf_header (fst x) \<and> wh_msg_type (fst x) = 0"
      using good_hist_in[OF i(1)] by (blast dest: in_set_dropD)
    obtain q' where a: "absorb (sy_reader sy) (wo_fs ?w) (cx_domain_id (su_context sub)) ?d (sy_now_ns sy) (map pulled ?xs) ?mx [] []
        = (q', ?mx, [])" "msgs [] = lastn ?d [] \<longrightarrow> msgs q' = lastn ?d ([] @ ?xs)"
      using absorb_samples[OF ok] by blast
    have "replay_publisher sy (wo_fs ?w) sub pq ([], new_inbox) =
        ([], new_inbox\<lparr>ib_queue := q', ib_watermarks := (ib_watermarks new_inbox)(gid \<mapsto> ?mx)\<rparr>)"
      using pull ne d(3) a(1) False by (simp add: replay_publisher_def pq Let_def claimed_def new_inbox_def)
    then show ?thesis
      using a(2) False
      by (intro exI[of _ "new_inbox\<lparr>ib_queue := q', ib_watermarks := (ib_watermarks new_inbox)(gid \<mapsto> ?mx)\<rparr>"])
        (simp add: rp mx lastn_def)
  qed
qed

lemma step_replay:
  assumes inv: "join_inv gid slots s" and sub: "jo_sub s = Some sub" "\<not> jo_replayed s" and calm: "calm sy"
  shows "join_inv gid slots (s\<lparr>jo_sub := Some (replay sy (jo_world s) sub), jo_replayed := True\<rparr>)"
proof -
  let ?s' = "s\<lparr>jo_sub := Some (replay sy (jo_world s) sub), jo_replayed := True\<rparr>"
  have pi: "pub_inv gid slots s" using inv by (simp add: join_inv_def)
  obtain k0 c where si: "sub_inv gid slots s sub k0 c" using inv sub(1) by (auto simp: join_inv_def)
  have l: "live_sub sub" "su_topic_name sub = pb_topic_name (jo_pub s)" "su_inbox sub = new_inbox" "c = 0"
    using si sub(2) by (simp_all add: sub_inv_def Let_def replay_inv_def)
  obtain ib where ib: "replay sy (jo_world s) sub = sub\<lparr>su_inbox := ib\<rparr>"
    "ib_watermarks ib gid = (if jo_hist s = [] then None else Some (of_nat (length (jo_hist s))))"
    "msgs (ib_queue ib) = lastn (su_queue_depth sub) (drop (length (jo_hist s) - min slots (su_queue_depth sub)) (jo_hist s))"
    using replay_facts[OF pi calm l(1-3)] by blast
  have k0: "k0 \<le> length (jo_hist s)"
    using si pi by (cases "jo_phase s") (auto simp: sub_inv_def Let_def fanned_def pub_inv_def in_flight_def)
  have "replay_inv gid slots ?s' (sub\<lparr>su_inbox := ib\<rparr>) k0 c"
    unfolding replay_inv_def using ib(2,3) k0 by (auto simp: l(4) intro!: exI[of _ "length (jo_hist s)"])
  moreover have fn: "fanned ?s' = fanned s" by (simp add: fanned_def)
  ultimately have "sub_inv gid slots ?s' (sub\<lparr>su_inbox := ib\<rparr>) k0 c"
    using si unfolding sub_inv_def Let_def fn by (simp add: live_sub_def)
  moreover have "pub_inv gid slots ?s'" using pi by (simp add: pub_inv_def Let_def)
  ultimately show ?thesis by (auto simp: join_inv_def ib(1))
qed

lemma filter_tail:
  "(\<And>k. k < length xs \<Longrightarrow> P (xs ! k) \<longleftrightarrow> n \<le> k) \<Longrightarrow> filter P (drop a xs) = drop (max n a) xs"
proof (induction xs rule: rev_induct)
  case (snoc x xs)
  have "filter P (drop a xs) = drop (max n a) xs"
    using snoc.prems by (intro snoc.IH) (metis length_append_singleton less_SucI nth_append)
  moreover have "P x \<longleftrightarrow> n \<le> length xs" using snoc.prems[of "length xs"] by simp
  ultimately show ?case by (cases "a \<le> length xs") (auto simp: max_def)
qed simp

lemma drop_take_join:
  assumes "j \<le> m" "m \<le> f"
  shows "drop j (take m xs) @ drop m (take f xs) = drop j (take f xs)"
proof -
  have "take f xs = take m xs @ drop m (take f xs)"
    using append_take_drop_id[of m "take f xs"] assms(2) by (simp add: min.absorb1)
  then have "drop j (take f xs) = drop j (take m xs) @ drop (j - length (take m xs)) (drop m (take f xs))"
    using drop_append[of j "take m xs" "drop m (take f xs)"] by simp
  then show ?thesis using assms(1) by (cases "m \<le> length xs") simp_all
qed

lemma drained_history:
  assumes gh: "good_hist gid hist" and f: "f \<le> length hist" and nq: "k0 \<le> nq" "nq \<le> length hist"
    and c: "if k0 \<le> f then k0 + c \<le> f else c = 0"
    and marks: "ib_watermarks ib gid = (if nq = 0 then None else Some (of_nat nq))"
  shows "drop (nq - m) (take (max nq (k0 + c)) hist) @ filter (passes ib) (drop (k0 + c) (take f hist)) =
    drop (nq - m) (take (max nq f) hist)"
proof -
  have "passes ib (take f hist ! k) \<longleftrightarrow> nq \<le> k" if k: "k < length (take f hist)" for k
  proof -
    have kl: "k < length hist" "take f hist ! k = hist ! k" using k f by simp_all
    have g: "wh_gid (fst (hist ! k)) = gid" using gh kl(1) by (simp add: good_hist_def good_sample_def)
    have sq: "sint (wh_sequence_number (fst (hist ! k))) = int (Suc k)" by (rule good_sample_seq[OF gh kl(1)])
    have "nq < 2 ^ 63" using nq(2) gh by (simp add: good_hist_def)
    then have "nq \<noteq> 0 \<Longrightarrow> sint (of_nat nq :: u64) = int nq" using sint_small by blast
    then show ?thesis using g sq marks by (auto simp: passes_def is_replayed_duplicate_def kl(2))
  qed
  then have fl: "filter (passes ib) (drop (k0 + c) (take f hist)) = drop (max nq (k0 + c)) (take f hist)"
    by (rule filter_tail)
  show ?thesis
  proof (cases "max nq (k0 + c) \<le> f")
    case True
    then show ?thesis unfolding fl using drop_take_join[of "nq - m" "max nq (k0 + c)" f hist] by (simp add: max.absorb2)
  next
    case False
    then have "max nq (k0 + c) = nq" "max nq f = nq" using c nq(1) by (auto split: if_splits)
    then show ?thesis unfolding fl using False by simp
  qed
qed

lemma step_drain:
  assumes inv: "join_inv gid slots s" and sub: "jo_sub s = Some sub" "jo_replayed s" and calm: "calm sy"
    and d: "drain_subscription sy sub (jo_world s) = (sub', w')"
  shows "join_inv gid slots (s\<lparr>jo_sub := Some sub', jo_world := w'\<rparr>)"
proof -
  let ?s' = "s\<lparr>jo_sub := Some sub', jo_world := w'\<rparr>" and ?w = "jo_world s" and ?hist = "jo_hist s" and ?dep = "su_queue_depth sub"
  let ?ib = "su_inbox sub"
  have pi: "pub_inv gid slots s" using inv by (simp add: join_inv_def)
  have gh: "good_hist gid ?hist" using pi by (simp add: pub_inv_def Let_def)
  obtain k0 c where si: "sub_inv gid slots s sub k0 c" using inv sub(1) by (auto simp: join_inv_def)
  let ?xs = "drop (k0 + c) (take (fanned s) ?hist)"
  have f: "live_sub sub" "nt_queue (wo_net ?w) (su_socket sub) = map dgram ?xs"
    "if k0 \<le> fanned s then k0 + c \<le> fanned s else c = 0" "replay_inv gid slots s sub k0 c"
    using si by (simp_all add: sub_inv_def Let_def)
  obtain nq where nq: "k0 \<le> nq" "nq \<le> length ?hist" "ib_watermarks ?ib gid = (if nq = 0 then None else Some (of_nat nq))"
    "msgs (ib_queue ?ib) = lastn ?dep (drop (nq - min slots ?dep) (take (max nq (k0 + c)) ?hist))"
    using f(4)[unfolded replay_inv_def if_P[OF sub(2)]] by blast
  have ok: "\<forall>x\<in>set ?xs. wf_header (fst x) \<and> wh_msg_type (fst x) = 0 \<and> unat (wh_payload_size (fst x)) = length (snd x)"
    using good_hist_in[OF gh] by (blast dest: in_set_dropD in_set_takeD)
  have cfg: "dc_msg_type (sub_cfg sub) = 0" "dc_dedup (sub_cfg sub)" "\<not> dc_ignore_local (sub_cfg sub)" "dc_depth (sub_cfg sub) = Some ?dep"
    using f(1) by (simp_all add: sub_cfg_def live_sub_def uds_defs)
  obtain ib' buf' n where l: "drain_loop (sy_reader sy) (wo_fs ?w) (sub_cfg sub) (sy_now_ns sy) [] (wo_recv_buf ?w) (map dgram ?xs) ?ib
      = (ib', [], buf', n)" "ib_watermarks ib' = ib_watermarks ?ib"
    "msgs (ib_queue ?ib) = lastn ?dep (drop (nq - min slots ?dep) (take (max nq (k0 + c)) ?hist)) \<longrightarrow>
     msgs (ib_queue ib') = lastn ?dep (drop (nq - min slots ?dep) (take (max nq (k0 + c)) ?hist) @ filter (passes ?ib) ?xs)"
    using drain_samples[OF ok cfg] by blast
  have q': "msgs (ib_queue ib') = lastn ?dep (drop (nq - min slots ?dep) (take (max nq (fanned s)) ?hist))"
    using l(3) nq(4) drained_history[OF gh fanned_le nq(1,2) f(3) nq(3)] by simp
  have res: "su_inbox sub' = ib'" "su_queue_depth sub' = ?dep" "su_socket sub' = su_socket sub" "live_sub sub' = live_sub sub"
    "su_topic_name sub' = su_topic_name sub" "wo_fs w' = wo_fs ?w" "wo_reg w' = wo_reg ?w"
    "wo_net w' = (wo_net ?w)\<lparr>nt_queue := (nt_queue (wo_net ?w))(su_socket sub := [])\<rparr>"
    using d calm l(1) f(2) by (auto simp: drain_subscription_def drain_def calm_def live_sub_def)
  have p': "pub_inv gid slots ?s'"
    by (rule pub_inv_world[OF pi]) (use pi in \<open>simp_all add: res pub_inv_def Let_def net_wf_def\<close>)
  have fn: "fanned ?s' = fanned s" by (simp add: fanned_def)
  define c' where "c' = (if k0 \<le> fanned s then fanned s - k0 else 0)"
  have mx: "max nq (k0 + c') = max nq (fanned s)" using nq(1) by (auto simp: c'_def)
  have rep: "jo_replayed ?s'" using sub(2) by simp
  have "replay_inv gid slots ?s' sub' k0 c'"
    unfolding replay_inv_def if_P[OF rep]
    by (intro exI[of _ nq] conjI) (use nq(1-3) q' in \<open>simp_all add: res l(2) mx del: max_0L\<close>)
  moreover have cp: "copies (wo_net w') ps sock = copies (wo_net ?w) ps sock" for ps sock
    by (rule copies_cong) (simp add: res)
  moreover have "addressed (jo_phase s) k0 (fanned s) (wo_net w') sock = addressed (jo_phase s) k0 (fanned s) (wo_net ?w) sock" for sock
    by (cases "jo_phase s") (simp_all add: cp)
  moreover have "fanned s \<le> k0 + c'" "if k0 \<le> fanned s then k0 + c' \<le> fanned s else c' = 0" by (auto simp: c'_def)
  ultimately have "sub_inv gid slots ?s' sub' k0 c'"
    using si unfolding sub_inv_def Let_def fn by (simp add: res)
  then show ?thesis using p' by (auto simp: join_inv_def)
qed

lemma join_inv_preserved:
  assumes "join_step s s'" "join_inv gid slots s"
  shows "join_inv gid slots s'"
  using assms(1)
proof cases
  case (latch sy payload lo pub' w')
  show ?thesis unfolding latch(1) by (rule step_latch[OF assms(2) latch(2-6)])
next
  case (refresh lo payload paths pub')
  show ?thesis unfolding refresh(1) by (rule step_refresh[OF assms(2) refresh(2,3)])
next
  case (send lo payload paths sy hdr wire ret w')
  show ?thesis unfolding send(1) by (rule step_send[OF assms(2) send(2-5)])
next
  case (register qos sy node cb sub w')
  show ?thesis unfolding register(1) by (rule step_register[OF assms(2) register(2-5)])
next
  case (replay sub sy)
  show ?thesis unfolding replay(1) by (rule step_replay[OF assms(2) replay(2-4)])
next
  case (drain sub sy sub' w')
  show ?thesis unfolding drain(1) by (rule step_drain[OF assms(2) drain(2-5)])
next
  case (others r')
  show ?thesis unfolding others(1) by (rule step_others[OF assms(2) others(2-4)])
qed


inductive_cases join_stepE: "join_step s s'"

definition join_init :: "gid \<Rightarrow> nat \<Rightarrow> 'm join \<Rightarrow> bool" where
  "join_init gid slots s \<longleftrightarrow> jo_phase s = Idle \<and> jo_sub s = None \<and> \<not> jo_replayed s \<and> jo_hist s = [] \<and> pub_inv gid slots s"

interpretation joins: transition_invariant join_step "join_inv gid slots" for gid slots
  by unfold_locales (rule join_inv_preserved)

lemma join_reachable: "join_step\<^sup>*\<^sup>* s s' \<Longrightarrow> join_init gid slots s \<Longrightarrow> join_inv gid slots s'"
  by (erule joins.steps_keep) (simp add: join_init_def join_inv_def)

lemma lastn_drop: "j \<le> length xs - k \<Longrightarrow> lastn k (drop j xs) = lastn k xs"
  by (cases "k \<le> length xs") (simp_all add: lastn_def)


section \<open>A concrete run\<close>

text \<open>The publisher latches and sends one sample; then the joiner registers and pulls.\<close>

definition gid1 :: gid where "gid1 = replicate 16 3"
definition qos1 :: qos_profile where "qos1 = zero_qos\<lparr>q_durability := DURABILITY_TRANSIENT_LOCAL\<rparr>"

definition slot1 :: "string \<Rightarrow> slot" where
  "slot1 name = \<lparr>sl_seq = 2, sl_state = ENTRY_PUBLISHER, sl_payload = zero_payload\<lparr>pl_gid := gid1, pl_topic_name := ''/t'',
     pl_socket_path := name, pl_qos_durability := ucast DURABILITY_TRANSIENT_LOCAL\<rparr>\<rparr>"

definition reg1 :: "string \<Rightarrow> registry" where
  "reg1 name = \<lparr>rg_slots = [slot1 name, zero_slot], rg_generation = 1, rg_high_water = 1\<rparr>"

definition world1 :: "shm_fs \<Rightarrow> string \<Rightarrow> world" where
  "world1 fs name = \<lparr>wo_reg = reg1 name, wo_fs = fs, wo_net = \<lparr>nt_bound = Map.empty, nt_queue = (\<lambda>_. []), nt_next = 1\<rparr>,
     wo_owner_ctr = 2, wo_gid_ctr = 1, wo_path_ctr = 1, wo_uid_ctr = 1, wo_recv_buf = 0\<rparr>"

definition pub1 :: "tl_writer \<Rightarrow> bytes publisher" where
  "pub1 ring = (new_publisher ctx0 gid1 ''/t'' bytes_callbacks qos1)\<lparr>pb_tl_ring := ring\<rparr>"

definition join1 :: "shm_fs \<Rightarrow> tl_writer \<Rightarrow> bytes join" where
  "join1 fs ring = \<lparr>jo_world = world1 fs (tw_shm_name ring), jo_pub = pub1 ring, jo_phase = Idle, jo_sub = None,
     jo_replayed = False, jo_hist = []\<rparr>"

lemma wf_reg1: "wf_registry (reg1 name)"
  by (auto simp: wf_registry_def reg1_def slot1_def zero_slot_def wf_slot_def max_entries_def occupied_def less_Suc_eq uds_defs)

lemma entries_reg1: "List.map_filter (entries (reg1 name)) [0..<max_entries (reg1 name)] =
    [\<lparr>en_type = ENTRY_PUBLISHER, en_payload = sl_payload (slot1 name)\<rparr>]"
  by (simp add: reg1_def max_entries_def entries_def slot_entry_def occupied_def zero_slot_def slot1_def List.map_filter_simps uds_defs)

lemma reg1_views:
  "sub_view ''/t'' (reg1 name) = []"
  "registry_query (reg1 name) ENTRY_PUBLISHER (Some ''/t'') None None =
     [entry_result \<lparr>en_type = ENTRY_PUBLISHER, en_payload = sl_payload (slot1 name)\<rparr>]"
  unfolding sub_view_def subscriber_paths_def registry_query_spec[OF wf_reg1] query_spec_def entries_reg1
  by (simp_all add: entry_matches_def matches_def slot1_def uds_defs)

lemma reg1_room: "first_free (max_entries (reg1 name)) (entries (reg1 name)) \<noteq> None"
  by (auto simp: first_free_None reg1_def max_entries_def entries_def slot_entry_def occupied_def zero_slot_def
      intro!: exI[of _ 1])

lemma join1_init:
  assumes "tl_ring_create env0 0 gid1 10 empty_fs 1 new_tl_writer = (True, fs, ctr, ring)"
  shows "join_init gid1 (tl_slot_count 10) (join1 fs ring)"
proof -
  have t: "tl_ok fs ring gid1 (tl_slot_count 10) []" by (rule tl_ring_create_ok[OF assms]) (simp add: gid1_def)
  have "tw_durable_segs ring = replicate (tl_slot_count 10) None"
    using assms by (auto simp: tl_ring_create_def Let_def split: option.splits if_splits prod.splits)
  then show ?thesis
    using t wf_reg1
    by (simp add: join_init_def join1_def pub_inv_def Let_def good_hist_def gid1_def pub1_def new_publisher_def world1_def
        cache_coherent_def memo_coherent_def registry_generation_def net_wf_def in_flight_def reg1_views entry_result_def
        to_result_def snapshot_to_qos_def slot1_def policy_defs)
      (simp add: reg1_def)
qed

lemma register_succeeds:
  assumes "ne_socket_ok (sy_net sy)" "ne_bind_ok (sy_net sy)" "sy_handle_ok sy" "nt_bound (wo_net w) = Map.empty"
    and "wf_registry (wo_reg w)" "first_free (max_entries (wo_reg w)) (entries (wo_reg w)) \<noteq> None"
  shows "\<exists>sub w'. register_subscription sy node cb topic qos None w = (Some sub, w')"
proof -
  have add: "0 \<le> fst (add_entry sy e v)" if "wf_entry e" "wo_reg v = wo_reg w" for e v
  proof -
    obtain k r effs rung where a: "registry_add (sy_ring sy) (sy_proc sy) (wo_reg w) e = (k, r, effs, rung)"
      by (cases "registry_add (sy_ring sy) (sy_proc sy) (wo_reg w) e")
    have "(k, entries r) = add_spec (sy_proc sy) (max_entries (wo_reg w)) (entries (wo_reg w)) e"
      using registry_add_props[OF assms(5) that(1) a] by blast
    then show ?thesis using assms(6) a that(2) by (auto simp: add_entry_def add_spec_def)
  qed
  let ?path = "make_socket_path (cx_domain_id (nd_context node)) ''sub'' (sy_pid sy) (wo_path_ctr w) (se_now_us (sy_shm sy))"
  obtain gid gctr where g: "gid_generate (of_int (sy_pid sy)) (cx_context_id (nd_context node)) (wo_gid_ctr w) = (gid, gctr)" by fastforce
  obtain uid uctr where u: "next_entity_uid (wo_uid_ctr w) = (uid, uctr)" by fastforce
  let ?w1 = "w\<lparr>wo_uid_ctr := uctr, wo_gid_ctr := gctr, wo_path_ctr := wo_path_ctr w + 1\<rparr>"
  let ?sub = "new_subscription (nd_context node) uid gid topic cb qos None ?path :: 'a subscription"
  let ?e = "entity_entry sy ENTRY_SUBSCRIPTION node gid topic (su_type_name ?sub) ?path (su_qos ?sub)"
  obtain sock net where b: "create_bound_socket (sy_net sy) (wo_net w) ?path = (Some sock, net)"
    using assms(1,2,4) by (simp add: create_bound_socket_def net_unlink_def Let_def)
  obtain index w2 where i: "add_entry sy ?e (?w1\<lparr>wo_net := net\<rparr>) = (index, w2)" by fastforce
  have "wf_entry ?e" by (simp add: wf_entry_def entity_entry_def uds_defs)
  then have "0 \<le> index" using add[of ?e "?w1\<lparr>wo_net := net\<rparr>"] i by simp
  then show ?thesis using assms(3) by (simp add: register_subscription_def g u b i Let_def)
qed


lemma calm0: "calm sys0"
  by (simp add: calm_def sys0_def net_up_def)


end
