(* ===== verification/Uds_Node.thy ===== *)
theory Uds_Node
  imports Uds_World
begin

text \<open>
  Guard conditions (\<^verbatim>\<open>rmw_guard_condition.cpp\<close>), the mutable part of a context
  (\<^verbatim>\<open>UdsContext\<close>), nodes (\<^verbatim>\<open>rmw_node.cpp\<close>) and events (\<^verbatim>\<open>rmw_event.cpp\<close>). Guard conditions
  are shared by pointer between the application, the nodes and the context, so a process has
  a table of the live ones; destroying one takes it out of the table.
\<close>

section \<open>Guard conditions\<close>

record guard_condition =
  gd_uid :: u64
  gd_eventfd :: nat
  gd_count :: u64     \<comment> \<open>the eventfd's counter\<close>

record process =
  pc_world :: world
  pc_gcs :: "nat \<rightharpoonup> guard_condition"   \<comment> \<open>live guard conditions by pointer\<close>
  pc_next_gc :: nat

text \<open>What can fail around a guard condition and a node, beyond \<open>sys\<close>.\<close>

record node_env =
  nv_gc_new_ok :: bool
  nv_eventfd :: "nat option"     \<comment> \<open>the descriptor \<^verbatim>\<open>eventfd\<close> returns\<close>
  nv_gc_handle_ok :: bool
  nv_dup_name_ok :: bool
  nv_dup_namespace_ok :: bool

definition create_guard_condition :: "node_env \<Rightarrow> process \<Rightarrow> nat option \<times> process" where
  "create_guard_condition nv p =
     (if \<not> nv_gc_new_ok nv then (None, p)
      else (let w = pc_world p; (uid, uctr) = next_entity_uid (wo_uid_ctr w);
                p1 = p\<lparr>pc_world := w\<lparr>wo_uid_ctr := uctr\<rparr>\<rparr>
            in case nv_eventfd nv of
                 None \<Rightarrow> (None, p1)
               | Some fd \<Rightarrow>
                   if \<not> nv_gc_handle_ok nv then (None, p1)
                   else (Some (pc_next_gc p1),
                         p1\<lparr>pc_gcs := (pc_gcs p1)(pc_next_gc p1 \<mapsto> \<lparr>gd_uid = uid, gd_eventfd = fd, gd_count = 0\<rparr>),
                            pc_next_gc := Suc (pc_next_gc p1)\<rparr>)))"

definition rmw_create_guard_condition ::
    "node_env \<Rightarrow> 'c handle option \<Rightarrow> process \<Rightarrow> nat handle option \<times> process" where
  "rmw_create_guard_condition nv context p =
     (case guard_entry context True of
        Inl _ \<Rightarrow> (None, p)
      | Inr _ \<Rightarrow>
          (case create_guard_condition nv p of
             (g, p') \<Rightarrow> (map_option (\<lambda>d. \<lparr>hn_identifier = uds_identifier, hn_data = d\<rparr>) g, p')))"

definition destroy_guard_condition :: "nat \<Rightarrow> process \<Rightarrow> process" where
  "destroy_guard_condition g p = p\<lparr>pc_gcs := (pc_gcs p)(g := None)\<rparr>"

definition rmw_destroy_guard_condition :: "nat handle option \<Rightarrow> process \<Rightarrow> rmw_ret \<times> process" where
  "rmw_destroy_guard_condition h p =
     (case guard_entry h True of
        Inl r \<Rightarrow> (r, p)
      | Inr g \<Rightarrow> (RMW_RET_OK, destroy_guard_condition g p))"

text \<open>
  A write of 1 to an eventfd adds to its counter unless that would reach the largest value,
  when the non-blocking write fails; the result is not looked at. \<open>None\<close> is a dangling pointer,
  whose use is undefined in the source.
\<close>

definition eventfd_write :: "u64 \<Rightarrow> u64" where
  "eventfd_write c = (if c \<ge> 0xFFFFFFFFFFFFFFFE then c else c + 1)"

definition trigger_guard_condition :: "nat \<Rightarrow> process \<Rightarrow> process option" where
  "trigger_guard_condition g p =
     (case pc_gcs p g of
        None \<Rightarrow> None
      | Some gd \<Rightarrow> Some (p\<lparr>pc_gcs := (pc_gcs p)(g \<mapsto> gd\<lparr>gd_count := eventfd_write (gd_count gd)\<rparr>)\<rparr>))"

definition rmw_trigger_guard_condition :: "nat handle option \<Rightarrow> process \<Rightarrow> (rmw_ret \<times> process) option" where
  "rmw_trigger_guard_condition h p =
     (case guard_entry h True of
        Inl r \<Rightarrow> Some (r, p)
      | Inr g \<Rightarrow> (case trigger_guard_condition g p of None \<Rightarrow> None | Some p' \<Rightarrow> Some (RMW_RET_OK, p')))"

text \<open>A read of an eventfd returns its counter and clears it; nothing to read when it is zero.\<close>

definition eventfd_read :: "nat \<Rightarrow> process \<Rightarrow> bool \<times> process" where
  "eventfd_read g p =
     (case pc_gcs p g of
        None \<Rightarrow> (False, p)
      | Some gd \<Rightarrow>
          if gd_count gd = 0 then (False, p)
          else (True, p\<lparr>pc_gcs := (pc_gcs p)(g \<mapsto> gd\<lparr>gd_count := 0\<rparr>)\<rparr>))"

section \<open>Contexts\<close>

record context_state =
  cs_ids :: uds_context
  cs_is_shutdown :: bool
  cs_last_registry_generation :: u64
  cs_last_cleanup_ns :: int
  cs_doorbell_socket :: nat
  cs_doorbell_path :: string
  cs_doorbell_registered :: bool
  cs_doorbell_registry_index :: int
  cs_graph_gcs :: "nat list"      \<comment> \<open>pointers to the nodes' graph guard conditions\<close>

section \<open>Nodes\<close>

definition node_entry :: "sys \<Rightarrow> string \<Rightarrow> string \<Rightarrow> reg_entry" where
  "node_entry sy name ns =
     \<lparr>en_type = ENTRY_NODE,
      en_payload = zero_payload\<lparr>pl_pid := sy_pid sy, pl_node_name := fit 256 name, pl_node_namespace := fit 256 ns\<rparr>\<rparr>"

definition create_node ::
    "sys \<Rightarrow> node_env \<Rightarrow> context_state \<Rightarrow> string \<Rightarrow> string \<Rightarrow> process \<Rightarrow> uds_node option \<times> context_state \<times> process" where
  "create_node sy nv ctx name ns p =
     (case create_guard_condition nv p of
        (None, p1) \<Rightarrow> (None, ctx, p1)
      | (Some graph_gc, p1) \<Rightarrow>
          if \<not> sy_new_ok sy then (None, ctx, destroy_guard_condition graph_gc p1)
          else (let (index, w) = add_entry sy (node_entry sy name ns) (pc_world p1); p2 = p1\<lparr>pc_world := w\<rparr>
                in if index < 0 then (None, ctx, destroy_guard_condition graph_gc p2)
                   else if \<not> sy_handle_ok sy \<or> \<not> nv_dup_name_ok nv \<or> \<not> nv_dup_namespace_ok nv
                   then (None, ctx,
                         destroy_guard_condition graph_gc (p2\<lparr>pc_world := remove_entry sy index (pc_world p2)\<rparr>))
                   else (Some \<lparr>nd_name = name, nd_ns = ns, nd_context = cs_ids ctx,
                               nd_graph_guard_condition = Some graph_gc, nd_registry_index = index\<rparr>,
                         ctx\<lparr>cs_graph_gcs := cs_graph_gcs ctx @ [graph_gc]\<rparr>, p2)))"

definition rmw_create_node ::
    "sys \<Rightarrow> node_env \<Rightarrow> context_state handle option \<Rightarrow> string option \<Rightarrow> string option \<Rightarrow> process \<Rightarrow>
       uds_node handle option \<times> context_state handle option \<times> process" where
  "rmw_create_node sy nv context name ns p =
     (case (guard_entry context (name \<noteq> None \<and> ns \<noteq> None), name, ns) of
        (Inr ctx, Some nm, Some n) \<Rightarrow>
          (case create_node sy nv ctx nm n p of
             (node, ctx', p') \<Rightarrow>
               (map_option (\<lambda>d. \<lparr>hn_identifier = uds_identifier, hn_data = d\<rparr>) node,
                Some \<lparr>hn_identifier = uds_identifier, hn_data = ctx'\<rparr>, p'))
      | _ \<Rightarrow> (None, context, p))"

text \<open>
  Destruction: the registry entry, then the guard condition is taken off the context's list
  before it is destroyed.
\<close>

definition destroy_node :: "sys \<Rightarrow> uds_node \<Rightarrow> context_state \<Rightarrow> process \<Rightarrow> context_state \<times> process" where
  "destroy_node sy node ctx p =
     (let p1 = (if nd_registry_index node \<ge> 0
                then p\<lparr>pc_world := remove_entry sy (nd_registry_index node) (pc_world p)\<rparr> else p)
      in case nd_graph_guard_condition node of
           None \<Rightarrow> (ctx, p1)
         | Some gc \<Rightarrow>
             (ctx\<lparr>cs_graph_gcs := filter (\<lambda>g. g \<noteq> gc) (cs_graph_gcs ctx)\<rparr>, destroy_guard_condition gc p1))"

definition rmw_destroy_node ::
    "sys \<Rightarrow> uds_node handle option \<Rightarrow> context_state \<Rightarrow> process \<Rightarrow> rmw_ret \<times> context_state \<times> process" where
  "rmw_destroy_node sy h ctx p =
     (case guard_entry h True of
        Inl r \<Rightarrow> (r, ctx, p)
      | Inr node \<Rightarrow> (case destroy_node sy node ctx p of (ctx', p') \<Rightarrow> (RMW_RET_OK, ctx', p')))"

definition rmw_node_assert_liveliness :: "uds_node handle option \<Rightarrow> rmw_ret" where
  "rmw_node_assert_liveliness h = (case guard_entry h True of Inl r \<Rightarrow> r | Inr _ \<Rightarrow> RMW_RET_OK)"

definition rmw_node_get_graph_guard_condition :: "uds_node handle option \<Rightarrow> nat option" where
  "rmw_node_get_graph_guard_condition h =
     (case guard_entry h True of Inl _ \<Rightarrow> None | Inr node \<Rightarrow> nd_graph_guard_condition node)"

section \<open>Triggering every graph listener\<close>

text \<open>The loop of \<^verbatim>\<open>rmw_wait\<close> over the list. \<open>None\<close>: a freed guard condition was triggered.\<close>

fun trigger_all :: "nat list \<Rightarrow> process \<Rightarrow> process option" where
  "trigger_all [] p = Some p"
| "trigger_all (g # gs) p =
     (case rmw_trigger_guard_condition (Some \<lparr>hn_identifier = uds_identifier, hn_data = g\<rparr>) p of
        None \<Rightarrow> None
      | Some (_, p') \<Rightarrow> trigger_all gs p')"

section \<open>Events\<close>

record rmw_event =
  ev_identifier :: string
  ev_data :: nat        \<comment> \<open>pointer to the publisher's or subscription's data\<close>
  ev_type :: nat

definition rmw_publisher_event_init :: "bool \<Rightarrow> nat option \<Rightarrow> nat \<Rightarrow> rmw_ret \<times> rmw_event option" where
  "rmw_publisher_event_init event publisher event_type =
     (case publisher of
        Some d \<Rightarrow> if event then (RMW_RET_OK, Some \<lparr>ev_identifier = uds_identifier, ev_data = d, ev_type = event_type\<rparr>)
                  else (RMW_RET_INVALID_ARGUMENT, None)
      | None \<Rightarrow> (RMW_RET_INVALID_ARGUMENT, None))"

definition rmw_subscription_event_init :: "bool \<Rightarrow> nat option \<Rightarrow> nat \<Rightarrow> rmw_ret \<times> rmw_event option" where
  "rmw_subscription_event_init event subscription event_type =
     (case subscription of
        Some d \<Rightarrow> if event then (RMW_RET_OK, Some \<lparr>ev_identifier = uds_identifier, ev_data = d, ev_type = event_type\<rparr>)
                  else (RMW_RET_INVALID_ARGUMENT, None)
      | None \<Rightarrow> (RMW_RET_INVALID_ARGUMENT, None))"

definition rmw_take_event :: "bool \<Rightarrow> rmw_ret \<times> bool option" where
  "rmw_take_event taken = (if taken then (RMW_RET_OK, Some False) else (RMW_RET_INVALID_ARGUMENT, None))"

definition rmw_event_fini :: rmw_ret where "rmw_event_fini = RMW_RET_OK"

definition rmw_event_type_is_supported :: "nat \<Rightarrow> bool" where "rmw_event_type_is_supported event_type = False"

definition rmw_event_set_callback :: rmw_ret where "rmw_event_set_callback = RMW_RET_UNSUPPORTED"

end
