(* ===== verification/Uds_Graph.thy ===== *)
theory Uds_Graph
  imports Uds_Node "HOL-Library.Char_ord" "HOL-Library.List_Lexorder"
begin

text \<open>
  Graph queries (\<^verbatim>\<open>rmw_graph.cpp\<close>): node names, counts, names with types, and endpoint
  information, all answered from one registry query behind a throttled stale sweep.
\<close>

section \<open>The throttled sweep and the query\<close>

definition CLEANUP_MIN_INTERVAL_NS :: int where "CLEANUP_MIN_INTERVAL_NS = 1000000000"

text \<open>
  What one call meets: the steady clock, whether it wins the exchange of the stamp, and the
  outcomes of the allocations.
\<close>

record graph_env =
  gq_now :: int
  gq_cas_wins :: bool
  gq_dup :: "string \<Rightarrow> bool"            \<comment> \<open>\<^verbatim>\<open>rcutils_strdup\<close>\<close>
  gq_array :: "nat \<Rightarrow> nat \<Rightarrow> bool"      \<comment> \<open>the k-th \<^verbatim>\<open>rcutils_string_array_init\<close>, of that size\<close>
  gq_names_init :: "nat \<Rightarrow> rmw_ret"     \<comment> \<open>\<^verbatim>\<open>rmw_names_and_types_init\<close>\<close>
  gq_info_init :: "nat \<Rightarrow> rmw_ret"      \<comment> \<open>\<^verbatim>\<open>rmw_topic_endpoint_info_array_init_with_size\<close>\<close>
  gq_info_set :: "nat \<Rightarrow> nat \<Rightarrow> bool"   \<comment> \<open>the setter of a field of an array element\<close>

definition maybe_cleanup_stale :: "sys \<Rightarrow> graph_env \<Rightarrow> context_state \<Rightarrow> world \<Rightarrow> context_state \<times> world" where
  "maybe_cleanup_stale sy ge ctx w =
     (if gq_now ge - cs_last_cleanup_ns ctx < CLEANUP_MIN_INTERVAL_NS then (ctx, w)
      else if \<not> gq_cas_wins ge then (ctx, w)
      else (ctx\<lparr>cs_last_cleanup_ns := gq_now ge\<rparr>, sweep_entries sy w))"

definition query_all ::
    "sys \<Rightarrow> graph_env \<Rightarrow> entry_type \<Rightarrow> string option \<Rightarrow> string option \<Rightarrow> string option \<Rightarrow> context_state \<Rightarrow> world \<Rightarrow>
       query_result list \<times> context_state \<times> world" where
  "query_all sy ge ty topic node ns ctx w =
     (case maybe_cleanup_stale sy ge ctx w of
        (ctx', w') \<Rightarrow> (registry_query (wo_reg w') ty topic node ns, ctx', w'))"

text \<open>An entry point on a node: the checks, then a body on the context and the world.\<close>

definition on_node ::
    "uds_node handle option \<Rightarrow> bool \<Rightarrow> (context_state \<Rightarrow> world \<Rightarrow> (rmw_ret \<times> 'o option) \<times> context_state \<times> world) \<Rightarrow>
       context_state \<Rightarrow> world \<Rightarrow> (rmw_ret \<times> 'o option) \<times> context_state \<times> world" where
  "on_node h others body ctx w =
     (case guard_entry h others of Inl r \<Rightarrow> ((r, None), ctx, w) | Inr _ \<Rightarrow> body ctx w)"

section \<open>Node names\<close>

fun dup_names :: "(string \<Rightarrow> bool) \<Rightarrow> query_result list \<Rightarrow> bool" where
  "dup_names dup [] = True"
| "dup_names dup (n # ns) =
     (if \<not> dup (qr_node_name n) \<or> \<not> dup (qr_node_namespace n) then False else dup_names dup ns)"

definition node_names ::
    "sys \<Rightarrow> graph_env \<Rightarrow> context_state \<Rightarrow> world \<Rightarrow> (rmw_ret \<times> (string list \<times> string list) option) \<times> context_state \<times> world" where
  "node_names sy ge ctx w =
     (case query_all sy ge ENTRY_NODE None None None ctx w of
        (nodes, ctx', w') \<Rightarrow>
          (if \<not> gq_array ge 0 (length nodes) then (RMW_RET_ERROR, None)
           else if \<not> gq_array ge 1 (length nodes) then (RMW_RET_ERROR, None)
           else if \<not> dup_names (gq_dup ge) nodes then (RMW_RET_BAD_ALLOC, None)
           else (RMW_RET_OK, Some (map qr_node_name nodes, map qr_node_namespace nodes)), ctx', w'))"

definition rmw_get_node_names ::
    "sys \<Rightarrow> graph_env \<Rightarrow> uds_node handle option \<Rightarrow> bool \<Rightarrow> context_state \<Rightarrow> world \<Rightarrow>
       (rmw_ret \<times> (string list \<times> string list) option) \<times> context_state \<times> world" where
  "rmw_get_node_names sy ge h outs = on_node h outs (node_names sy ge)"

definition rmw_get_node_names_with_enclaves ::
    "sys \<Rightarrow> graph_env \<Rightarrow> uds_node handle option \<Rightarrow> bool \<Rightarrow> bool \<Rightarrow> context_state \<Rightarrow> world \<Rightarrow>
       (rmw_ret \<times> (string list \<times> string list \<times> string list) option) \<times> context_state \<times> world" where
  "rmw_get_node_names_with_enclaves sy ge h enclaves outs ctx w =
     (if h = None \<or> \<not> enclaves then ((RMW_RET_INVALID_ARGUMENT, None), ctx, w)
      else (case rmw_get_node_names sy ge h outs ctx w of
              ((r, None), ctx', w') \<Rightarrow> ((r, None), ctx', w')
            | ((r, Some (names, nss)), ctx', w') \<Rightarrow>
                (if \<not> gq_array ge 2 (length names) then (RMW_RET_ERROR, None)
                 else if names \<noteq> [] \<and> \<not> gq_dup ge ''/'' then (RMW_RET_BAD_ALLOC, None)
                 else (r, Some (names, nss, map (\<lambda>_. ''/'') names)), ctx', w')))"

section \<open>Counts\<close>

definition count_entries ::
    "sys \<Rightarrow> graph_env \<Rightarrow> entry_type \<Rightarrow> uds_node handle option \<Rightarrow> string option \<Rightarrow> bool \<Rightarrow> context_state \<Rightarrow> world \<Rightarrow>
       (rmw_ret \<times> nat option) \<times> context_state \<times> world" where
  "count_entries sy ge ty h topic out ctx w =
     on_node h (topic \<noteq> None \<and> out)
       (\<lambda>ctx w. case query_all sy ge ty topic None None ctx w of (qs, ctx', w') \<Rightarrow> ((RMW_RET_OK, Some (length qs)), ctx', w')) ctx w"

definition rmw_count_publishers where "rmw_count_publishers sy ge = count_entries sy ge ENTRY_PUBLISHER"
definition rmw_count_subscribers where "rmw_count_subscribers sy ge = count_entries sy ge ENTRY_SUBSCRIPTION"
definition rmw_count_clients where "rmw_count_clients sy ge = count_entries sy ge ENTRY_CLIENT"
definition rmw_count_services where "rmw_count_services sy ge = count_entries sy ge ENTRY_SERVICE"

section \<open>Names with their types\<close>

text \<open>
  \<^verbatim>\<open>std::map<std::string, std::set<std::string>>\<close>: both are ordered, so the map is a list of
  keys in order, each with its types in order.
\<close>

type_synonym names_types = "(string \<times> string list) list"

fun put_type :: "string \<Rightarrow> string \<Rightarrow> names_types \<Rightarrow> names_types" where
  "put_type k ty [] = [(k, [ty])]"
| "put_type k ty ((k', tys) # m) =
     (if k = k' then (k', insort_insert ty tys) # m
      else if k < k' then (k, [ty]) # (k', tys) # m
      else (k', tys) # put_type k ty m)"

definition collect_types :: "query_result list \<Rightarrow> names_types \<Rightarrow> names_types" where
  "collect_types qs m = fold (\<lambda>q. put_type (qr_topic_name q) (qr_type_name q)) qs m"

fun fill_loop :: "graph_env \<Rightarrow> nat \<Rightarrow> names_types \<Rightarrow> rmw_ret" where
  "fill_loop ge idx [] = RMW_RET_OK"
| "fill_loop ge idx ((topic, types) # m) =
     (if \<not> gq_dup ge topic then RMW_RET_BAD_ALLOC
      else if \<not> gq_array ge idx (length types) then RMW_RET_ERROR
      else if \<not> list_all (gq_dup ge) types then RMW_RET_BAD_ALLOC
      else fill_loop ge (Suc idx) m)"

definition fill_names_and_types :: "graph_env \<Rightarrow> names_types \<Rightarrow> rmw_ret \<times> names_types option" where
  "fill_names_and_types ge m =
     (let ret = gq_names_init ge (length m) in
      if ret \<noteq> RMW_RET_OK then (ret, None)
      else let r = fill_loop ge 0 m in if r = RMW_RET_OK then (RMW_RET_OK, Some m) else (r, None))"

text \<open>Two queries, each with its own clock reading; the arrays are built after the second.\<close>

definition names_and_types_of ::
    "sys \<Rightarrow> graph_env \<Rightarrow> graph_env \<Rightarrow> entry_type \<Rightarrow> entry_type \<Rightarrow> context_state \<Rightarrow> world \<Rightarrow>
       (rmw_ret \<times> names_types option) \<times> context_state \<times> world" where
  "names_and_types_of sy ge ge2 ty1 ty2 ctx w =
     (case query_all sy ge ty1 None None None ctx w of
        (qs1, ctx1, w1) \<Rightarrow>
          (case query_all sy ge2 ty2 None None None ctx1 w1 of
             (qs2, ctx2, w2) \<Rightarrow> (fill_names_and_types ge2 (collect_types qs2 (collect_types qs1 [])), ctx2, w2)))"

definition rmw_get_topic_names_and_types ::
    "sys \<Rightarrow> graph_env \<Rightarrow> graph_env \<Rightarrow> uds_node handle option \<Rightarrow> bool \<Rightarrow> context_state \<Rightarrow> world \<Rightarrow>
       (rmw_ret \<times> names_types option) \<times> context_state \<times> world" where
  "rmw_get_topic_names_and_types sy ge ge2 h outs = on_node h outs (names_and_types_of sy ge ge2 ENTRY_PUBLISHER ENTRY_SUBSCRIPTION)"

definition rmw_get_service_names_and_types ::
    "sys \<Rightarrow> graph_env \<Rightarrow> graph_env \<Rightarrow> uds_node handle option \<Rightarrow> bool \<Rightarrow> context_state \<Rightarrow> world \<Rightarrow>
       (rmw_ret \<times> names_types option) \<times> context_state \<times> world" where
  "rmw_get_service_names_and_types sy ge ge2 h outs = on_node h outs (names_and_types_of sy ge ge2 ENTRY_SERVICE ENTRY_CLIENT)"

definition get_names_types_by_node ::
    "sys \<Rightarrow> graph_env \<Rightarrow> entry_type \<Rightarrow> uds_node handle option \<Rightarrow> string option \<Rightarrow> string option \<Rightarrow> bool \<Rightarrow>
       context_state \<Rightarrow> world \<Rightarrow> (rmw_ret \<times> names_types option) \<times> context_state \<times> world" where
  "get_names_types_by_node sy ge ty h name ns outs ctx w =
     on_node h (name \<noteq> None \<and> ns \<noteq> None \<and> outs)
       (\<lambda>ctx w. case query_all sy ge ty None name ns ctx w of
                  (qs, ctx', w') \<Rightarrow> (fill_names_and_types ge (collect_types qs []), ctx', w')) ctx w"

definition rmw_get_subscriber_names_and_types_by_node where
  "rmw_get_subscriber_names_and_types_by_node sy ge = get_names_types_by_node sy ge ENTRY_SUBSCRIPTION"
definition rmw_get_publisher_names_and_types_by_node where
  "rmw_get_publisher_names_and_types_by_node sy ge = get_names_types_by_node sy ge ENTRY_PUBLISHER"
definition rmw_get_service_names_and_types_by_node where
  "rmw_get_service_names_and_types_by_node sy ge = get_names_types_by_node sy ge ENTRY_SERVICE"
definition rmw_get_client_names_and_types_by_node where
  "rmw_get_client_names_and_types_by_node sy ge = get_names_types_by_node sy ge ENTRY_CLIENT"

section \<open>Endpoint information\<close>

datatype endpoint_kind = Endpoint_publisher | Endpoint_subscription

record endpoint_info =
  ei_node_name :: string
  ei_node_namespace :: string
  ei_topic_type :: string
  ei_endpoint_type :: endpoint_kind
  ei_qos_profile :: qos_profile
  ei_gid :: gid

definition endpoint_info_of :: "endpoint_kind \<Rightarrow> query_result \<Rightarrow> endpoint_info" where
  "endpoint_info_of kind q = \<lparr>ei_node_name = qr_node_name q, ei_node_namespace = qr_node_namespace q,
     ei_topic_type = qr_type_name q, ei_endpoint_type = kind, ei_qos_profile = qr_qos q, ei_gid = qr_gid q\<rparr>"

text \<open>The loop of setters, six per element in order; any failure discards the array.\<close>

fun fill_infos :: "(nat \<Rightarrow> nat \<Rightarrow> bool) \<Rightarrow> endpoint_kind \<Rightarrow> nat \<Rightarrow> query_result list \<Rightarrow> endpoint_info list option" where
  "fill_infos set_ok kind i [] = Some []"
| "fill_infos set_ok kind i (q # qs) =
     (if \<not> list_all (set_ok i) [0..<6] then None
      else (case fill_infos set_ok kind (Suc i) qs of
              None \<Rightarrow> None | Some infos \<Rightarrow> Some (endpoint_info_of kind q # infos)))"

definition infos_by_topic ::
    "sys \<Rightarrow> graph_env \<Rightarrow> entry_type \<Rightarrow> endpoint_kind \<Rightarrow> uds_node handle option \<Rightarrow> string option \<Rightarrow> bool \<Rightarrow>
       context_state \<Rightarrow> world \<Rightarrow> (rmw_ret \<times> endpoint_info list option) \<times> context_state \<times> world" where
  "infos_by_topic sy ge ty kind h topic outs ctx w =
     on_node h (topic \<noteq> None \<and> outs)
       (\<lambda>ctx w. case query_all sy ge ty topic None None ctx w of
                  (qs, ctx', w') \<Rightarrow>
                    (let ret = gq_info_init ge (length qs) in
                     if ret \<noteq> RMW_RET_OK then (ret, None)
                     else (case fill_infos (gq_info_set ge) kind 0 qs of
                             None \<Rightarrow> (RMW_RET_ERROR, None) | Some infos \<Rightarrow> (RMW_RET_OK, Some infos)), ctx', w')) ctx w"

definition rmw_get_publishers_info_by_topic where
  "rmw_get_publishers_info_by_topic sy ge = infos_by_topic sy ge ENTRY_PUBLISHER Endpoint_publisher"
definition rmw_get_subscriptions_info_by_topic where
  "rmw_get_subscriptions_info_by_topic sy ge = infos_by_topic sy ge ENTRY_SUBSCRIPTION Endpoint_subscription"

definition rmw_compare_gids_equal :: "gid option \<Rightarrow> gid option \<Rightarrow> bool \<Rightarrow> rmw_ret \<times> bool option" where
  "rmw_compare_gids_equal gid1 gid2 out =
     (case (gid1, gid2) of
        (Some g1, Some g2) \<Rightarrow> if out then (RMW_RET_OK, Some (take 16 g1 = take 16 g2)) else (RMW_RET_INVALID_ARGUMENT, None)
      | _ \<Rightarrow> (RMW_RET_INVALID_ARGUMENT, None))"

end
