(* ===== verification/Uds_Graph_Props.thy ===== *)
theory Uds_Graph_Props
  imports Uds_Graph Uds_Pubsub_Props
begin

text \<open>
  The graph queries answer what the registry holds: the ordered map of names to types against
  its set of entries, and the throttle of the sweep.
\<close>

section \<open>The ordered map\<close>

definition names_types_wf :: "names_types \<Rightarrow> bool" where
  "names_types_wf m \<longleftrightarrow> sorted_wrt (<) (map fst m) \<and> (\<forall>(k, tys)\<in>set m. sorted_wrt (<) tys \<and> tys \<noteq> [])"

definition type_pairs :: "names_types \<Rightarrow> (string \<times> string) set" where
  "type_pairs m = {(k, ty). \<exists>tys. (k, tys) \<in> set m \<and> ty \<in> set tys}"

lemma insort_insert_strict: "sorted_wrt (<) (xs :: string list) \<Longrightarrow> sorted_wrt (<) (insort_insert x xs)"
  by (metis distinct_insort_insert sorted_insort_insert strict_sorted_iff)

lemma put_type_keys: "fst ` set (put_type k ty m) = insert k (fst ` set m)"
  by (induction k ty m rule: put_type.induct) auto

lemma put_type_pairs: "type_pairs (put_type k ty m) = insert (k, ty) (type_pairs m)"
  by (induction k ty m rule: put_type.induct) (auto simp: type_pairs_def set_insort_insert)

lemma names_types_wf_Cons:
  "names_types_wf ((k, tys) # m) \<longleftrightarrow>
     (\<forall>x\<in>fst ` set m. k < x) \<and> sorted_wrt (<) tys \<and> tys \<noteq> [] \<and> names_types_wf m"
  by (auto simp: names_types_wf_def)

lemma put_type_wf: "names_types_wf m \<Longrightarrow> names_types_wf (put_type k ty m)"
proof (induction k ty m rule: put_type.induct)
  case (1 k ty)
  then show ?case by (simp add: names_types_wf_def)
next
  case (2 k ty k' tys m)
  then have m: "names_types_wf m" "\<forall>x\<in>fst ` set m. k' < x" "sorted_wrt (<) tys" "tys \<noteq> []"
    by (simp_all add: names_types_wf_Cons)
  have ne: "insort_insert ty tys \<noteq> []" by (metis insert_not_empty set_empty set_insort_insert)
  consider "k = k'" | "k < k'" | "k' < k" by (rule linorder_cases)
  then show ?case
  proof cases
    case 1
    then show ?thesis using m ne insort_insert_strict[OF m(3)] by (simp add: names_types_wf_Cons)
  next
    case c: 2
    have "\<forall>x\<in>fst ` set m. k < x" using m(2) c by (meson order.strict_trans)
    moreover have "k \<noteq> k'" using c by simp
    ultimately show ?thesis using m c by (simp add: names_types_wf_Cons)
  next
    case c: 3
    have n: "k \<noteq> k'" "\<not> k < k'" using c by auto
    have "names_types_wf (put_type k ty m)" using 2(1)[OF n m(1)] .
    then show ?thesis using m c n by (simp add: names_types_wf_Cons put_type_keys)
  qed
qed

lemma collect_types_props:
  "names_types_wf m \<Longrightarrow> names_types_wf (collect_types qs m) \<and>
   type_pairs (collect_types qs m) = type_pairs m \<union> (\<lambda>q. (qr_topic_name q, qr_type_name q)) ` set qs"
proof (induction qs arbitrary: m)
  case (Cons q qs)
  then show ?case using Cons.IH[OF put_type_wf[OF Cons.prems]]
    by (simp add: collect_types_def put_type_pairs)
qed (simp add: collect_types_def)

lemma fill_loop_ret: "fill_loop ge i m \<in> {RMW_RET_OK, RMW_RET_ERROR, RMW_RET_BAD_ALLOC}"
  by (induction ge i m rule: fill_loop.induct) auto

section \<open>What a query sees\<close>

lemma sweep_entries_reg:
  assumes "wf_registry (wo_reg w)"
  shows "wf_registry (wo_reg (sweep_entries sy w))"
    "entries (wo_reg (sweep_entries sy w)) = sweep_map (sy_proc sy) (entries (wo_reg w))"
proof -
  obtain r effs rung where c: "registry_cleanup_stale (sy_ring sy) (sy_proc sy) (wo_reg w) = (r, effs, rung)"
    by (cases "registry_cleanup_stale (sy_ring sy) (sy_proc sy) (wo_reg w)")
  then show "wf_registry (wo_reg (sweep_entries sy w))"
    "entries (wo_reg (sweep_entries sy w)) = sweep_map (sy_proc sy) (entries (wo_reg w))"
    using registry_cleanup_stale_props[OF assms c] by (simp_all add: sweep_entries_def c)
qed

text \<open>\<open>seen\<close>: entries a query may report, at least those of living owners.\<close>

definition seen :: "sys \<Rightarrow> world \<Rightarrow> registry \<Rightarrow> bool" where
  "seen sy w r \<longleftrightarrow> wf_registry r \<and> (entries r = entries (wo_reg w) \<or> entries r = sweep_map (sy_proc sy) (entries (wo_reg w)))"

lemma sweep_map_idem: "sweep_map proc (sweep_map proc m) = sweep_map proc m"
  by (auto simp: sweep_map_def fun_eq_iff split: option.splits)

lemma query_all_seen:
  assumes "seen sy w0 (wo_reg w)" "query_all sy ge ty topic node ns ctx w = (qs, ctx', w')"
  shows "seen sy w0 (wo_reg w') \<and> qs = registry_query (wo_reg w') ty topic node ns"
proof -
  have "wf_registry (wo_reg w)" using assms(1) by (simp add: seen_def)
  note sw = sweep_entries_reg[OF this, of sy]
  have "seen sy w0 (wo_reg (sweep_entries sy w))"
    using assms(1) sw by (auto simp: seen_def sweep_map_idem)
  then show ?thesis
    using assms by (auto simp: query_all_def maybe_cleanup_stale_def split: prod.splits if_splits)
qed

definition listed :: "(reg_entry \<Rightarrow> bool) \<Rightarrow> (nat \<Rightarrow> reg_entry option) \<Rightarrow> (string \<times> string) set" where
  "listed P m = (\<lambda>e. (pl_topic_name (en_payload e), pl_type_name (en_payload e))) ` {e. (\<exists>i. m i = Some e) \<and> P e}"

lemma listed_mono:
  assumes "\<And>i e. m i = Some e \<Longrightarrow> P e \<Longrightarrow> m' i = Some e \<and> P' e"
  shows "listed P m \<subseteq> listed P' m'"
  unfolding listed_def by (rule image_mono) (use assms in blast)

lemma seen_pairs:
  assumes "seen sy w r" "ty \<noteq> ENTRY_EMPTY"
  shows "listed (\<lambda>e. en_type e = ty \<and> \<not> dead_entry (sy_proc sy) e) (entries (wo_reg w))
      \<subseteq> (\<lambda>q. (qr_topic_name q, qr_type_name q)) ` set (registry_query r ty None None None)"
    and "(\<lambda>q. (qr_topic_name q, qr_type_name q)) ` set (registry_query r ty None None None)
      \<subseteq> listed (\<lambda>e. en_type e = ty) (entries (wo_reg w))"
proof -
  have wf: "wf_registry r" using assms(1) by (simp add: seen_def)
  have e: "(\<lambda>q. (qr_topic_name q, qr_type_name q)) ` set (registry_query r ty None None None) = listed (\<lambda>e. en_type e = ty) (entries r)"
    using assms(2)
    by (simp add: registry_query_set[OF wf] image_image query_facts listed_def uds_defs conj_commute cong: conj_cong)
  have sub: "entries r i = Some x \<Longrightarrow> entries (wo_reg w) i = Some x"
    "entries (wo_reg w) i = Some x \<Longrightarrow> \<not> dead_entry (sy_proc sy) x \<Longrightarrow> entries r i = Some x" for i x
    using assms(1) by (auto simp: seen_def sweep_map_def split: option.splits if_splits)
  show "listed (\<lambda>e. en_type e = ty \<and> \<not> dead_entry (sy_proc sy) e) (entries (wo_reg w))
      \<subseteq> (\<lambda>q. (qr_topic_name q, qr_type_name q)) ` set (registry_query r ty None None None)"
    "(\<lambda>q. (qr_topic_name q, qr_type_name q)) ` set (registry_query r ty None None None)
      \<subseteq> listed (\<lambda>e. en_type e = ty) (entries (wo_reg w))"
    unfolding e by (rule listed_mono, use sub in blast)+
qed

text \<open>
  C38: names and types are what is registered. When the call succeeds, its answer is ordered,
  without repetition and without a name that has no type, and its pairs are those of the
  registered entities of the two kinds: none is invented, and only those of dead owners, which
  one of the two sweeps may have removed, can be missing. It answers nothing exactly when
  its return code is not OK, and then the code is that of the failed allocation.
\<close>

theorem names_and_types_exact:
  assumes "wf_registry (wo_reg w)" "ty1 \<noteq> ENTRY_EMPTY" "ty2 \<noteq> ENTRY_EMPTY"
    and "names_and_types_of sy ge ge2 ty1 ty2 ctx w = ((ret, out), ctx', w')"
  shows "(out = None \<longleftrightarrow> ret \<noteq> RMW_RET_OK) \<and>
    (\<forall>m. out = Some m \<longrightarrow> names_types_wf m \<and>
       listed (\<lambda>e. en_type e \<in> {ty1, ty2} \<and> \<not> dead_entry (sy_proc sy) e) (entries (wo_reg w)) \<subseteq> type_pairs m \<and>
       type_pairs m \<subseteq> listed (\<lambda>e. en_type e \<in> {ty1, ty2}) (entries (wo_reg w)))"
proof -
  obtain qs1 ctx1 w1 where q1: "query_all sy ge ty1 None None None ctx w = (qs1, ctx1, w1)" using prod_cases3 by blast
  obtain qs2 ctx2 w2 where q2: "query_all sy ge2 ty2 None None None ctx1 w1 = (qs2, ctx2, w2)" using prod_cases3 by blast
  have s0: "seen sy w (wo_reg w)" using assms(1) by (simp add: seen_def)
  note s1 = query_all_seen[OF s0 q1]
  note s2 = query_all_seen[OF conjunct1[OF s1] q2]
  let ?m = "collect_types qs2 (collect_types qs1 [])" and ?f = "\<lambda>q. (qr_topic_name q, qr_type_name q)"
  have "names_types_wf []" by (simp add: names_types_wf_def)
  note c1 = collect_types_props[OF this, of qs1]
  note c2 = collect_types_props[OF conjunct1[OF c1], of qs2]
  have m: "names_types_wf ?m" "type_pairs ?m = ?f ` set qs1 \<union> ?f ` set qs2"
    using c1 c2 by (auto simp: type_pairs_def)
  have o: "(ret, out) = fill_names_and_types ge2 ?m"
    using assms(4) by (simp add: names_and_types_of_def q1 q2)
  have l: "listed (\<lambda>e. en_type e \<in> {ty1, ty2} \<and> P e) M = listed (\<lambda>e. en_type e = ty1 \<and> P e) M \<union> listed (\<lambda>e. en_type e = ty2 \<and> P e) M" for P M
    by (auto simp: listed_def)
  have "listed (\<lambda>e. en_type e \<in> {ty1, ty2} \<and> \<not> dead_entry (sy_proc sy) e) (entries (wo_reg w)) \<subseteq> type_pairs ?m"
    unfolding l m(2) using seen_pairs(1)[OF conjunct1[OF s1] assms(2)] seen_pairs(1)[OF conjunct1[OF s2] assms(3)] s1 s2 by blast
  moreover have "type_pairs ?m \<subseteq> listed (\<lambda>e. en_type e \<in> {ty1, ty2}) (entries (wo_reg w))"
    using l[of "\<lambda>_. True"] seen_pairs(2)[OF conjunct1[OF s1] assms(2)] seen_pairs(2)[OF conjunct1[OF s2] assms(3)] s1 s2
    unfolding m(2) by auto
  moreover have "(out = None \<longleftrightarrow> ret \<noteq> RMW_RET_OK) \<and> (\<forall>x. out = Some x \<longrightarrow> x = ?m)"
    using o by (auto simp: fill_names_and_types_def Let_def split: if_splits)
  ultimately show ?thesis using m(1) by blast
qed

section \<open>The throttle\<close>

text \<open>A run of queries by one context: the times at which it swept.\<close>

fun sweep_times :: "sys \<Rightarrow> graph_env list \<Rightarrow> context_state \<Rightarrow> world \<Rightarrow> int list" where
  "sweep_times sy [] ctx w = []"
| "sweep_times sy (ge # ges) ctx w =
     (case maybe_cleanup_stale sy ge ctx w of
        (ctx', w') \<Rightarrow>
          (if cs_last_cleanup_ns ctx' \<noteq> cs_last_cleanup_ns ctx then [gq_now ge] else []) @ sweep_times sy ges ctx' w')"

lemma sweep_times_after:
  "\<forall>t\<in>set (sweep_times sy ges ctx w). cs_last_cleanup_ns ctx + CLEANUP_MIN_INTERVAL_NS \<le> t"
proof (induction ges arbitrary: ctx w)
  case (Cons ge ges)
  obtain ctx' w' where m: "maybe_cleanup_stale sy ge ctx w = (ctx', w')" by fastforce
  then show ?case
    using Cons[of ctx' w']
    by (auto simp: maybe_cleanup_stale_def CLEANUP_MIN_INTERVAL_NS_def split: if_splits)
qed simp

text \<open>
  The sweep is throttled and not starved. However often a context queries, two of its
  sweeps are at least the interval apart and the first is that far from the stamp it started
  with; a query within the interval changes nothing; and a query later than that, if it wins
  the exchange, leaves no entry of a dead owner and every entry of a living one.
\<close>

theorem sweep_throttle:
  assumes "wf_registry (wo_reg w)"
  shows "sorted_wrt (\<lambda>s t. s + CLEANUP_MIN_INTERVAL_NS \<le> t) (cs_last_cleanup_ns ctx # sweep_times sy ges ctx w) \<and>
    (gq_now ge < cs_last_cleanup_ns ctx + CLEANUP_MIN_INTERVAL_NS \<longrightarrow> maybe_cleanup_stale sy ge ctx w = (ctx, w)) \<and>
    (cs_last_cleanup_ns ctx + CLEANUP_MIN_INTERVAL_NS \<le> gq_now ge \<longrightarrow> gq_cas_wins ge \<longrightarrow>
       (\<forall>i e. entries (wo_reg (snd (maybe_cleanup_stale sy ge ctx w))) i = Some e \<longleftrightarrow>
          entries (wo_reg w) i = Some e \<and> \<not> dead_entry (sy_proc sy) e))"
proof (intro conjI impI)
  show "sorted_wrt (\<lambda>s t. s + CLEANUP_MIN_INTERVAL_NS \<le> t) (cs_last_cleanup_ns ctx # sweep_times sy ges ctx w)"
  proof (induction ges arbitrary: ctx w)
    case (Cons ge ges)
    obtain ctx' w' where m: "maybe_cleanup_stale sy ge ctx w = (ctx', w')" by fastforce
    have c: "cs_last_cleanup_ns ctx' = cs_last_cleanup_ns ctx \<or>
        cs_last_cleanup_ns ctx' = gq_now ge \<and> cs_last_cleanup_ns ctx + CLEANUP_MIN_INTERVAL_NS \<le> gq_now ge"
      using m by (auto simp: maybe_cleanup_stale_def split: if_splits)
    show ?case
      using Cons[of ctx' w'] sweep_times_after[of sy "ge # ges" ctx w] c m by auto
  qed simp
qed (auto simp: maybe_cleanup_stale_def sweep_entries_reg(2)[OF assms] sweep_map_def split: option.splits)

section \<open>A small world\<close>

definition graph_env0 :: graph_env where
  "graph_env0 = \<lparr>gq_now = 5000000000, gq_cas_wins = True, gq_dup = (\<lambda>_. True), gq_array = (\<lambda>_ _. True),
     gq_names_init = (\<lambda>_. RMW_RET_OK), gq_info_init = (\<lambda>_. RMW_RET_OK), gq_info_set = (\<lambda>_ _. True)\<rparr>"

definition ctx_state0 :: context_state where
  "ctx_state0 = \<lparr>cs_ids = ctx0, cs_is_shutdown = False, cs_last_registry_generation = 0, cs_last_cleanup_ns = 1000000000,
     cs_doorbell_socket = 9, cs_doorbell_path = ''/d'', cs_doorbell_registered = False,
     cs_doorbell_registry_index = -1, cs_graph_gcs = []\<rparr>"

lemma fill_ok: "fill_names_and_types graph_env0 m = (RMW_RET_OK, Some m)"
proof -
  have "fill_loop graph_env0 i m = RMW_RET_OK" for i
    by (induction m arbitrary: i) (auto simp: graph_env0_def list_all_iff)
  then show ?thesis by (simp add: fill_names_and_types_def) (simp add: graph_env0_def)
qed

theorem names_and_types_exact_witness:
  "\<exists>m. snd (fst (names_and_types_of sys0 graph_env0 graph_env0 ENTRY_PUBLISHER ENTRY_SUBSCRIPTION ctx_state0
       (world0\<lparr>wo_reg := example_registry\<rparr>))) = Some m \<and> type_pairs m = {(''/chatter'', [])}"
proof -
  let ?w = "world0\<lparr>wo_reg := example_registry\<rparr>"
  obtain ret out ctx' w' where r: "names_and_types_of sys0 graph_env0 graph_env0 ENTRY_PUBLISHER ENTRY_SUBSCRIPTION ctx_state0 ?w
      = ((ret, out), ctx', w')" by (metis prod.exhaust)
  have ok: "ret = RMW_RET_OK" using r by (auto simp: names_and_types_of_def fill_ok split: prod.splits)
  have wf: "wf_registry (wo_reg ?w)" using example_wf by simp
  let ?a = "\<lparr>en_type = ENTRY_DOORBELL, en_payload = example_payload 7 ''/d''\<rparr>"
    and ?b = "\<lparr>en_type = ENTRY_SUBSCRIPTION, en_payload = example_payload 8 ''/s''\<rparr>"
  have ex: "(\<exists>i. entries (wo_reg ?w) i = Some e) \<longleftrightarrow> e = ?a \<or> e = ?b" for e
    by (auto simp: example_entries)
  have pick: "{e. (e = a \<or> e = b) \<and> P e} = {b}" if "\<not> P a" "P b" for a b :: reg_entry and P
    using that by blast
  have "{e. (e = ?a \<or> e = ?b) \<and> en_type e \<in> {ENTRY_PUBLISHER, ENTRY_SUBSCRIPTION}} = {?b}"
    by (rule pick) (simp_all add: uds_defs)
  moreover have "{e. (e = ?a \<or> e = ?b) \<and> en_type e \<in> {ENTRY_PUBLISHER, ENTRY_SUBSCRIPTION} \<and> \<not> dead_entry (sy_proc sys0) e} = {?b}"
    by (rule pick) (simp_all add: uds_defs sys0_def dead_entry_def example_payload_def pid_is_alive_or_unreachable_def)
  ultimately have l: "listed (\<lambda>e. en_type e \<in> {ENTRY_PUBLISHER, ENTRY_SUBSCRIPTION} \<and> \<not> dead_entry (sy_proc sys0) e) (entries (wo_reg ?w)) = {(''/chatter'', [])}"
    "listed (\<lambda>e. en_type e \<in> {ENTRY_PUBLISHER, ENTRY_SUBSCRIPTION}) (entries (wo_reg ?w)) = {(''/chatter'', [])}"
    unfolding listed_def ex by (simp_all add: example_payload_def zero_payload_def)
  have ne: "ENTRY_PUBLISHER \<noteq> ENTRY_EMPTY" "ENTRY_SUBSCRIPTION \<noteq> ENTRY_EMPTY" by (simp_all add: uds_defs)
  obtain m where m: "out = Some m" using names_and_types_exact[OF wf ne r] ok by auto
  have "type_pairs m = {(''/chatter'', [])}" using names_and_types_exact[OF wf ne r] m unfolding l by blast
  then show ?thesis by (simp add: r m)
qed

theorem sweep_throttle_witness:
  "entries (wo_reg (snd (maybe_cleanup_stale (sys0\<lparr>sy_proc := example_proc\<rparr>) graph_env0 ctx_state0 (world0\<lparr>wo_reg := example_registry\<rparr>)))) 1 = None \<and>
   sorted_wrt (\<lambda>s t. s + CLEANUP_MIN_INTERVAL_NS \<le> t)
     (1000000000 # sweep_times (sys0\<lparr>sy_proc := example_proc\<rparr>) [graph_env0, graph_env0] ctx_state0 (world0\<lparr>wo_reg := example_registry\<rparr>))"
proof -
  let ?w = "world0\<lparr>wo_reg := example_registry\<rparr>" and ?sy = "sys0\<lparr>sy_proc := example_proc\<rparr>"
  have wf: "wf_registry (wo_reg ?w)" using example_wf by simp
  have c: "cs_last_cleanup_ns ctx_state0 + CLEANUP_MIN_INTERVAL_NS \<le> gq_now graph_env0" "gq_cas_wins graph_env0"
    "cs_last_cleanup_ns ctx_state0 = 1000000000"
    by (simp_all add: ctx_state0_def graph_env0_def CLEANUP_MIN_INTERVAL_NS_def)
  have e: "entries (wo_reg (snd (maybe_cleanup_stale ?sy graph_env0 ctx_state0 ?w))) 1 = Some e \<longleftrightarrow>
      entries (wo_reg ?w) 1 = Some e \<and> \<not> dead_entry (sy_proc ?sy) e" for e
    using sweep_throttle[OF wf, of ctx_state0 ?sy "[]" graph_env0] c(1,2) by blast
  have "entries (wo_reg (snd (maybe_cleanup_stale ?sy graph_env0 ctx_state0 ?w))) 1 \<noteq> Some e" for e
    unfolding e by (auto simp: example_entries example_dead)
  then show ?thesis
    using sweep_throttle[OF wf, of ctx_state0 ?sy "[graph_env0, graph_env0]" graph_env0] by (simp add: c(3) not_Some_eq[symmetric])
qed

end
