(* ===== verification/Uds_Rpc.thy ===== *)
theory Uds_Rpc
  imports Uds_Inbox Uds_Graph_View
begin

text \<open>
  What service servers and service clients share: \<^verbatim>\<open>rmw_service.cpp\<close> and \<^verbatim>\<open>rmw_client.cpp\<close>
  create, destroy and take in the same words. \<open>endpoint\<close> holds the fields \<^verbatim>\<open>UdsService\<close> and
  \<^verbatim>\<open>UdsClient\<close> have in common; the two records extend it.
\<close>

record endpoint =
  ep_uid :: u64
  ep_gid :: gid
  ep_service_name :: string
  ep_type_name :: string
  ep_qos :: qos_profile
  ep_socket :: nat
  ep_socket_path :: string
  ep_inbox :: inbox
  ep_registry_index :: int
  ep_context :: uds_context
  ep_cached_generation :: u64
  ep_shm_ring :: ring_writer
  ep_on_new :: "nat option"            \<comment> \<open>user data of the callback, if one is set\<close>
  ep_calls :: "(nat \<times> nat) list"       \<comment> \<open>the callback's invocations so far: user data, count\<close>

section \<open>Creation and destruction\<close>

definition new_endpoint :: "uds_context \<Rightarrow> u64 \<Rightarrow> gid \<Rightarrow> string \<Rightarrow> string \<Rightarrow> qos_profile \<Rightarrow> string \<Rightarrow> endpoint" where
  "new_endpoint ctx uid gid name type_name qos path =
     \<lparr>ep_uid = uid, ep_gid = gid, ep_service_name = name, ep_type_name = type_name, ep_qos = resolve_qos qos,
      ep_socket = 0, ep_socket_path = path, ep_inbox = new_inbox, ep_registry_index = -1, ep_context = ctx,
      ep_cached_generation = 0, ep_shm_ring = new_ring_writer, ep_on_new = None, ep_calls = []\<rparr>"

text \<open>The entry: the history policy is not filled in and stays zero.\<close>

definition rpc_entry :: "sys \<Rightarrow> entry_type \<Rightarrow> uds_node \<Rightarrow> endpoint \<Rightarrow> reg_entry" where
  "rpc_entry sy ty node ep =
     (let e = entity_entry sy ty node (ep_gid ep) (ep_service_name ep) (ep_type_name ep) (ep_socket_path ep) (ep_qos ep)
      in e\<lparr>en_payload := (en_payload e)\<lparr>pl_qos_history := 0\<rparr>\<rparr>)"

definition create_endpoint ::
    "sys \<Rightarrow> uds_node \<Rightarrow> string \<Rightarrow> entry_type \<Rightarrow> string \<Rightarrow> string \<Rightarrow> qos_profile \<Rightarrow> world \<Rightarrow> endpoint option \<times> world" where
  "create_endpoint sy node prefix ty name type_name qos w0 =
     (let ctx = nd_context node;
          (uid, uctr) = next_entity_uid (wo_uid_ctr w0);
          (gid, gctr) = gid_generate (of_int (sy_pid sy)) (cx_context_id ctx) (wo_gid_ctr w0);
          path = make_socket_path (cx_domain_id ctx) prefix (sy_pid sy) (wo_path_ctr w0) (se_now_us (sy_shm sy));
          w1 = w0\<lparr>wo_uid_ctr := uctr, wo_gid_ctr := gctr, wo_path_ctr := wo_path_ctr w0 + 1\<rparr>;
          ep = new_endpoint ctx uid gid name type_name qos path
      in case create_bound_socket (sy_net sy) (wo_net w1) path of
           (None, net) \<Rightarrow> (None, w1\<lparr>wo_net := net\<rparr>)
         | (Some sock, net) \<Rightarrow>
             (let (index, w2) = add_entry sy (rpc_entry sy ty node ep) (w1\<lparr>wo_net := net\<rparr>)
              in if index < 0 then (None, close_entity_socket path w2)
                 else if \<not> sy_handle_ok sy then (None, close_entity_socket path (remove_entry sy index w2))
                 else (Some (ep\<lparr>ep_socket := sock, ep_registry_index := index\<rparr>), w2)))"

definition destroy_endpoint :: "sys \<Rightarrow> 'a endpoint_scheme \<Rightarrow> world \<Rightarrow> world" where
  "destroy_endpoint sy ep w =
     (let w1 = (if ep_registry_index ep \<ge> 0 then remove_entry sy (ep_registry_index ep) w else w);
          w2 = close_entity_socket (ep_socket_path ep) w1
      in w2\<lparr>wo_fs := fst (shm_writer_close (wo_fs w2) (ep_shm_ring ep))\<rparr>)"

section \<open>Taking\<close>

record service_info =
  si_writer_guid :: gid
  si_sequence_number :: u64
  si_source_timestamp :: u64
  si_received_timestamp :: u64

definition zero_service_info :: service_info where
  "zero_service_info = \<lparr>si_writer_guid = replicate 16 0, si_sequence_number = 0, si_source_timestamp = 0,
     si_received_timestamp = 0\<rparr>"

definition service_info_of :: "received_message \<Rightarrow> service_info" where
  "service_info_of m = \<lparr>si_writer_guid = wh_gid (rm_header m), si_sequence_number = wh_sequence_number (rm_header m),
     si_source_timestamp = wh_source_timestamp (rm_header m), si_received_timestamp = rm_received_timestamp m\<rparr>"

text \<open>The return code, and \<open>*taken\<close>, the header and the message where they are written.\<close>

record 'x rpc_out =
  ro_ret :: rmw_ret
  ro_taken :: "bool option"
  ro_header :: "service_info option"
  ro_message :: "'x option"

definition rpc_failed :: "rmw_ret \<Rightarrow> 'x rpc_out" where
  "rpc_failed r = \<lparr>ro_ret = r, ro_taken = None, ro_header = None, ro_message = None\<rparr>"

definition drain_endpoint :: "u8 \<Rightarrow> sys \<Rightarrow> 'a endpoint_scheme \<Rightarrow> world \<Rightarrow> 'a endpoint_scheme \<times> world" where
  "drain_endpoint kind sy ep w =
     (case drain sy \<lparr>dc_depth = None, dc_msg_type = kind, dc_domain_id = cx_domain_id (ep_context ep), dc_dedup = False,
                     dc_ignore_local = False, dc_context_id = 0\<rparr> (ep_socket ep) (ep_inbox ep) w of
        (ib, _, w') \<Rightarrow> (ep\<lparr>ep_inbox := ib\<rparr>, w'))"

text \<open>Pop until one decodes; the ones before it are gone.\<close>

fun pop_decodable :: "'m callbacks \<Rightarrow> received_message list \<Rightarrow> (received_message \<times> 'm) option \<times> received_message list" where
  "pop_decodable cb [] = (None, [])"
| "pop_decodable cb (m # q) =
     (case deserialize cb (rm_payload m) of
        None \<Rightarrow> pop_decodable cb q
      | Some x \<Rightarrow> (Some (m, x), q))"

definition take_rpc ::
    "u8 \<Rightarrow> 'x callbacks \<Rightarrow> sys \<Rightarrow> 'a endpoint_scheme \<Rightarrow> world \<Rightarrow> 'x rpc_out \<times> 'a endpoint_scheme \<times> world" where
  "take_rpc kind cb sy ep w =
     (let (ep1, w1) = drain_endpoint kind sy ep w;
          (r, q) = pop_decodable cb (ib_queue (ep_inbox ep1));
          ep2 = ep1\<lparr>ep_inbox := (ep_inbox ep1)\<lparr>ib_queue := q\<rparr>\<rparr>
      in case r of
           None \<Rightarrow>
             (\<lparr>ro_ret = RMW_RET_OK, ro_taken = Some False, ro_header = Some zero_service_info, ro_message = None\<rparr>, ep2, w1)
         | Some (m, x) \<Rightarrow>
             (\<lparr>ro_ret = RMW_RET_OK, ro_taken = Some True, ro_header = Some (service_info_of m), ro_message = Some x\<rparr>, ep2, w1))"

section \<open>The arrival callback\<close>

definition set_on_new :: "nat option \<Rightarrow> 'a endpoint_scheme \<Rightarrow> 'a endpoint_scheme" where
  "set_on_new callback ep =
     (let ep1 = ep\<lparr>ep_on_new := callback\<rparr>; waiting = length (ib_queue (ep_inbox ep1)) in
      case callback of
        None \<Rightarrow> ep1
      | Some user_data \<Rightarrow> if waiting \<noteq> 0 then ep1\<lparr>ep_calls := ep_calls ep1 @ [(user_data, waiting)]\<rparr> else ep1)"

end
