(* ===== verification/Uds_Client.thy ===== *)
theory Uds_Client
  imports Uds_Rpc
begin

text \<open>
  Service clients (\<^verbatim>\<open>rmw_client.cpp\<close>): requests go to the first server found for the name,
  under a cache keyed by the registry's generation; responses are taken from the client's own
  socket.
\<close>

record ('q, 'r) client = endpoint +
  cl_request_callbacks :: "'q callbacks"
  cl_response_callbacks :: "'r callbacks"
  cl_sequence_number :: u64
  cl_cached_service_path :: string
  cl_cached_is_available :: bool

section \<open>Creation and destruction\<close>

definition create_client ::
    "sys \<Rightarrow> uds_node \<Rightarrow> ('q, 'r) service_support \<Rightarrow> string \<Rightarrow> qos_profile \<Rightarrow> world \<Rightarrow> ('q, 'r) client option \<times> world" where
  "create_client sy node ts service_name qos w =
     (let sc = get_service_callbacks ts in
      case (sc_request sc, sc_response sc) of
        (Some rq, Some rs) \<Rightarrow>
          if \<not> sy_new_ok sy then (None, w)
          else (case create_endpoint sy node ''cli'' ENTRY_CLIENT service_name
                       (make_ros_type_name (sc_namespace sc) (sc_name sc)) qos w of
                  (None, w') \<Rightarrow> (None, w')
                | (Some ep, w') \<Rightarrow> (Some (endpoint.extend ep (client.fields rq rs 1 [] False)), w'))
      | _ \<Rightarrow> (None, w))"

definition rmw_create_client ::
    "sys \<Rightarrow> uds_node handle option \<Rightarrow> ('q, 'r) service_support option \<Rightarrow> string option \<Rightarrow> qos_profile option \<Rightarrow> world \<Rightarrow>
       ('q, 'r) client handle option \<times> world" where
  "rmw_create_client sy node ts service_name qos w =
     (case (guard_entry node (ts \<noteq> None \<and> service_name \<noteq> None \<and> qos \<noteq> None), ts, service_name, qos) of
        (Inr n, Some t, Some nm, Some q) \<Rightarrow>
          (case create_client sy n t nm q w of
             (c, w') \<Rightarrow> (map_option (\<lambda>d. \<lparr>hn_identifier = uds_identifier, hn_data = d\<rparr>) c, w'))
      | _ \<Rightarrow> (None, w))"

definition rmw_destroy_client ::
    "sys \<Rightarrow> uds_node handle option \<Rightarrow> ('q, 'r) client handle option \<Rightarrow> world \<Rightarrow> rmw_ret \<times> world" where
  "rmw_destroy_client sy node h w =
     (case guard_entry h (node \<noteq> None) of
        Inl r \<Rightarrow> (r, w)
      | Inr cl \<Rightarrow> (RMW_RET_OK, destroy_endpoint sy cl w))"

section \<open>The cached server\<close>

text \<open>The first non-empty path; empty if there is none.\<close>

fun first_path :: "query_result list \<Rightarrow> string" where
  "first_path [] = []"
| "first_path (s # ss) = (if qr_socket_path s \<noteq> [] then qr_socket_path s else first_path ss)"

definition refresh_service :: "registry \<Rightarrow> u64 \<Rightarrow> ('q, 'r) client \<Rightarrow> ('q, 'r) client" where
  "refresh_service reg current_gen cl =
     (if current_gen \<noteq> ep_cached_generation cl
      then (let services = registry_query reg ENTRY_SERVICE (Some (ep_service_name cl)) None None
            in cl\<lparr>ep_cached_generation := current_gen, cl_cached_service_path := first_path services,
                  cl_cached_is_available := (services \<noteq> [])\<rparr>)
      else cl)"

section \<open>Requests and responses\<close>

definition request_header :: "sys \<Rightarrow> ('q, 'r) client \<Rightarrow> u64 \<Rightarrow> wire_header" where
  "request_header sy cl sequence_id = \<lparr>wh_gid = ep_gid cl, wh_sequence_number = sequence_id,
     wh_source_timestamp = sy_now_ns sy, wh_payload_size = 0, wh_msg_type = MSG_REQUEST\<rparr>"

text \<open>Result: the return code and \<open>*sequence_id\<close> if it was written.\<close>

definition send_request ::
    "sys \<Rightarrow> ('q, 'r) client \<Rightarrow> 'q \<Rightarrow> world \<Rightarrow> (rmw_ret \<times> u64 option) \<times> ('q, 'r) client \<times> world" where
  "send_request sy cl req w =
     (let sequence_id = cl_sequence_number cl;
          cl1 = cl\<lparr>cl_sequence_number := cl_sequence_number cl + 1\<rparr>
      in case shm_serialize_prepare_send (sy_shm sy) (sy_alloc sy) (cx_domain_id (ep_context cl1))
                (cl_request_callbacks cl1) req (request_header sy cl1 sequence_id) (side_of (ep_shm_ring cl1) w) of
           (None, s) \<Rightarrow> ((RMW_RET_ERROR, Some sequence_id), cl1\<lparr>ep_shm_ring := ss_ring s\<rparr>, set_side s w)
         | (Some (wire, hdr), s) \<Rightarrow>
             (let w1 = set_side s w;
                  cl2 = refresh_service (wo_reg w1) (registry_generation (wo_reg w1)) (cl1\<lparr>ep_shm_ring := ss_ring s\<rparr>);
                  service_path = cl_cached_service_path cl2;
                  w2 = (if service_path \<noteq> [] then w1\<lparr>wo_net := snd (send_to (sy_net sy) (wo_net w1) service_path hdr wire)\<rparr> else w1)
              in ((RMW_RET_OK, Some sequence_id), cl2, w2)))"

definition rmw_send_request ::
    "sys \<Rightarrow> ('q, 'r) client handle option \<Rightarrow> 'q option \<Rightarrow> bool \<Rightarrow> world \<Rightarrow>
       (rmw_ret \<times> u64 option) \<times> ('q, 'r) client handle option \<times> world" where
  "rmw_send_request sy h req id_out w =
     with_entity h (req \<noteq> None \<and> id_out) (\<lambda>r. (r, None))
       (\<lambda>cl. case req of None \<Rightarrow> ((RMW_RET_INVALID_ARGUMENT, None), cl, w) | Some q \<Rightarrow> send_request sy cl q w) w"

definition rmw_take_response ::
    "sys \<Rightarrow> ('q, 'r) client handle option \<Rightarrow> bool \<Rightarrow> world \<Rightarrow> 'r rpc_out \<times> ('q, 'r) client handle option \<times> world" where
  "rmw_take_response sy h others w =
     with_entity h others rpc_failed (\<lambda>cl. take_rpc MSG_RESPONSE (cl_response_callbacks cl) sy cl w) w"

section \<open>Other entry points\<close>

definition rmw_client_request_publisher_get_actual_qos ::
    "('q, 'r) client handle option \<Rightarrow> bool \<Rightarrow> rmw_ret \<times> qos_profile option" where
  "rmw_client_request_publisher_get_actual_qos h out =
     (case guard_entry h out of Inl r \<Rightarrow> (r, None) | Inr cl \<Rightarrow> (RMW_RET_OK, Some (ep_qos cl)))"

definition rmw_client_response_subscription_get_actual_qos ::
    "('q, 'r) client handle option \<Rightarrow> bool \<Rightarrow> rmw_ret \<times> qos_profile option" where
  "rmw_client_response_subscription_get_actual_qos h out =
     (case guard_entry h out of Inl r \<Rightarrow> (r, None) | Inr cl \<Rightarrow> (RMW_RET_OK, Some (ep_qos cl)))"

definition rmw_get_gid_for_client :: "('q, 'r) client handle option \<Rightarrow> bool \<Rightarrow> rmw_ret \<times> (string \<times> gid) option" where
  "rmw_get_gid_for_client h out =
     (case guard_entry h out of Inl r \<Rightarrow> (r, None) | Inr cl \<Rightarrow> (RMW_RET_OK, Some (uds_identifier, ep_gid cl)))"

definition service_server_is_available :: "('q, 'r) client \<Rightarrow> world \<Rightarrow> (rmw_ret \<times> bool option) \<times> ('q, 'r) client \<times> world" where
  "service_server_is_available cl w =
     (let cl1 = refresh_service (wo_reg w) (registry_generation (wo_reg w)) cl
      in ((RMW_RET_OK, Some (cl_cached_is_available cl1)), cl1, w))"

definition rmw_service_server_is_available ::
    "uds_node handle option \<Rightarrow> ('q, 'r) client handle option \<Rightarrow> bool \<Rightarrow> world \<Rightarrow>
       (rmw_ret \<times> bool option) \<times> ('q, 'r) client handle option \<times> world" where
  "rmw_service_server_is_available node h out w =
     with_entity h (node \<noteq> None \<and> out) (\<lambda>r. (r, None)) (\<lambda>cl. service_server_is_available cl w) w"

definition rmw_client_set_on_new_response_callback ::
    "('q, 'r) client handle option \<Rightarrow> nat option \<Rightarrow> rmw_ret \<times> ('q, 'r) client handle option" where
  "rmw_client_set_on_new_response_callback h callback =
     (case guard_entry h True of
        Inl r \<Rightarrow> (r, h)
      | Inr cl \<Rightarrow> (RMW_RET_OK, Some \<lparr>hn_identifier = uds_identifier, hn_data = set_on_new callback cl\<rparr>))"

end
