(* ===== verification/Uds_Service.thy ===== *)
theory Uds_Service
  imports Uds_Rpc
begin

text \<open>
  Service servers (\<^verbatim>\<open>rmw_service.cpp\<close>): requests are taken from the server's socket, and each
  response goes to the client whose id the request carried, found in a cache keyed by the
  registry's generation and, on a miss, in the registry itself.
\<close>

record cached_client =
  cc_socket_path :: string
  cc_gid :: gid

record ('q, 'r) service = endpoint +
  sv_request_callbacks :: "'q callbacks"
  sv_response_callbacks :: "'r callbacks"
  sv_cached_clients :: "cached_client list"

section \<open>Creation and destruction\<close>

definition create_service ::
    "sys \<Rightarrow> uds_node \<Rightarrow> ('q, 'r) service_support \<Rightarrow> string \<Rightarrow> qos_profile \<Rightarrow> world \<Rightarrow> ('q, 'r) service option \<times> world" where
  "create_service sy node ts service_name qos w =
     (let sc = get_service_callbacks ts in
      case (sc_request sc, sc_response sc) of
        (Some rq, Some rs) \<Rightarrow>
          if \<not> sy_new_ok sy then (None, w)
          else (case create_endpoint sy node ''srv'' ENTRY_SERVICE service_name
                       (make_ros_type_name (sc_namespace sc) (sc_name sc)) qos w of
                  (None, w') \<Rightarrow> (None, w')
                | (Some ep, w') \<Rightarrow> (Some (endpoint.extend ep (service.fields rq rs [])), w'))
      | _ \<Rightarrow> (None, w))"

definition rmw_create_service ::
    "sys \<Rightarrow> uds_node handle option \<Rightarrow> ('q, 'r) service_support option \<Rightarrow> string option \<Rightarrow> qos_profile option \<Rightarrow> world \<Rightarrow>
       ('q, 'r) service handle option \<times> world" where
  "rmw_create_service sy node ts service_name qos w =
     (case (guard_entry node (ts \<noteq> None \<and> service_name \<noteq> None \<and> qos \<noteq> None), ts, service_name, qos) of
        (Inr n, Some t, Some nm, Some q) \<Rightarrow>
          (case create_service sy n t nm q w of
             (s, w') \<Rightarrow> (map_option (\<lambda>d. \<lparr>hn_identifier = uds_identifier, hn_data = d\<rparr>) s, w'))
      | _ \<Rightarrow> (None, w))"

definition rmw_destroy_service ::
    "sys \<Rightarrow> uds_node handle option \<Rightarrow> ('q, 'r) service handle option \<Rightarrow> world \<Rightarrow> rmw_ret \<times> world" where
  "rmw_destroy_service sy node h w =
     (case guard_entry h (node \<noteq> None) of
        Inl r \<Rightarrow> (r, w)
      | Inr sv \<Rightarrow> (RMW_RET_OK, destroy_endpoint sy sv w))"

section \<open>Requests and responses\<close>

definition rmw_take_request ::
    "sys \<Rightarrow> ('q, 'r) service handle option \<Rightarrow> bool \<Rightarrow> world \<Rightarrow> 'q rpc_out \<times> ('q, 'r) service handle option \<times> world" where
  "rmw_take_request sy h others w =
     with_entity h others rpc_failed (\<lambda>sv. take_rpc MSG_REQUEST (sv_request_callbacks sv) sy sv w) w"

definition client_list :: "query_result list \<Rightarrow> cached_client list" where
  "client_list clients =
     map (\<lambda>c. \<lparr>cc_socket_path = qr_socket_path c, cc_gid = qr_gid c\<rparr>) (filter (\<lambda>c. qr_socket_path c \<noteq> []) clients)"

definition refresh_clients :: "registry \<Rightarrow> u64 \<Rightarrow> ('q, 'r) service \<Rightarrow> ('q, 'r) service" where
  "refresh_clients reg current_gen sv =
     (if current_gen \<noteq> ep_cached_generation sv
      then sv\<lparr>ep_cached_generation := current_gen,
              sv_cached_clients := client_list (registry_query reg ENTRY_CLIENT (Some (ep_service_name sv)) None None)\<rparr>
      else sv)"

fun cached_path :: "gid \<Rightarrow> cached_client list \<Rightarrow> string option" where
  "cached_path gid [] = None"
| "cached_path gid (c # cs) = (if cc_gid c = gid then Some (cc_socket_path c) else cached_path gid cs)"

fun queried_path :: "gid \<Rightarrow> query_result list \<Rightarrow> string option" where
  "queried_path gid [] = None"
| "queried_path gid (c # cs) =
     (if qr_socket_path c = [] then queried_path gid cs
      else if qr_gid c = gid then Some (qr_socket_path c) else queried_path gid cs)"

text \<open>The request's id, as \<^verbatim>\<open>rmw_request_id_t\<close> carries it back.\<close>

record request_id =
  ri_writer_guid :: gid
  ri_sequence_number :: u64

definition response_header :: "sys \<Rightarrow> request_id \<Rightarrow> wire_header" where
  "response_header sy rid = \<lparr>wh_gid = ri_writer_guid rid, wh_sequence_number = ri_sequence_number rid,
     wh_source_timestamp = sy_now_ns sy, wh_payload_size = 0, wh_msg_type = MSG_RESPONSE\<rparr>"

text \<open>Where a response goes: the cached path, or on a miss the path a fresh query finds.\<close>

definition route_response :: "registry \<Rightarrow> ('q, 'r) service \<Rightarrow> gid \<Rightarrow> string option" where
  "route_response reg sv gid =
     (case cached_path gid (sv_cached_clients sv) of
        Some path \<Rightarrow> Some path
      | None \<Rightarrow> queried_path gid (registry_query reg ENTRY_CLIENT (Some (ep_service_name sv)) None None))"

definition send_response ::
    "sys \<Rightarrow> ('q, 'r) service \<Rightarrow> request_id \<Rightarrow> 'r \<Rightarrow> world \<Rightarrow> rmw_ret \<times> ('q, 'r) service \<times> world" where
  "send_response sy sv rid resp w =
     (case shm_serialize_prepare_send (sy_shm sy) (sy_alloc sy) (cx_domain_id (ep_context sv))
             (sv_response_callbacks sv) resp (response_header sy rid) (side_of (ep_shm_ring sv) w) of
        (None, s) \<Rightarrow> (RMW_RET_ERROR, sv\<lparr>ep_shm_ring := ss_ring s\<rparr>, set_side s w)
      | (Some (wire, hdr), s) \<Rightarrow>
          (let w1 = set_side s w;
               sv1 = refresh_clients (wo_reg w1) (registry_generation (wo_reg w1)) (sv\<lparr>ep_shm_ring := ss_ring s\<rparr>)
           in case route_response (wo_reg w1) sv1 (ri_writer_guid rid) of
                Some path \<Rightarrow> (RMW_RET_OK, sv1, w1\<lparr>wo_net := snd (send_to (sy_net sy) (wo_net w1) path hdr wire)\<rparr>)
              | None \<Rightarrow> (RMW_RET_OK, sv1, w1)))"

definition rmw_send_response ::
    "sys \<Rightarrow> ('q, 'r) service handle option \<Rightarrow> request_id option \<Rightarrow> 'r option \<Rightarrow> world \<Rightarrow>
       rmw_ret \<times> ('q, 'r) service handle option \<times> world" where
  "rmw_send_response sy h rid resp w =
     with_entity h (rid \<noteq> None \<and> resp \<noteq> None) id
       (\<lambda>sv. case (rid, resp) of
               (Some i, Some r) \<Rightarrow> send_response sy sv i r w
             | _ \<Rightarrow> (RMW_RET_INVALID_ARGUMENT, sv, w)) w"

section \<open>Other entry points\<close>

definition rmw_service_request_subscription_get_actual_qos ::
    "('q, 'r) service handle option \<Rightarrow> bool \<Rightarrow> rmw_ret \<times> qos_profile option" where
  "rmw_service_request_subscription_get_actual_qos h out =
     (case guard_entry h out of Inl r \<Rightarrow> (r, None) | Inr sv \<Rightarrow> (RMW_RET_OK, Some (ep_qos sv)))"

definition rmw_service_response_publisher_get_actual_qos ::
    "('q, 'r) service handle option \<Rightarrow> bool \<Rightarrow> rmw_ret \<times> qos_profile option" where
  "rmw_service_response_publisher_get_actual_qos h out =
     (case guard_entry h out of Inl r \<Rightarrow> (r, None) | Inr sv \<Rightarrow> (RMW_RET_OK, Some (ep_qos sv)))"

definition rmw_service_set_on_new_request_callback ::
    "('q, 'r) service handle option \<Rightarrow> nat option \<Rightarrow> rmw_ret \<times> ('q, 'r) service handle option" where
  "rmw_service_set_on_new_request_callback h callback =
     (case guard_entry h True of
        Inl r \<Rightarrow> (r, h)
      | Inr sv \<Rightarrow> (RMW_RET_OK, Some \<lparr>hn_identifier = uds_identifier, hn_data = set_on_new callback sv\<rparr>))"

end
