(* ===== verification/Uds_Rpc_Props.thy ===== *)
theory Uds_Rpc_Props
  imports Uds_Client Uds_Service Uds_Pubsub_Props
begin

text \<open>
  Requests and responses: the two generation-keyed caches against the registry's contract,
  what a take makes of the queue, and the round trip through both sockets.
\<close>

section \<open>The cached server and the cached clients\<close>

definition service_view :: "string \<Rightarrow> registry \<Rightarrow> string \<times> bool" where
  "service_view name r =
     (let ss = registry_query r ENTRY_SERVICE (Some name) None None in (first_path ss, ss \<noteq> []))"

definition client_view :: "string \<Rightarrow> registry \<Rightarrow> cached_client list" where
  "client_view name r = client_list (registry_query r ENTRY_CLIENT (Some name) None None)"

interpretation servers: versioned_view reg_step registry_generation "service_view name" for name
  by unfold_locales (auto simp: registry_generation_def dest: reg_step_generation)

interpretation clients: versioned_view reg_step registry_generation "client_view name" for name
  by unfold_locales (auto simp: registry_generation_def dest: reg_step_generation)

definition client_coherent :: "('q, 'r) client \<Rightarrow> registry \<Rightarrow> bool" where
  "client_coherent cl r \<longleftrightarrow> memo_coherent registry_generation (service_view (ep_service_name cl)) r
     (ep_cached_generation cl, cl_cached_service_path cl, cl_cached_is_available cl)"

definition service_coherent :: "('q, 'r) service \<Rightarrow> registry \<Rightarrow> bool" where
  "service_coherent sv r \<longleftrightarrow> memo_coherent registry_generation (client_view (ep_service_name sv)) r
     (ep_cached_generation sv, sv_cached_clients sv)"

lemma refresh_service_memo:
  "(ep_cached_generation (refresh_service r g cl), cl_cached_service_path (refresh_service r g cl),
    cl_cached_is_available (refresh_service r g cl)) =
   memo_replace g (service_view (ep_service_name cl) r) (ep_cached_generation cl, cl_cached_service_path cl, cl_cached_is_available cl)"
  "endpoint.truncate (refresh_service r g cl) = (endpoint.truncate cl)\<lparr>ep_cached_generation := ep_cached_generation (refresh_service r g cl)\<rparr>"
  by (simp_all add: refresh_service_def memo_replace_def service_view_def Let_def endpoint.truncate_def)

lemma refresh_clients_memo:
  "(ep_cached_generation (refresh_clients r g sv), sv_cached_clients (refresh_clients r g sv)) =
   memo_replace g (client_view (ep_service_name sv) r) (ep_cached_generation sv, sv_cached_clients sv)"
  "endpoint.truncate (refresh_clients r g sv) = (endpoint.truncate sv)\<lparr>ep_cached_generation := ep_cached_generation (refresh_clients r g sv)\<rparr>"
  by (simp_all add: refresh_clients_def memo_replace_def client_view_def endpoint.truncate_def)

lemma refresh_service_now:
  assumes "client_coherent cl r"
  shows "cl_cached_service_path (refresh_service r (registry_generation r) cl) = fst (service_view (ep_service_name cl) r)"
    "cl_cached_is_available (refresh_service r (registry_generation r) cl) = snd (service_view (ep_service_name cl) r)"
  using servers.replace_now[OF assms[unfolded client_coherent_def]]
  unfolding refresh_service_memo(1)[symmetric] by (simp_all add: prod_eq_iff)

lemma cached_path_in: "cached_path gid cs = Some p \<Longrightarrow> \<exists>c\<in>set cs. cc_gid c = gid \<and> cc_socket_path c = p"
  by (induction cs) (auto split: if_splits)

lemma cached_path_None: "cached_path gid cs = None \<longleftrightarrow> (\<forall>c\<in>set cs. cc_gid c \<noteq> gid)"
  by (induction cs) auto

lemma queried_is_cached: "queried_path gid qs = cached_path gid (client_list qs)"
  by (induction qs) (simp_all add: client_list_def)

definition client_entry :: "string \<Rightarrow> gid \<Rightarrow> string \<Rightarrow> reg_entry \<Rightarrow> bool" where
  "client_entry name gid path e \<longleftrightarrow> en_type e = ENTRY_CLIENT \<and> pl_topic_name (en_payload e) = name \<and>
     pl_gid (en_payload e) = gid \<and> pl_socket_path (en_payload e) = path \<and> path \<noteq> []"

lemma client_view_iff:
  assumes "wf_registry r"
  shows "(\<exists>c\<in>set (client_view name r). cc_gid c = gid \<and> cc_socket_path c = path) \<longleftrightarrow>
    (\<exists>i e. entries r i = Some e \<and> client_entry name gid path e)"
proof -
  have "set (client_view name r) = (\<lambda>e. \<lparr>cc_socket_path = pl_socket_path (en_payload e), cc_gid = pl_gid (en_payload e)\<rparr>) `
      {e. (\<exists>i. entries r i = Some e) \<and> entry_matches ENTRY_CLIENT (Some name) None None e \<and> pl_socket_path (en_payload e) \<noteq> []}"
  proof -
    have "{q \<in> entry_result ` A. qr_socket_path q \<noteq> []} = entry_result ` {e \<in> A. pl_socket_path (en_payload e) \<noteq> []}" for A
      by (auto simp: entry_result_def to_result_def)
    then show ?thesis
      by (simp add: client_view_def client_list_def registry_query_set[OF assms] image_image entry_result_def to_result_def conj_assoc)
  qed
  then show ?thesis by (auto simp: entry_matches_def matches_def client_entry_def uds_defs)
qed

text \<open>
  C37: a response is not lost while its client is registered. The generation is read at one
  moment, the registry queried for the list later, and once more later on a miss, with any
  registry operations in between. The list stays coherent; if the client is registered at the
  last query the response is given a path; and a path it is given is that of a client
  registered under the request's id at one of these moments.
\<close>

theorem response_finds_its_client:
  assumes "service_coherent sv r0" "wf_registry r0" "reg_step\<^sup>*\<^sup>* r0 r1" "reg_step\<^sup>*\<^sup>* r1 r2" "reg_step\<^sup>*\<^sup>* r2 r3"
    and "sv' = refresh_clients r2 (registry_generation r1) sv"
  shows "service_coherent sv' r2 \<and>
    ((\<exists>i e path. entries r3 i = Some e \<and> client_entry (ep_service_name sv) gid path e) \<longrightarrow> route_response r3 sv' gid \<noteq> None) \<and>
    (\<forall>path. route_response r3 sv' gid = Some path \<longrightarrow>
       (\<exists>r\<in>{r1, r2, r3}. \<exists>i e. entries r i = Some e \<and> client_entry (ep_service_name sv) gid path e))"
proof -
  let ?n = "ep_service_name sv"
  note m = refresh_clients_memo(1)[of r2 "registry_generation r1" sv, folded assms(6)]
  have n: "ep_service_name sv' = ?n" by (simp add: assms(6) refresh_clients_def)
  have wf: "wf_registry r1" "wf_registry r2" "wf_registry r3" using reg_steps_wf assms(2-5) by blast+
  have c1: "memo_coherent registry_generation (client_view ?n) r1 (ep_cached_generation sv, sv_cached_clients sv)"
    using clients.coherent_steps[OF assms(1)[unfolded service_coherent_def] assms(3)] .
  have coh: "service_coherent sv' r2"
    using clients.replace_coherent[OF clients.coherent_steps[OF c1 assms(4)] assms(4)]
    unfolding service_coherent_def n m[symmetric] .
  have view: "sv_cached_clients sv' = client_view ?n r1 \<or> sv_cached_clients sv' = client_view ?n r2"
    using m c1 by (auto simp: memo_replace_def memo_coherent_def split: if_splits)
  have route: "route_response r3 sv' gid = (case cached_path gid (sv_cached_clients sv') of
      Some path \<Rightarrow> Some path | None \<Rightarrow> cached_path gid (client_view ?n r3))"
    unfolding route_response_def n client_view_def queried_is_cached ..
  have hit: "\<exists>i e. entries r i = Some e \<and> client_entry ?n gid path e"
    if "cached_path gid (client_view ?n r) = Some path" "wf_registry r" for r path
    using cached_path_in[OF that(1)] client_view_iff[OF that(2)] by blast
  have "route_response r3 sv' gid \<noteq> None" if "entries r3 i = Some e" "client_entry ?n gid path e" for i e path
    using client_view_iff[OF wf(3), of ?n gid path] that cached_path_None[of gid "client_view ?n r3"]
    by (auto simp: route split: option.splits)
  moreover have "\<exists>r\<in>{r1, r2, r3}. \<exists>i e. entries r i = Some e \<and> client_entry ?n gid path e"
    if "route_response r3 sv' gid = Some path" for path
    using that view hit[OF _ wf(1)] hit[OF _ wf(2)] hit[OF _ wf(3)]
    by (simp add: route split: option.splits) metis+
  ultimately show ?thesis using coh by blast
qed

section \<open>Taking\<close>

lemma pop_decodable_split:
  "pop_decodable cb q = (case dropWhile (\<lambda>m. deserialize cb (rm_payload m) = None) q of
     [] \<Rightarrow> (None, []) | m # rest \<Rightarrow> (Some (m, the (deserialize cb (rm_payload m))), rest))"
  by (induction q) (auto split: option.splits)


lemma take_rpc_single:
  assumes "wf_header h" "unat (wh_payload_size h) = length p" "wh_msg_type h AND NOT SHM_PAYLOAD_FLAG = kind"
    and "nt_queue (wo_net w) (ep_socket ep) = [header_bytes h @ p]" "ib_queue (ep_inbox ep) = []"
    and "sy_rounds sy = []"
    and "shm_resolve_incoming (sy_reader sy) (wo_fs w) (cx_domain_id (ep_context ep)) (ib_cache (ep_inbox ep)) h p = (Some (h1, bs), cache')"
    and "cb_read cb bs = Some x"
  shows "\<exists>buf'. take_rpc kind cb sy ep w =
    (\<lparr>ro_ret = RMW_RET_OK, ro_taken = Some True,
      ro_header = Some \<lparr>si_writer_guid = wh_gid h1, si_sequence_number = wh_sequence_number h1,
        si_source_timestamp = wh_source_timestamp h1, si_received_timestamp = sy_now_ns sy\<rparr>, ro_message = Some x\<rparr>,
     ep\<lparr>ep_inbox := (ep_inbox ep)\<lparr>ib_cache := cache'\<rparr>\<rparr>,
     w\<lparr>wo_net := (wo_net w)\<lparr>nt_queue := (nt_queue (wo_net w))(ep_socket ep := [])\<rparr>, wo_recv_buf := buf'\<rparr>)"
proof -
  let ?cfg = "\<lparr>dc_depth = None, dc_msg_type = kind, dc_domain_id = cx_domain_id (ep_context ep), dc_dedup = False,
      dc_ignore_local = False, dc_context_id = 0\<rparr>"
  let ?m = "\<lparr>rm_header = h1, rm_payload = bs, rm_received_timestamp = sy_now_ns sy\<rparr>"
  have dl: "deliver (sy_reader sy) (wo_fs w) ?cfg (sy_now_ns sy) (h, p) (ep_inbox ep) =
      ((ep_inbox ep)\<lparr>ib_cache := cache', ib_queue := [?m]\<rparr>, True)"
    using assms(3,5,7) by (simp add: deliver_def enqueue_within_def)
  obtain buf' where l: "drain_loop (sy_reader sy) (wo_fs w) ?cfg (sy_now_ns sy) [] (wo_recv_buf w) [header_bytes h @ p] (ep_inbox ep)
      = ((ep_inbox ep)\<lparr>ib_cache := cache', ib_queue := [?m]\<rparr>, [], buf', 1)"
    using drain_loop_single[OF assms(1,2), of "sy_reader sy" "wo_fs w" ?cfg "sy_now_ns sy" "wo_recv_buf w" "ep_inbox ep"]
    by (auto simp: dl)
  have q: "(ep_inbox ep)\<lparr>ib_cache := cache', ib_queue := []\<rparr> = (ep_inbox ep)\<lparr>ib_cache := cache'\<rparr>"
    using assms(5) by (cases "ep_inbox ep") simp
  show ?thesis
    by (intro exI[of _ buf'])
      (simp add: take_rpc_def drain_endpoint_def drain_def assms(4,6) l deserialize_def assms(8) service_info_of_def q)
qed

section \<open>The round trip\<close>

lemma rpc_hop:
  assumes "callbacks_ok cb" "cb_size cb msg = Some n" "4 + n \<le> UINT32_MAX"
    and "length (wh_gid h) = 16" "wh_msg_type h = kind" "kind AND SHM_PAYLOAD_FLAG = 0"
    and "shm_serialize_prepare_send env alloc d cb msg h s = (Some (wire, hdr), s')"
    and "ring_ok d (ss_fs s) (ss_ring s)" "page_ok env" "pid_ok env (ss_ring s)"
    and "wo_fs w = ss_fs s'" "nt_queue (wo_net w) (ep_socket ep) = [header_bytes hdr @ wire]" "ib_queue (ep_inbox ep) = []"
    and "cx_domain_id (ep_context ep) = d" "cache_agrees d (wo_fs w) (ib_cache (ep_inbox ep))"
    and "sy_reader sy = reader_up" "sy_rounds sy = []"
  shows "\<exists>buf' cache'. take_rpc kind cb sy ep w =
    (\<lparr>ro_ret = RMW_RET_OK, ro_taken = Some True,
      ro_header = Some \<lparr>si_writer_guid = wh_gid h, si_sequence_number = wh_sequence_number h,
        si_source_timestamp = wh_source_timestamp h, si_received_timestamp = sy_now_ns sy\<rparr>, ro_message = Some msg\<rparr>,
     ep\<lparr>ep_inbox := (ep_inbox ep)\<lparr>ib_cache := cache'\<rparr>\<rparr>,
     w\<lparr>wo_net := (wo_net w)\<lparr>nt_queue := (nt_queue (wo_net w))(ep_socket ep := [])\<rparr>, wo_recv_buf := buf'\<rparr>)"
proof -
  have t: "wh_msg_type h AND SHM_PAYLOAD_FLAG = 0" and wf: "wf_header h" using assms(4-6) by (simp_all add: wf_header_def)
  note sr = sent_resolves[OF assms(1) t wf assms(7-10,2,3) assms(15)[unfolded assms(11)]]
  obtain bs cache' where b: "shm_resolve_incoming reader_up (ss_fs s') d (ib_cache (ep_inbox ep)) hdr wire =
      (Some (h\<lparr>wh_payload_size := of_nat (length bs)\<rparr>, bs), cache')" "cb_read cb bs = Some msg" using sr by blast
  have hd: "wf_header hdr" "unat (wh_payload_size hdr) = length wire" "wh_msg_type hdr AND NOT SHM_PAYLOAD_FLAG = kind"
    using sr assms(5) by simp_all
  show ?thesis
    using take_rpc_single[OF hd assms(12,13,17) _ b(2), unfolded assms(11,14,16), OF b(1)] by auto
qed

text \<open>
  A client and a server that can reach each other: same name, types and domain; both entries
  in the registry, the server's the first under the name, the client's the first under its id;
  both sockets bound and empty; the two caches coherent, possibly stale.
\<close>

definition linked :: "('q, 'r) client \<Rightarrow> ('q, 'r) service \<Rightarrow> world \<Rightarrow> bool" where
  "linked cl sv w \<longleftrightarrow>
     ep_service_name sv = ep_service_name cl \<and> cx_domain_id (ep_context sv) = cx_domain_id (ep_context cl) \<and>
     sv_request_callbacks sv = cl_request_callbacks cl \<and> sv_response_callbacks sv = cl_response_callbacks cl \<and>
     callbacks_ok (cl_request_callbacks cl) \<and> callbacks_ok (cl_response_callbacks cl) \<and> length (ep_gid cl) = 16 \<and>
     client_coherent cl (wo_reg w) \<and> service_coherent sv (wo_reg w) \<and>
     fst (service_view (ep_service_name cl) (wo_reg w)) = ep_socket_path sv \<and> ep_socket_path sv \<noteq> [] \<and>
     cached_path (ep_gid cl) (client_view (ep_service_name cl) (wo_reg w)) = Some (ep_socket_path cl) \<and>
     nt_bound (wo_net w) (sun_path (ep_socket_path sv)) = Some (ep_socket sv) \<and>
     nt_bound (wo_net w) (sun_path (ep_socket_path cl)) = Some (ep_socket cl) \<and> ep_socket cl \<noteq> ep_socket sv \<and>
     nt_queue (wo_net w) (ep_socket sv) = [] \<and> nt_queue (wo_net w) (ep_socket cl) = [] \<and>
     ib_queue (ep_inbox sv) = [] \<and> ib_queue (ep_inbox cl) = []"

text \<open>The system of a process in which nothing fails and nobody else reads its sockets.\<close>

definition smooth :: "sys \<Rightarrow> ring_writer \<Rightarrow> bool" where
  "smooth sy ring \<longleftrightarrow> page_ok (sy_shm sy) \<and> pid_ok (sy_shm sy) ring \<and> net_up (sy_net sy) \<and>
     sy_reader sy = reader_up \<and> sy_rounds sy = [] \<and> (\<forall>n. sy_alloc sy n)"

lemma send_to_up:
  assumes "net_up env" "nt_bound net (sun_path path) = Some sock"
  shows "snd (send_to env net path hdr p) = net\<lparr>nt_queue := (nt_queue net)(sock := nt_queue net sock @ [header_bytes hdr @ p])\<rparr>"
  using assms by (simp add: send_to_def net_up_def Let_def)

lemma prepare_succeeds:
  assumes "callbacks_ok cb" "wh_msg_type h AND SHM_PAYLOAD_FLAG = 0" "cb_size cb msg = Some n"
    and "ring_ok d (ss_fs s) (ss_ring s)" "smooth sy (ss_ring s)"
  obtains wire hdr s' where "shm_serialize_prepare_send (sy_shm sy) (sy_alloc sy) d cb msg h s = (Some (wire, hdr), s')"
proof -
  obtain out s' where p: "shm_serialize_prepare_send (sy_shm sy) (sy_alloc sy) d cb msg h s = (out, s')" by fastforce
  have "out \<noteq> None" using prepare_send_cases(2)[OF assms(1,2) p assms(4) _ _ assms(3)] assms(5) by (auto simp: smooth_def)
  then show ?thesis using that p by (metis option.exhaust prod.exhaust)
qed

text \<open>The four steps on the entities behind the handles.\<close>

lemma call_steps:
  assumes "linked cl sv w" "smooth sc (ep_shm_ring cl)" "smooth ss (ep_shm_ring sv)"
    and "cb_size (cl_request_callbacks cl) req = Some n" "4 + n \<le> UINT32_MAX"
    and "cb_size (cl_response_callbacks cl) resp = Some m" "4 + m \<le> UINT32_MAX"
    and "ring_ok (cx_domain_id (ep_context cl)) (wo_fs w) (ep_shm_ring cl)"
    and "send_request sc cl req w = (out, cl1, w1)"
    and "ring_ok (cx_domain_id (ep_context cl)) (wo_fs w1) (ep_shm_ring sv)"
    and "cache_agrees (cx_domain_id (ep_context cl)) (wo_fs w1) (ib_cache (ep_inbox sv))"
    and "take_rpc MSG_REQUEST (sv_request_callbacks sv) ss sv w1 = (out1, sv1, w2)"
    and "ro_header out1 = Some info"
    and "send_response ss sv1 \<lparr>ri_writer_guid = si_writer_guid info, ri_sequence_number = si_sequence_number info\<rparr> resp w2 = (ret, sv2, w3)"
    and "cache_agrees (cx_domain_id (ep_context cl)) (wo_fs w3) (ib_cache (ep_inbox cl))"
    and "take_rpc MSG_RESPONSE (cl_response_callbacks cl1) sc cl1 w3 = (out2, cl2, w4)"
  shows "out = (RMW_RET_OK, Some (cl_sequence_number cl)) \<and> ro_message out1 = Some req \<and> ret = RMW_RET_OK \<and>
    ro_message out2 = Some resp \<and>
    (\<exists>info2. ro_header out2 = Some info2 \<and> si_writer_guid info2 = ep_gid cl \<and>
       si_sequence_number info2 = cl_sequence_number cl) \<and>
    (\<forall>sock. nt_queue (wo_net w4) sock = nt_queue (wo_net w) sock)"
proof -
  let ?d = "cx_domain_id (ep_context cl)"
  note lk = assms(1)[unfolded linked_def]
  have nm: "ep_service_name sv = ep_service_name cl" using lk by blast
  note smc = assms(2)[unfolded smooth_def] and sms = assms(3)[unfolded smooth_def]
  have k: "MSG_REQUEST AND SHM_PAYLOAD_FLAG = 0" "MSG_RESPONSE AND SHM_PAYLOAD_FLAG = 0" by (simp_all add: uds_defs)
  let ?cl0 = "cl\<lparr>cl_sequence_number := cl_sequence_number cl + 1\<rparr>"
  let ?h = "request_header sc ?cl0 (cl_sequence_number cl)"
  obtain wire hdr s where p1: "shm_serialize_prepare_send (sy_shm sc) (sy_alloc sc) ?d (cl_request_callbacks cl) req ?h (side_of (ep_shm_ring cl) w) = (Some (wire, hdr), s)"
    using prepare_succeeds[of "cl_request_callbacks cl" ?h req n ?d "side_of (ep_shm_ring cl) w" sc] lk assms(2,4,8) k
    by (auto simp: request_header_def side_of_def)
  have coh: "client_coherent (?cl0\<lparr>ep_shm_ring := ring\<rparr>) (wo_reg w)" for ring
    using lk by (simp add: client_coherent_def)
  note rf = refresh_service_now(1)[OF coh]
  have s1: "out = (RMW_RET_OK, Some (cl_sequence_number cl))" "wo_fs w1 = ss_fs s" "wo_reg w1 = wo_reg w"
    "wo_net w1 = (wo_net w)\<lparr>nt_queue := (nt_queue (wo_net w))(ep_socket sv := [header_bytes hdr @ wire])\<rparr>"
    "ep_socket cl1 = ep_socket cl" "ep_inbox cl1 = ep_inbox cl" "ep_context cl1 = ep_context cl"
    "cl_response_callbacks cl1 = cl_response_callbacks cl"
    using assms(9) lk smc rf
    by (auto simp: send_request_def p1 set_side_def Let_def send_to_up refresh_service_def)
  have t1: "\<exists>buf' cache'. take_rpc MSG_REQUEST (cl_request_callbacks cl) ss sv w1 =
    (\<lparr>ro_ret = RMW_RET_OK, ro_taken = Some True,
      ro_header = Some \<lparr>si_writer_guid = wh_gid ?h, si_sequence_number = wh_sequence_number ?h,
        si_source_timestamp = wh_source_timestamp ?h, si_received_timestamp = sy_now_ns ss\<rparr>, ro_message = Some req\<rparr>,
     sv\<lparr>ep_inbox := (ep_inbox sv)\<lparr>ib_cache := cache'\<rparr>\<rparr>,
     w1\<lparr>wo_net := (wo_net w1)\<lparr>nt_queue := (nt_queue (wo_net w1))(ep_socket sv := [])\<rparr>, wo_recv_buf := buf'\<rparr>)"
    by (rule rpc_hop[OF _ assms(4,5) _ _ k(1) p1])
      (use lk smc sms assms(8,11) s1 in \<open>simp_all add: request_header_def side_of_def\<close>)
  have cb: "sv_request_callbacks sv = cl_request_callbacks cl" using lk by blast
  obtain buf1 cache1 where "take_rpc MSG_REQUEST (cl_request_callbacks cl) ss sv w1 =
    (\<lparr>ro_ret = RMW_RET_OK, ro_taken = Some True,
      ro_header = Some \<lparr>si_writer_guid = wh_gid ?h, si_sequence_number = wh_sequence_number ?h,
        si_source_timestamp = wh_source_timestamp ?h, si_received_timestamp = sy_now_ns ss\<rparr>, ro_message = Some req\<rparr>,
     sv\<lparr>ep_inbox := (ep_inbox sv)\<lparr>ib_cache := cache1\<rparr>\<rparr>,
     w1\<lparr>wo_net := (wo_net w1)\<lparr>nt_queue := (nt_queue (wo_net w1))(ep_socket sv := [])\<rparr>, wo_recv_buf := buf1\<rparr>)"
    using t1 by blast
  then have t1': "sv1 = sv\<lparr>ep_inbox := (ep_inbox sv)\<lparr>ib_cache := cache1\<rparr>\<rparr>"
    "w2 = w1\<lparr>wo_net := (wo_net w1)\<lparr>nt_queue := (nt_queue (wo_net w1))(ep_socket sv := [])\<rparr>, wo_recv_buf := buf1\<rparr>"
    "ro_message out1 = Some req" "si_writer_guid info = ep_gid cl" "si_sequence_number info = cl_sequence_number cl"
    using assms(12,13) unfolding cb by (auto simp: request_header_def)
  let ?h2 = "response_header ss \<lparr>ri_writer_guid = ep_gid cl, ri_sequence_number = cl_sequence_number cl\<rparr>"
  obtain wire2 hdr2 s2 where p2: "shm_serialize_prepare_send (sy_shm ss) (sy_alloc ss) ?d (cl_response_callbacks cl) resp ?h2 (side_of (ep_shm_ring sv) w2) = (Some (wire2, hdr2), s2)"
    using prepare_succeeds[of "cl_response_callbacks cl" ?h2 resp m ?d "side_of (ep_shm_ring sv) w2" ss] lk assms(3,6,10) k
    by (auto simp: response_header_def side_of_def t1'(2))
  have coh2: "service_coherent (sv1\<lparr>ep_shm_ring := ring\<rparr>) (wo_reg w)" for ring
    using lk unfolding service_coherent_def t1'(1) by (simp add: nm)
  have rc: "sv_cached_clients (refresh_clients (wo_reg w) (registry_generation (wo_reg w)) (sv1\<lparr>ep_shm_ring := ring\<rparr>))
      = client_view (ep_service_name cl) (wo_reg w)" for ring
    using clients.replace_now[OF coh2[unfolded service_coherent_def], of ring] lk
    unfolding refresh_clients_memo(1)[symmetric] by (simp add: t1'(1))
  have s2: "ret = RMW_RET_OK" "wo_fs w3 = ss_fs s2"
    "wo_net w3 = (wo_net w)\<lparr>nt_queue := (nt_queue (wo_net w))(ep_socket sv := [], ep_socket cl := [header_bytes hdr2 @ wire2])\<rparr>"
    using assms(14) p2 lk sms rc
    by (auto simp: send_response_def t1' set_side_def Let_def send_to_up route_response_def s1)
  have "\<exists>buf' cache'. take_rpc MSG_RESPONSE (cl_response_callbacks cl) sc cl1 w3 =
    (\<lparr>ro_ret = RMW_RET_OK, ro_taken = Some True,
      ro_header = Some \<lparr>si_writer_guid = wh_gid ?h2, si_sequence_number = wh_sequence_number ?h2,
        si_source_timestamp = wh_source_timestamp ?h2, si_received_timestamp = sy_now_ns sc\<rparr>, ro_message = Some resp\<rparr>,
     cl1\<lparr>ep_inbox := (ep_inbox cl1)\<lparr>ib_cache := cache'\<rparr>\<rparr>,
     w3\<lparr>wo_net := (wo_net w3)\<lparr>nt_queue := (nt_queue (wo_net w3))(ep_socket cl1 := [])\<rparr>, wo_recv_buf := buf'\<rparr>)"
    by (rule rpc_hop[OF _ assms(6,7) _ _ k(2) p2])
      (use lk smc sms assms(10,15) s1 s2 t1'(2) in \<open>simp_all add: response_header_def side_of_def\<close>)
  then show ?thesis
    using assms(16) s1 t1'(3) s2 lk by (auto simp: response_header_def)
qed

text \<open>The steps of the API: each entry point checks its handle and works on the entity behind it.\<close>

lemma with_live:
  assumes "with_entity (the_handle d) True fail body w = (out, h, w')"
  obtains d' where "body d = (out, d', w')" "h = the_handle d'"
  using assms by (auto simp: with_entity_def the_handle_def split: prod.splits)

text \<open>
  C8: a call returns to its caller. A client and a server are linked, and the four steps run
  one after the other: the request is sent, taken, answered under the id it was taken with,
  and the response is taken. The request taken is the request sent, under the client's id and
  the sequence number the sender was told; the response taken is the response sent, under the
  same id and number; nothing reaches any other socket.
\<close>

theorem service_call_roundtrip:
  assumes "linked cl sv w" "smooth sc (ep_shm_ring cl)" "smooth ss (ep_shm_ring sv)"
    and "cb_size (cl_request_callbacks cl) req = Some n" "4 + n \<le> UINT32_MAX"
    and "cb_size (cl_response_callbacks cl) resp = Some m" "4 + m \<le> UINT32_MAX"
    and "ring_ok (cx_domain_id (ep_context cl)) (wo_fs w) (ep_shm_ring cl)"
    and "rmw_send_request sc (the_handle cl) (Some req) True w = (out, hc, w1)"
    and "ring_ok (cx_domain_id (ep_context cl)) (wo_fs w1) (ep_shm_ring sv)"
    and "cache_agrees (cx_domain_id (ep_context cl)) (wo_fs w1) (ib_cache (ep_inbox sv))"
    and "rmw_take_request ss (the_handle sv) True w1 = (out1, hs, w2)"
    and "ro_header out1 = Some info"
    and "rmw_send_response ss hs (Some \<lparr>ri_writer_guid = si_writer_guid info, ri_sequence_number = si_sequence_number info\<rparr>)
           (Some resp) w2 = (ret, hs2, w3)"
    and "cache_agrees (cx_domain_id (ep_context cl)) (wo_fs w3) (ib_cache (ep_inbox cl))"
    and "rmw_take_response sc hc True w3 = (out2, hc2, w4)"
  shows "out = (RMW_RET_OK, Some (cl_sequence_number cl)) \<and> ro_message out1 = Some req \<and> ret = RMW_RET_OK \<and>
    ro_message out2 = Some resp \<and>
    (\<exists>info2. ro_header out2 = Some info2 \<and> si_writer_guid info2 = ep_gid cl \<and>
       si_sequence_number info2 = cl_sequence_number cl) \<and>
    (\<forall>sock. nt_queue (wo_net w4) sock = nt_queue (wo_net w) sock)"
proof -
  obtain cl1 where c1: "send_request sc cl req w = (out, cl1, w1)" "hc = the_handle cl1"
    using assms(9) by (auto simp: rmw_send_request_def elim!: with_live)
  obtain sv1 where s1: "take_rpc MSG_REQUEST (sv_request_callbacks sv) ss sv w1 = (out1, sv1, w2)" "hs = the_handle sv1"
    using assms(12) by (auto simp: rmw_take_request_def elim!: with_live)
  obtain sv2 where s2: "send_response ss sv1 \<lparr>ri_writer_guid = si_writer_guid info, ri_sequence_number = si_sequence_number info\<rparr>
      resp w2 = (ret, sv2, w3)"
    using assms(14) by (auto simp: rmw_send_response_def s1(2) elim!: with_live)
  obtain cl2 where "take_rpc MSG_RESPONSE (cl_response_callbacks cl1) sc cl1 w3 = (out2, cl2, w4)"
    using assms(16) by (auto simp: rmw_take_response_def c1(2) elim!: with_live)
  then show ?thesis by (rule call_steps[OF assms(1-8) c1(1) assms(10,11) s1(1) assms(13) s2 assms(15)])
qed

section \<open>A small world\<close>

definition rpc_slot :: "entry_type \<Rightarrow> gid \<Rightarrow> string \<Rightarrow> slot" where
  "rpc_slot ty gid path = \<lparr>sl_seq = 2, sl_state = ty,
     sl_payload = zero_payload\<lparr>pl_topic_name := ''/add'', pl_gid := gid, pl_socket_path := path\<rparr>\<rparr>"

definition reg2 :: registry where
  "reg2 = \<lparr>rg_slots = [rpc_slot ENTRY_SERVICE (replicate 16 5) ''/s'', rpc_slot ENTRY_CLIENT (replicate 16 6) ''/c''],
     rg_generation = 2, rg_high_water = 2\<rparr>"

definition world2 :: world where
  "world2 = world0\<lparr>wo_reg := reg2, wo_net := \<lparr>nt_bound = [''/s'' \<mapsto> 0, ''/c'' \<mapsto> 1], nt_queue = (\<lambda>_. []), nt_next = 2\<rparr>\<rparr>"

definition client2 :: "(bytes, bytes) client" where
  "client2 = endpoint.extend ((new_endpoint ctx0 1 (replicate 16 6) ''/add'' [] zero_qos ''/c'')\<lparr>ep_socket := 1\<rparr>)
     (client.fields bytes_callbacks bytes_callbacks 1 [] False)"

definition service2 :: "(bytes, bytes) service" where
  "service2 = endpoint.extend (new_endpoint ctx0 2 (replicate 16 5) ''/add'' [] zero_qos ''/s'')
     (service.fields bytes_callbacks bytes_callbacks [])"

lemmas rpc_example = client2_def service2_def new_endpoint_def endpoint.defs client.defs service.defs new_inbox_def Let_def

lemma wf_reg2: "wf_registry reg2"
  by (auto simp: wf_registry_def reg2_def rpc_slot_def wf_slot_def max_entries_def uds_defs less_2_cases_iff)

lemma entries_reg2: "entries reg2 =
    [0 \<mapsto> \<lparr>en_type = ENTRY_SERVICE, en_payload = sl_payload (rpc_slot ENTRY_SERVICE (replicate 16 5) ''/s'')\<rparr>,
     1 \<mapsto> \<lparr>en_type = ENTRY_CLIENT, en_payload = sl_payload (rpc_slot ENTRY_CLIENT (replicate 16 6) ''/c'')\<rparr>]"
  by (auto simp: fun_eq_iff entries_def slot_entry_def occupied_def reg2_def rpc_slot_def max_entries_def uds_defs less_2_cases_iff)

lemma reg2_facts: "max_entries reg2 = 2" "registry_generation reg2 = 2" "[0..<2::nat] = [0, 1]"
  by (simp_all add: max_entries_def reg2_def registry_generation_def upt_conv_Cons)

lemma query_reg2:
  "registry_query reg2 ENTRY_SERVICE (Some ''/add'') None None = [to_result ENTRY_SERVICE (sl_payload (rpc_slot ENTRY_SERVICE (replicate 16 5) ''/s''))]"
  "registry_query reg2 ENTRY_CLIENT (Some ''/add'') None None = [to_result ENTRY_CLIENT (sl_payload (rpc_slot ENTRY_CLIENT (replicate 16 6) ''/c''))]"
  unfolding registry_query_spec[OF wf_reg2] query_spec_def entries_reg2 reg2_facts
  by (simp_all add: List.map_filter_simps entry_matches_def matches_def entry_result_def rpc_slot_def uds_defs)

lemma views_reg2:
  "service_view ''/add'' reg2 = (''/s'', True)"
  "client_view ''/add'' reg2 = [\<lparr>cc_socket_path = ''/c'', cc_gid = replicate 16 6\<rparr>]"
  by (simp_all add: service_view_def client_view_def query_reg2 client_list_def to_result_def rpc_slot_def)

lemma linked2: "linked client2 service2 world2"
  using bytes_callbacks_ok
  by (simp add: linked_def rpc_example world2_def views_reg2 client_coherent_def service_coherent_def memo_coherent_def
      reg2_facts sun_path_def)

lemma smooth0: "smooth sys0 new_ring_writer"
  using env0_ok by (simp add: smooth_def sys0_def net_up_def)

text \<open>The four steps, composed.\<close>

definition call2 :: "bytes \<Rightarrow> bytes \<Rightarrow> bytes rpc_out" where
  "call2 req resp =
     (let (_, hc, w1) = rmw_send_request sys0 (the_handle client2) (Some req) True world2;
          (out1, hs, w2) = rmw_take_request sys0 (the_handle service2) True w1;
          info = the (ro_header out1);
          (_, _, w3) = rmw_send_response sys0 hs
             (Some \<lparr>ri_writer_guid = si_writer_guid info, ri_sequence_number = si_sequence_number info\<rparr>) (Some resp) w2;
          (out2, _, _) = rmw_take_response sys0 hc True w3
      in out2)"

lemma small_sends:
  "shm_serialize_prepare_send env alloc d bytes_callbacks [1, 2] h s = (out, s') \<Longrightarrow> s' = s"
  "shm_serialize_prepare_send env alloc d bytes_callbacks [9] h s = (out, s') \<Longrightarrow> s' = s"
  using small_send_stays_inline[of bytes_callbacks "[1, 2]" 2 env alloc d h s] small_send_stays_inline[of bytes_callbacks "[9]" 1 env alloc d h s]
  by (auto simp: bytes_callbacks_def SHM_PAYLOAD_THRESHOLD_def)

theorem service_call_roundtrip_witness:
  "ro_message (call2 [1, 2] [9]) = Some [9] \<and> si_sequence_number (the (ro_header (call2 [1, 2] [9]))) = 1"
proof -
  obtain out hc w1 where a: "rmw_send_request sys0 (the_handle client2) (Some [1, 2]) True world2 = (out, hc, w1)" using prod_cases3 by blast
  obtain out1 hs w2 where b: "rmw_take_request sys0 (the_handle service2) True w1 = (out1, hs, w2)" using prod_cases3 by blast
  obtain info where i: "ro_header out1 = Some info"
    using b by (auto simp: rmw_take_request_def take_rpc_def Let_def elim!: with_live split: prod.splits option.splits)
  obtain ret hs2 w3 where c: "rmw_send_response sys0 hs
      (Some \<lparr>ri_writer_guid = si_writer_guid info, ri_sequence_number = si_sequence_number info\<rparr>) (Some [9]) w2 = (ret, hs2, w3)"
    using prod_cases3 by blast
  obtain out2 hc2 w4 where d: "rmw_take_response sys0 hc True w3 = (out2, hc2, w4)" using prod_cases3 by blast
  obtain cl1 where a1: "send_request sys0 client2 [1, 2] world2 = (out, cl1, w1)"
    using a by (auto simp: rmw_send_request_def elim!: with_live)
  have cb: "cl_request_callbacks client2 = bytes_callbacks" "cl_response_callbacks client2 = bytes_callbacks"
    "ep_shm_ring client2 = new_ring_writer" "ep_shm_ring service2 = new_ring_writer"
    "ib_cache (ep_inbox client2) = []" "ib_cache (ep_inbox service2) = []" "cl_sequence_number client2 = 1"
    by (simp_all add: rpc_example)
  have fs: "wo_fs w1 = empty_fs"
    using a1 by (auto simp: send_request_def Let_def cb set_side_def side_of_def world2_def world0_def
        split: prod.splits option.splits if_splits dest!: small_sends)
  have ring: "ring_ok (cx_domain_id (ep_context client2)) (wo_fs world2) (ep_shm_ring client2)"
    "ring_ok (cx_domain_id (ep_context client2)) (wo_fs w1) (ep_shm_ring service2)"
    using env0_ok(4) by (simp_all add: cb fs world2_def world0_def)
  have sm: "smooth sys0 (ep_shm_ring client2)" "smooth sys0 (ep_shm_ring service2)" using smooth0 by (simp_all add: cb)
  have sz: "cb_size (cl_request_callbacks client2) [1, 2] = Some 2" "4 + 2 \<le> UINT32_MAX"
    "cb_size (cl_response_callbacks client2) [9] = Some 1" "4 + 1 \<le> UINT32_MAX"
    by (simp_all add: cb bytes_callbacks_def uds_defs)
  have ca: "cache_agrees dd f (ib_cache (ep_inbox client2))" "cache_agrees dd f (ib_cache (ep_inbox service2))" for dd f
    by (simp_all add: cb cache_agrees_def)
  note r = service_call_roundtrip[OF linked2 sm sz ring(1) a ring(2) ca(2) b i c ca(1) d]
  obtain info2 where o: "ro_message out2 = Some [9]" "ro_header out2 = Some info2" "si_sequence_number info2 = 1"
    using r[THEN conjunct2, THEN conjunct2, THEN conjunct2, THEN conjunct1]
      r[THEN conjunct2, THEN conjunct2, THEN conjunct2, THEN conjunct2, THEN conjunct1, unfolded cb(7)] by blast
  have "call2 [1, 2] [9] = out2" unfolding call2_def a prod.case Let_def b i option.sel c d ..
  then show ?thesis using o by simp
qed


theorem response_finds_its_client_witness:
  "route_response reg2 (refresh_clients reg2 2 service2) (replicate 16 6) \<noteq> None"
proof -
  have "service_coherent service2 reg2" using linked2 by (simp add: linked_def world2_def)
  moreover have "entries reg2 1 = Some \<lparr>en_type = ENTRY_CLIENT, en_payload = sl_payload (rpc_slot ENTRY_CLIENT (replicate 16 6) ''/c'')\<rparr>"
    by (simp add: entries_reg2)
  moreover have "client_entry (ep_service_name service2) (replicate 16 6) ''/c''
      \<lparr>en_type = ENTRY_CLIENT, en_payload = sl_payload (rpc_slot ENTRY_CLIENT (replicate 16 6) ''/c'')\<rparr>"
    by (simp add: client_entry_def rpc_slot_def rpc_example)
  ultimately show ?thesis
    using response_finds_its_client[OF _ wf_reg2 rtranclp.rtrancl_refl rtranclp.rtrancl_refl rtranclp.rtrancl_refl refl, of service2 "replicate 16 6"]
    unfolding reg2_facts by blast
qed

end
