(* ===== verification/Uds_Lifecycle.thy ===== *)
theory Uds_Lifecycle
  imports Uds_Node Uds_Rpc_Props Uds_Late_Join
begin

text \<open>
  Creation and destruction across the entities: a creation that fails leaves nothing behind
  in the registry, in the namespace of bound sockets or in that of shared memory, and one
  that succeeds has registered its entry.
\<close>

section \<open>Nothing left behind\<close>

text \<open>
  \<open>less_left\<close>: against an earlier world there is nothing new in the registry, no new
  binding and no new shared object; and no entry of a living owner has gone.
\<close>

definition fewer :: "(int \<Rightarrow> proc_stat) \<Rightarrow> (nat \<Rightarrow> reg_entry option) \<Rightarrow> (nat \<Rightarrow> reg_entry option) \<Rightarrow> bool" where
  "fewer proc m m' \<longleftrightarrow>
     (\<forall>i e. m' i = Some e \<longrightarrow> m i = Some e) \<and> (\<forall>i e. m i = Some e \<longrightarrow> \<not> dead_entry proc e \<longrightarrow> m' i = Some e)"

lemma fewer_refl: "fewer proc m m" and fewer_sweep: "fewer proc m (sweep_map proc m)"
  by (auto simp: fewer_def sweep_map_def split: option.splits if_splits)

definition less_left :: "sys \<Rightarrow> world \<Rightarrow> world \<Rightarrow> bool" where
  "less_left sy w w' \<longleftrightarrow> fewer (sy_proc sy) (entries (wo_reg w)) (entries (wo_reg w')) \<and>
     nt_bound (wo_net w') \<subseteq>\<^sub>m nt_bound (wo_net w) \<and> fs_names (wo_fs w') \<subseteq>\<^sub>m fs_names (wo_fs w)"

lemma less_left_refl: "less_left sy w w"
  by (simp add: less_left_def fewer_refl)

lemma less_left_cong:
  "wo_reg v' = wo_reg w' \<Longrightarrow> wo_net v' = wo_net w' \<Longrightarrow> wo_fs v' = wo_fs w' \<Longrightarrow> less_left sy w v' = less_left sy w w'"
  by (simp add: less_left_def)

lemma apply_unlink_less:
  "nt_bound (wo_net (apply_unlink e w)) \<subseteq>\<^sub>m nt_bound (wo_net w)"
  "fs_names (wo_fs (apply_unlink e w)) \<subseteq>\<^sub>m fs_names (wo_fs w)"
  by (auto simp: apply_unlink_def net_unlink_def shm_unlink_def map_le_def split: unlink_effect.splits)

lemma apply_unlinks_less:
  "nt_bound (wo_net (fold apply_unlink effs w)) \<subseteq>\<^sub>m nt_bound (wo_net w)" (is ?net)
  "fs_names (wo_fs (fold apply_unlink effs w)) \<subseteq>\<^sub>m fs_names (wo_fs w)" (is ?fs)
proof -
  have "?net \<and> ?fs"
    by (induction effs arbitrary: w) (auto intro: map_le_trans apply_unlink_less)
  then show ?net ?fs by simp_all
qed

lemma add_entry_cases:
  assumes "wf_registry (wo_reg w)" "wf_entry e" "add_entry sy e w = (k, w')"
  shows "wf_registry (wo_reg w')" "(k, entries (wo_reg w')) = add_spec (sy_proc sy) (max_entries (wo_reg w)) (entries (wo_reg w)) e"
    "nt_bound (wo_net w') \<subseteq>\<^sub>m nt_bound (wo_net w)" "fs_names (wo_fs w') \<subseteq>\<^sub>m fs_names (wo_fs w)"
proof -
  obtain r effs rung where a: "registry_add (sy_ring sy) (sy_proc sy) (wo_reg w) e = (k, r, effs, rung)"
    and w': "w' = fold apply_unlink effs (w\<lparr>wo_reg := r\<rparr>)"
    using assms(3) by (cases "registry_add (sy_ring sy) (sy_proc sy) (wo_reg w) e") (auto simp: add_entry_def)
  show "wf_registry (wo_reg w')" "(k, entries (wo_reg w')) = add_spec (sy_proc sy) (max_entries (wo_reg w)) (entries (wo_reg w)) e"
    using registry_add_props[OF assms(1,2) a] by (simp_all add: w')
  show "nt_bound (wo_net w') \<subseteq>\<^sub>m nt_bound (wo_net w)" "fs_names (wo_fs w') \<subseteq>\<^sub>m fs_names (wo_fs w)"
    using apply_unlinks_less[of effs "w\<lparr>wo_reg := r\<rparr>"] by (simp_all add: w')
qed

lemma remove_entry_cases:
  assumes "wf_registry (wo_reg w)" "0 \<le> k"
  shows "entries (wo_reg (remove_entry sy k w)) = (entries (wo_reg w))(nat k := None)"
    "nt_bound (wo_net (remove_entry sy k w)) \<subseteq>\<^sub>m nt_bound (wo_net w)"
    "fs_names (wo_fs (remove_entry sy k w)) \<subseteq>\<^sub>m fs_names (wo_fs w)"
    "wf_registry (wo_reg (remove_entry sy k w))"
proof -
  obtain r effs rung where a: "registry_remove (sy_ring sy) (wo_reg w) k = (r, effs, rung)"
    by (cases "registry_remove (sy_ring sy) (wo_reg w) k")
  show "entries (wo_reg (remove_entry sy k w)) = (entries (wo_reg w))(nat k := None)" "wf_registry (wo_reg (remove_entry sy k w))"
    using registry_remove_props[OF assms(1) a] assms(2) by (simp_all add: remove_entry_def a)
  show "nt_bound (wo_net (remove_entry sy k w)) \<subseteq>\<^sub>m nt_bound (wo_net w)"
    "fs_names (wo_fs (remove_entry sy k w)) \<subseteq>\<^sub>m fs_names (wo_fs w)"
    using apply_unlinks_less[of effs "w\<lparr>wo_reg := r\<rparr>"] by (simp_all add: remove_entry_def a)
qed

lemma add_spec_cases:
  assumes "(k, m') = add_spec proc n m e"
  shows "k < 0 \<Longrightarrow> m' = sweep_map proc m"
    "0 \<le> k \<Longrightarrow> m' (nat k) = Some e \<and> (m'(nat k := None) = m \<or> m'(nat k := None) = sweep_map proc m)"
  using assms by (auto simp: add_spec_def Let_def fun_upd_idem dest!: first_free_SomeD split: option.splits)

lemma less_left_tables:
  assumes "entries (wo_reg w') = entries (wo_reg w) \<or> entries (wo_reg w') = sweep_map (sy_proc sy) (entries (wo_reg w))"
    and "nt_bound (wo_net w') \<subseteq>\<^sub>m nt_bound (wo_net w)" "fs_names (wo_fs w') \<subseteq>\<^sub>m fs_names (wo_fs w)"
  shows "less_left sy w w'"
  using assms fewer_refl fewer_sweep by (auto simp: less_left_def)

text \<open>A registration that fails, or is taken back, leaves nothing.\<close>

lemma registration:
  assumes "wf_registry (wo_reg w)" "wf_entry e" "add_entry sy e w = (k, w1)"
  shows "k < 0 \<Longrightarrow> less_left sy w w1"
    "0 \<le> k \<Longrightarrow> less_left sy w (remove_entry sy k w1)"
    "0 \<le> k \<Longrightarrow> entries (wo_reg w1) (nat k) = Some e"
proof -
  note a = add_entry_cases[OF assms] and s = add_spec_cases[OF add_entry_cases(2)[OF assms]]
  show "k < 0 \<Longrightarrow> less_left sy w w1" by (rule less_left_tables) (use a s(1) in simp_all)
  show "0 \<le> k \<Longrightarrow> entries (wo_reg w1) (nat k) = Some e" using s(2) by blast
  assume k: "0 \<le> k"
  note r = remove_entry_cases[OF a(1) k, of sy]
  show "less_left sy w (remove_entry sy k w1)"
    by (rule less_left_tables) (use a(3,4) r s(2) k in \<open>auto intro: map_le_trans\<close>)
qed

lemma map_le_drop: "m \<subseteq>\<^sub>m n(x := v) \<Longrightarrow> m(x := None) \<subseteq>\<^sub>m n"
  by (auto simp: map_le_def dom_def split: if_splits)

lemma less_left_closed:
  assumes "create_bound_socket env (wo_net w) path = (Some sock, net)" "length path \<le> 107" "path \<noteq> []"
    and "less_left sy (w\<lparr>wo_net := net\<rparr>) w'"
  shows "less_left sy w (close_entity_socket path w')"
proof -
  have "nt_bound net = (nt_bound (wo_net w))(path := Some sock)"
    using assms(1,2) by (auto simp: create_bound_socket_def net_unlink_def sun_path_def Let_def split: if_splits)
  then have "nt_bound (wo_net w') \<subseteq>\<^sub>m (nt_bound (wo_net w))(path := Some sock)" using assms(4) by (simp add: less_left_def)
  then have b: "(nt_bound (wo_net w'))(path := None) \<subseteq>\<^sub>m nt_bound (wo_net w)" by (rule map_le_drop)
  have c: "close_entity_socket path w' = w'\<lparr>wo_net := (wo_net w')\<lparr>nt_bound := (nt_bound (wo_net w'))(path := None)\<rparr>\<rparr>"
    using assms(3) by (simp add: close_entity_socket_def close_socket_def net_unlink_def)
  show ?thesis using assms(4) b unfolding c less_left_def by simp
qed

lemma less_left_unbound:
  assumes "create_bound_socket env (wo_net w) path = (None, net)"
  shows "less_left sy w (w\<lparr>wo_net := net\<rparr>)"
  using assms by (auto simp: less_left_def fewer_refl create_bound_socket_def net_unlink_def Let_def map_le_def split: if_splits)

lemma less_left_counters:
  "less_left sy (w\<lparr>wo_uid_ctr := a, wo_gid_ctr := b, wo_path_ctr := c\<rparr>) w' = less_left sy w w'"
  by (simp add: less_left_def)

section \<open>Clients, servers and subscriptions\<close>

lemma wf_entity_entry:
  "ty \<noteq> ENTRY_EMPTY \<Longrightarrow> ty \<noteq> ENTRY_RESERVED \<Longrightarrow> wf_entry (entity_entry sy ty node gid topic type_name path qos)"
  by (simp add: wf_entry_def entity_entry_def)

lemma create_endpoint_cases:
  assumes "wf_registry (wo_reg w)" "\<bar>sy_pid sy\<bar> \<le> 2 ^ 31" "ty \<noteq> ENTRY_EMPTY" "ty \<noteq> ENTRY_RESERVED" "length prefix \<le> 3"
    and "create_endpoint sy node prefix ty name type_name qos w = (r, w')"
  shows "r = None \<Longrightarrow> less_left sy w w'"
    "r = Some ep \<Longrightarrow> entries (wo_reg w') (nat (ep_registry_index ep)) = Some (rpc_entry sy ty node ep) \<and> ep_socket_path ep \<noteq> []"
    "r = Some ep \<Longrightarrow> less_left sy w (destroy_endpoint sy ep w')"
proof -
  let ?path = "make_socket_path (cx_domain_id (nd_context node)) prefix (sy_pid sy) (wo_path_ctr w) (se_now_us (sy_shm sy))"
  obtain gid gctr where g: "gid_generate (of_int (sy_pid sy)) (cx_context_id (nd_context node)) (wo_gid_ctr w) = (gid, gctr)" by fastforce
  obtain uid uctr where u: "next_entity_uid (wo_uid_ctr w) = (uid, uctr)" by fastforce
  let ?w1 = "w\<lparr>wo_uid_ctr := uctr, wo_gid_ctr := gctr, wo_path_ctr := wo_path_ctr w + 1\<rparr>"
  let ?ep = "new_endpoint (nd_context node) uid gid name type_name qos ?path"
  let ?e = "rpc_entry sy ty node ?ep"
  have path: "length ?path \<le> 107" "?path \<noteq> []"
    using make_socket_path_short[OF assms(2,5)] make_socket_path_nonempty by blast+
  have e: "wf_entry ?e" using assms(3,4) by (simp add: rpc_entry_def entity_entry_def wf_entry_def Let_def)
  obtain s net where b: "create_bound_socket (sy_net sy) (wo_net ?w1) ?path = (s, net)" by fastforce
  obtain k w2 where a: "add_entry sy ?e (?w1\<lparr>wo_net := net\<rparr>) = (k, w2)" by fastforce
  have wf: "wf_registry (wo_reg (?w1\<lparr>wo_net := net\<rparr>))" using assms(1) by simp
  note c = assms(6)[unfolded create_endpoint_def Let_def, simplified g u b prod.case, simplified]
  note rg = registration[OF wf e a]
  have closed: "less_left sy w (close_entity_socket ?path v)" if "s = Some sock" "less_left sy (?w1\<lparr>wo_net := net\<rparr>) v" for v sock
    using less_left_closed[OF b[unfolded that(1)] path that(2)] by (simp add: less_left_counters)
  show "less_left sy w w'" if "r = None"
  proof (cases s)
    case None
    then show ?thesis using c b that less_left_unbound[OF b[unfolded None], of sy] by (simp add: less_left_counters u)
  next
    case (Some sock)
    then show ?thesis using c a that closed[OF Some] rg(1,2) b by (auto simp: u split: if_splits)
  qed
  show "entries (wo_reg w') (nat (ep_registry_index ep)) = Some (rpc_entry sy ty node ep) \<and> ep_socket_path ep \<noteq> []" if "r = Some ep"
    using c that a b rg(3) path(2)
    by (auto simp: u rpc_entry_def entity_entry_def new_endpoint_def Let_def split: option.splits if_splits)
  show "less_left sy w (destroy_endpoint sy ep w')" if some: "r = Some ep"
  proof -
    obtain sock where "s = Some sock" "ep_registry_index ep = k" "0 \<le> k" "w' = w2" "ep_socket_path ep = ?path" "ep_shm_ring ep = new_ring_writer"
      using c some a b by (auto simp: u new_endpoint_def split: option.splits if_splits)
    then show ?thesis using closed rg(2)
      by (simp add: destroy_endpoint_def Let_def shm_writer_close_def new_ring_writer_def)
  qed
qed

lemma create_subscription_cases:
  assumes "wf_registry (wo_reg w)" "\<bar>sy_pid sy\<bar> \<le> 2 ^ 31"
    and "create_subscription sy node ts topic qos ign w = (r, w')"
  shows "r = None \<Longrightarrow> less_left sy w w'"
    "r = Some sub \<Longrightarrow> entries (wo_reg w') (nat (su_registry_index sub)) =
       Some (entity_entry sy ENTRY_SUBSCRIPTION node (su_gid sub) topic (su_type_name sub) (su_socket_path sub) (su_qos sub))"
    "r = Some sub \<Longrightarrow> less_left sy w (destroy_subscription sy sub w')"
proof -
  let ?path = "make_socket_path (cx_domain_id (nd_context node)) ''sub'' (sy_pid sy) (wo_path_ctr w) (se_now_us (sy_shm sy))"
  obtain gid gctr where g: "gid_generate (of_int (sy_pid sy)) (cx_context_id (nd_context node)) (wo_gid_ctr w) = (gid, gctr)" by fastforce
  obtain uid uctr where u: "next_entity_uid (wo_uid_ctr w) = (uid, uctr)" by fastforce
  let ?w1 = "w\<lparr>wo_uid_ctr := uctr, wo_gid_ctr := gctr, wo_path_ctr := wo_path_ctr w + 1\<rparr>"
  let ?sub = "\<lambda>cb. new_subscription (nd_context node) uid gid topic cb qos ign ?path"
  let ?e = "\<lambda>cb. entity_entry sy ENTRY_SUBSCRIPTION node gid topic (su_type_name (?sub cb)) ?path (su_qos (?sub cb))"
  have path: "length ?path \<le> 107" "?path \<noteq> []"
    using make_socket_path_short[OF assms(2), of "''sub''"] make_socket_path_nonempty by simp_all
  obtain s net where b: "create_bound_socket (sy_net sy) (wo_net ?w1) ?path = (s, net)" by fastforce
  have wf: "wf_registry (wo_reg (?w1\<lparr>wo_net := net\<rparr>))" "wf_entry (?e cb)" for cb
    using assms(1) by (simp_all add: wf_entity_entry uds_defs)
  have rs: "(rr = None \<longrightarrow> less_left sy w v) \<and> (\<forall>x. rr = Some x \<longrightarrow>
      entries (wo_reg v) (nat (su_registry_index x)) = Some (?e cb) \<and> x = (?sub cb)\<lparr>su_socket := su_socket x, su_registry_index := su_registry_index x\<rparr> \<and>
      less_left sy w (destroy_subscription sy x v))"
    if rg: "register_subscription sy node cb topic qos ign w = (rr, v)" for cb rr v
  proof -
    obtain k w2 where a: "add_entry sy (?e cb) (?w1\<lparr>wo_net := net\<rparr>) = (k, w2)" by fastforce
    note c = rg[unfolded register_subscription_def Let_def, simplified g u b prod.case, simplified]
    note rg = registration[OF wf a]
    have closed: "less_left sy w (close_entity_socket ?path v)" if "s = Some sock" "less_left sy (?w1\<lparr>wo_net := net\<rparr>) v" for v sock
      using less_left_closed[OF b[unfolded that(1)] path that(2)] by (simp add: less_left_counters)
    show ?thesis
    proof (cases s)
      case None
      then show ?thesis using c b less_left_unbound[OF b[unfolded None], of sy] by (auto simp: less_left_counters u)
    next
      case (Some sock)
      have "rr = None \<and> k < 0 \<and> v = close_entity_socket ?path w2 \<or>
          rr = None \<and> 0 \<le> k \<and> v = close_entity_socket ?path (remove_entry sy k w2) \<or>
          0 \<le> k \<and> rr = Some ((?sub cb)\<lparr>su_socket := sock, su_registry_index := k\<rparr>) \<and> v = w2"
        using c a b Some by (auto simp: u split: if_splits)
      moreover have "su_socket_path (?sub cb) = ?path" by (simp add: new_subscription_def Let_def)
      ultimately show ?thesis
        using closed[OF Some] rg by (elim disjE conjE) (simp_all add: destroy_subscription_def)
    qed
  qed
  have rp: "su_registry_index (replay sy v x) = su_registry_index x \<and> su_gid (replay sy v x) = su_gid x \<and>
      su_type_name (replay sy v x) = su_type_name x \<and> su_socket_path (replay sy v x) = su_socket_path x \<and> su_qos (replay sy v x) = su_qos x" for v x
    by (simp add: replay_def Let_def)
  have ns: "su_gid (?sub cb) = gid" "su_socket_path (?sub cb) = ?path" for cb
    by (simp_all add: new_subscription_def Let_def)
  show "less_left sy w w'" if "r = None"
    using assms(3) that rs less_left_refl by (auto simp: create_subscription_def split: option.splits if_splits prod.splits)
  show "entries (wo_reg w') (nat (su_registry_index sub)) =
       Some (entity_entry sy ENTRY_SUBSCRIPTION node (su_gid sub) topic (su_type_name sub) (su_socket_path sub) (su_qos sub))" if some: "r = Some sub"
  proof -
    obtain cb x where x: "register_subscription sy node cb topic qos ign w = (Some x, w')" "sub = replay sy w' x"
      using assms(3) some by (auto simp: create_subscription_def split: option.splits if_splits prod.splits)
    obtain sk ix where xx: "x = (?sub cb)\<lparr>su_socket := sk, su_registry_index := ix\<rparr>" "entries (wo_reg w') (nat ix) = Some (?e cb)"
      using rs[OF x(1)] by metis
    show ?thesis unfolding x(2) using rp[of w' x] xx by (simp add: ns)
  qed
  show "less_left sy w (destroy_subscription sy sub w')" if some: "r = Some sub"
  proof -
    obtain cb x where x: "register_subscription sy node cb topic qos ign w = (Some x, w')" "sub = replay sy w' x"
      using assms(3) some by (auto simp: create_subscription_def split: option.splits if_splits prod.splits)
    have "destroy_subscription sy sub w' = destroy_subscription sy x w'"
      using rp[of w' x] by (simp add: destroy_subscription_def x(2))
    then show ?thesis using rs[OF x(1)] by simp
  qed
qed

section \<open>Publishers\<close>

lemma open_fresh_None: "open_fresh env fs name = (None, fs') \<Longrightarrow> fs_names fs' \<subseteq>\<^sub>m fs_names fs"
  by (auto simp: open_fresh_def shm_unlink_def map_le_def Let_def split: if_splits option.splits)

lemma tl_create_undone:
  assumes "tl_ring_create env d gid depth fs ctr new_tl_writer = (ok, fs1, ctr', ring)" "fs_names fs2 \<subseteq>\<^sub>m fs_names fs1"
  shows "fs_names (fst (tl_ring_close fs2 ring)) \<subseteq>\<^sub>m fs_names fs"
proof -
  let ?name = "tl_segment_name d (se_pid env) ctr (time_component (se_now_us env))"
  obtain ob fs' where o: "open_fresh env fs ?name = (ob, fs')" by fastforce
  have n: "?name \<noteq> []" by (simp add: tl_segment_name_def snprintf_def)
  have same: "x \<noteq> ?name \<Longrightarrow> fs_names fs' x = fs_names fs x" for x using open_fresh_names[OF o] by blast
  have nop: "fold (\<lambda>seg f. durable_close f seg) (replicate n None) f = f" for n f
    by (induction n arbitrary: f) (simp_all add: durable_close_def)
  show ?thesis
  proof (cases ob)
    case None
    then have "fs1 = fs'" "ring = new_tl_writer" using assms(1) o by (simp_all add: tl_ring_create_def Let_def)
    then show ?thesis
      using assms(2) open_fresh_None[OF o[unfolded None]] by (auto simp: tl_ring_close_def new_tl_writer_def Let_def intro: map_le_trans)
  next
    case (Some b)
    consider "fs_names fs1 = (fs_names fs')(?name := None)" "ring = new_tl_writer"
      | "fs_names fs1 = fs_names fs'" "tw_shm_name ring = ?name" "\<exists>k. tw_durable_segs ring = replicate k None"
      using assms(1) o Some
      by (auto simp: tl_ring_create_def Let_def shm_unlink_def obj_grow_def obj_map_mem_def split: if_splits)
    then show ?thesis
    proof cases
      case 1
      then have "fs_names fs1 \<subseteq>\<^sub>m fs_names fs" using same by (auto simp: map_le_def)
      then show ?thesis using assms(2) 1(2) by (auto simp: tl_ring_close_def new_tl_writer_def Let_def intro: map_le_trans)
    next
      case 2
      then have "fs_names (fst (tl_ring_close fs2 ring)) = (fs_names fs2)(?name := None)"
        using n nop by (auto simp: tl_ring_close_def Let_def shm_unlink_def)
      moreover have "fs_names fs2 \<subseteq>\<^sub>m (fs_names fs)(?name := fs_names fs' ?name)"
        using assms(2) same 2(1) by (auto simp: map_le_def dom_def)
      ultimately show ?thesis using map_le_drop by metis
    qed
  qed
qed

lemma create_publisher_cases:
  assumes "wf_registry (wo_reg w)" "create_publisher sy node ts topic qos w = (r, w')"
  shows "r = None \<Longrightarrow> less_left sy w w'"
    "r = Some pub \<Longrightarrow> entries (wo_reg w') (nat (pb_registry_index pub)) =
       Some (entity_entry sy ENTRY_PUBLISHER node (pb_gid pub) topic (pb_type_name pub) (tw_shm_name (pb_tl_ring pub)) (pb_qos pub))"
    "r = Some pub \<Longrightarrow> less_left sy w (destroy_publisher sy pub w')"
proof -
  obtain gid ctr where g: "gid_generate (of_int (sy_pid sy)) (cx_context_id (nd_context node)) (wo_gid_ctr w) = (gid, ctr)" by fastforce
  have made: "less_left sy w1 v \<longrightarrow> less_left sy w (drop_latch p0 v)" "wo_reg w1 = wo_reg w" "pb_gid p0 = gid" "pb_shm_ring p0 = new_ring_writer"
    if l: "with_latch sy (new_publisher (nd_context node) gid topic cb qos) (w\<lparr>wo_gid_ctr := ctr\<rparr>) = (p0, w1)" for cb p0 w1 v
  proof -
    have lr: "wo_reg w1 = wo_reg w \<and> wo_net w1 = wo_net w \<and>
        (\<forall>fs2. fs_names fs2 \<subseteq>\<^sub>m fs_names (wo_fs w1) \<longrightarrow> fs_names (fst (tl_ring_close fs2 (pb_tl_ring p0))) \<subseteq>\<^sub>m fs_names (wo_fs w))"
    proof (cases "q_durability (pb_qos (new_publisher (nd_context node) gid topic cb qos)) = DURABILITY_TRANSIENT_LOCAL")
      case True
      then show ?thesis
        using l tl_create_undone by (auto simp: with_latch_def new_publisher_def split: prod.splits)
    next
      case False
      then have "p0 = new_publisher (nd_context node) gid topic cb qos" "w1 = w\<lparr>wo_gid_ctr := ctr\<rparr>" using l by (simp_all add: with_latch_def)
      then show ?thesis by (simp add: new_publisher_def tl_ring_close_def new_tl_writer_def Let_def)
    qed
    then show "less_left sy w1 v \<longrightarrow> less_left sy w (drop_latch p0 v)" "wo_reg w1 = wo_reg w"
      by (simp_all add: less_left_def drop_latch_def)
    show "pb_gid p0 = gid" "pb_shm_ring p0 = new_ring_writer"
      using l by (auto simp: with_latch_def new_publisher_def split: prod.splits if_splits)
  qed
  have all: "(r = None \<longrightarrow> less_left sy w w') \<and> (\<forall>pub. r = Some pub \<longrightarrow>
      entries (wo_reg w') (nat (pb_registry_index pub)) =
        Some (entity_entry sy ENTRY_PUBLISHER node (pb_gid pub) topic (pb_type_name pub) (tw_shm_name (pb_tl_ring pub)) (pb_qos pub)) \<and>
      less_left sy w (destroy_publisher sy pub w'))"
  proof (cases "get_callbacks ts = None \<or> \<not> sy_new_ok sy")
    case True
    then have "w' = w" "r = None" using assms(2) by (auto simp: create_publisher_def split: option.splits)
    then show ?thesis using less_left_refl by simp
  next
    case False
    then obtain cb where cb: "get_callbacks ts = Some cb" "sy_new_ok sy" by auto
    obtain p0 w1 where l: "with_latch sy (new_publisher (nd_context node) gid topic cb qos) (w\<lparr>wo_gid_ctr := ctr\<rparr>) = (p0, w1)" by fastforce
    let ?e = "entity_entry sy ENTRY_PUBLISHER node gid topic (pb_type_name p0) (tw_shm_name (pb_tl_ring p0)) (pb_qos p0)"
    obtain k w2 where a: "add_entry sy ?e w1 = (k, w2)" by fastforce
    note m = made[OF l]
    have wf: "wf_registry (wo_reg w1)" "wf_entry ?e" using m(2) assms(1) by (simp_all add: wf_entity_entry uds_defs)
    note rg = registration[OF wf a]
    have gone: "destroy_publisher sy (p0\<lparr>pb_registry_index := k\<rparr>) w2 = drop_latch p0 (remove_entry sy k w2)" if "0 \<le> k"
      using that m(4) by (simp add: destroy_publisher_def drop_latch_def Let_def shm_writer_close_def new_ring_writer_def)
    have "r = None \<and> k < 0 \<and> w' = drop_latch p0 w2 \<or> r = None \<and> 0 \<le> k \<and> w' = drop_latch p0 (remove_entry sy k w2) \<or>
        0 \<le> k \<and> r = Some (p0\<lparr>pb_registry_index := k\<rparr>) \<and> w' = w2"
      using assms(2) cb l a g by (auto simp: create_publisher_def Let_def split: if_splits)
    then show ?thesis using m(1,3) rg gone by (elim disjE conjE) simp_all
  qed
  show "less_left sy w w'" if "r = None" using all that by simp
  show "entries (wo_reg w') (nat (pb_registry_index pub)) =
       Some (entity_entry sy ENTRY_PUBLISHER node (pb_gid pub) topic (pb_type_name pub) (tw_shm_name (pb_tl_ring pub)) (pb_qos pub))"
    "less_left sy w (destroy_publisher sy pub w')" if "r = Some pub" using all that by simp_all
qed

section \<open>All or nothing\<close>

text \<open>
  C9: creating an entity is all or nothing, and destroying it gives everything back. For a
  publisher, a subscription and the endpoint of a client or server alike: if the creation
  returns null, whatever failed, no entry, no bound socket and no shared object is left that
  was not there before, and no living owner's entry has gone; if it returns the entity, its
  entry stands at its index, and destroying it at once leaves the world in that same sense.
\<close>

theorem creation_all_or_nothing:
  assumes "wf_registry (wo_reg w)" "\<bar>sy_pid sy\<bar> \<le> 2 ^ 31"
  shows "(case create_publisher sy node ts topic qos w of
       (None, w') \<Rightarrow> less_left sy w w'
     | (Some pub, w') \<Rightarrow>
         entries (wo_reg w') (nat (pb_registry_index pub)) = Some (entity_entry sy ENTRY_PUBLISHER node (pb_gid pub) topic
           (pb_type_name pub) (tw_shm_name (pb_tl_ring pub)) (pb_qos pub)) \<and>
         less_left sy w (destroy_publisher sy pub w')) \<and>
    (case create_subscription sy node ts topic qos ign w of
       (None, w') \<Rightarrow> less_left sy w w'
     | (Some sub, w') \<Rightarrow>
         entries (wo_reg w') (nat (su_registry_index sub)) = Some (entity_entry sy ENTRY_SUBSCRIPTION node (su_gid sub) topic
           (su_type_name sub) (su_socket_path sub) (su_qos sub)) \<and>
         less_left sy w (destroy_subscription sy sub w')) \<and>
    (\<forall>(prefix, ty) \<in> {(''cli'', ENTRY_CLIENT), (''srv'', ENTRY_SERVICE)}.
       case create_endpoint sy node prefix ty name type_name qos w of
         (None, w') \<Rightarrow> less_left sy w w'
       | (Some ep, w') \<Rightarrow>
           entries (wo_reg w') (nat (ep_registry_index ep)) = Some (rpc_entry sy ty node ep) \<and>
           less_left sy w (destroy_endpoint sy ep w'))"
proof -
  obtain rp wp where p: "create_publisher sy node ts topic qos w = (rp, wp)" by fastforce
  obtain rs ws where s: "create_subscription sy node ts topic qos ign w = (rs, ws)" by fastforce
  have e: "case create_endpoint sy node prefix ty name type_name qos w of
         (None, w') \<Rightarrow> less_left sy w w'
       | (Some ep, w') \<Rightarrow>
           entries (wo_reg w') (nat (ep_registry_index ep)) = Some (rpc_entry sy ty node ep) \<and>
           less_left sy w (destroy_endpoint sy ep w')"
    if "ty \<noteq> ENTRY_EMPTY" "ty \<noteq> ENTRY_RESERVED" "length prefix \<le> 3" for prefix ty
  proof -
    obtain re we where c: "create_endpoint sy node prefix ty name type_name qos w = (re, we)" by fastforce
    show ?thesis using create_endpoint_cases[OF assms that c] by (cases re) (simp_all add: c)
  qed
  have k: "ENTRY_CLIENT \<noteq> ENTRY_EMPTY" "ENTRY_CLIENT \<noteq> ENTRY_RESERVED" "ENTRY_SERVICE \<noteq> ENTRY_EMPTY" "ENTRY_SERVICE \<noteq> ENTRY_RESERVED"
    by (simp_all add: uds_defs)
  have "case (rp, wp) of (None, w') \<Rightarrow> less_left sy w w'
     | (Some pub, w') \<Rightarrow>
         entries (wo_reg w') (nat (pb_registry_index pub)) = Some (entity_entry sy ENTRY_PUBLISHER node (pb_gid pub) topic
           (pb_type_name pub) (tw_shm_name (pb_tl_ring pub)) (pb_qos pub)) \<and>
         less_left sy w (destroy_publisher sy pub w')"
    using create_publisher_cases[OF assms(1) p] by (cases rp) simp_all
  moreover have "case (rs, ws) of (None, w') \<Rightarrow> less_left sy w w'
     | (Some sub, w') \<Rightarrow>
         entries (wo_reg w') (nat (su_registry_index sub)) = Some (entity_entry sy ENTRY_SUBSCRIPTION node (su_gid sub) topic
           (su_type_name sub) (su_socket_path sub) (su_qos sub)) \<and>
         less_left sy w (destroy_subscription sy sub w')"
    using create_subscription_cases[OF assms s] by (cases rs) simp_all
  moreover have "\<forall>(prefix, ty) \<in> {(''cli'', ENTRY_CLIENT), (''srv'', ENTRY_SERVICE)}.
       case create_endpoint sy node prefix ty name type_name qos w of
         (None, w') \<Rightarrow> less_left sy w w'
       | (Some ep, w') \<Rightarrow>
           entries (wo_reg w') (nat (ep_registry_index ep)) = Some (rpc_entry sy ty node ep) \<and>
           less_left sy w (destroy_endpoint sy ep w')"
  proof -
    have l: "length ''cli'' \<le> 3" "length ''srv'' \<le> 3" by simp_all
    show ?thesis using e[OF k(1,2) l(1)] e[OF k(3,4) l(2)] by (simp only: ball_simps prod.case simp_thms)
  qed
  ultimately show ?thesis unfolding p s by (intro conjI)
qed

text \<open>A registry full of living owners: the creation fails and leaves nothing.\<close>

definition node0 :: uds_node where
  "node0 = \<lparr>nd_name = ''n'', nd_ns = ''/'', nd_context = ctx0, nd_graph_guard_condition = None, nd_registry_index = 0\<rparr>"

lemma full_world: "fst (create_publisher sys0 node0 \<lparr>ts_cpp = Some bytes_callbacks, ts_c = None\<rparr> ''/t'' zero_qos world0) = None"
proof -
  have "k < 0" if a: "add_entry sys0 e w = (k, w')" and "wf_entry e" "wo_reg w = reg0" for e w k w'
  proof -
    have "wf_registry (wo_reg w)" using wf_reg0 that(3) by simp
    note c = add_entry_cases(2)[OF this that(2) a, unfolded that(3)]
    have "first_free (max_entries reg0) (entries reg0) = None" "sweep_map (sy_proc sys0) (entries reg0) = entries reg0"
    proof -
      have "max_entries reg0 = 1" by (simp add: max_entries_def reg0_def)
      then show "first_free (max_entries reg0) (entries reg0) = None" by (simp add: first_free_None entries_reg0)
      show "sweep_map (sy_proc sys0) (entries reg0) = entries reg0"
        by (auto simp: sweep_map_def fun_eq_iff sys0_def dead_entry_def pid_is_alive_or_unreachable_def entries_reg0
            slot0_def zero_payload_def split: option.splits)
    qed
    then show ?thesis using c by (simp add: add_spec_def)
  qed
  moreover have "wf_entry (entity_entry sys0 ENTRY_PUBLISHER node0 g tp ty path q)" for g tp ty path q
    by (simp add: wf_entity_entry uds_defs)
  ultimately show ?thesis
    by (auto simp: create_publisher_def with_latch_def new_publisher_def resolve_qos_def zero_qos_def policy_defs world0_def
        get_callbacks_def Let_def split: prod.splits)
qed

theorem creation_all_or_nothing_witness:
  "less_left sys0 world0 (snd (create_publisher sys0 node0 \<lparr>ts_cpp = Some bytes_callbacks, ts_c = None\<rparr> ''/t'' zero_qos world0))"
proof -
  have "wf_registry (wo_reg world0)" using wf_reg0 by (simp add: world0_def)
  moreover have "\<bar>sy_pid sys0\<bar> \<le> 2 ^ 31" using env0_ok(3) by (simp add: sys0_def pid_ok_def)
  moreover obtain w' where "create_publisher sys0 node0 \<lparr>ts_cpp = Some bytes_callbacks, ts_c = None\<rparr> ''/t'' zero_qos world0 = (None, w')"
    using full_world by (metis prod.collapse)
  ultimately show ?thesis
    using creation_all_or_nothing[where w = world0 and sy = sys0 and node = node0 and topic = "''/t''" and qos = zero_qos
        and ts = "\<lparr>ts_cpp = Some bytes_callbacks, ts_c = None\<rparr>"] by simp
qed

end
