(* ===== verification/Uds_Node_Life.thy ===== *)
theory Uds_Node_Life
  imports Uds_Lifecycle
begin

text \<open>
  The life of nodes and guard conditions in one context: creation is all or nothing, and the
  list \<^verbatim>\<open>rmw_wait\<close> triggers from never holds a destroyed guard condition.
\<close>

section \<open>Creation\<close>

text \<open>The table of guard conditions never holds a pointer that has not been handed out.\<close>

definition gcs_ok :: "process \<Rightarrow> bool" where
  "gcs_ok p \<longleftrightarrow> (\<forall>g. pc_gcs p g \<noteq> None \<longrightarrow> g < pc_next_gc p)"

lemma create_gc_cases:
  assumes "create_guard_condition nv p = (r, p1)" "gcs_ok p"
  shows "r = None \<Longrightarrow> pc_gcs p1 = pc_gcs p"
    "r = Some g \<Longrightarrow> pc_gcs p g = None \<and> g = pc_next_gc p \<and> (\<exists>gd. pc_gcs p1 = (pc_gcs p)(g \<mapsto> gd) \<and> gd_count gd = 0)"
    "less_left sy (pc_world p) v \<longleftrightarrow> less_left sy (pc_world p1) v" "wo_reg (pc_world p1) = wo_reg (pc_world p)" "gcs_ok p1"
  using assms
  by (auto simp: create_guard_condition_def gcs_ok_def less_left_def Let_def less_Suc_eq split: if_splits option.splits prod.splits)

lemma create_node_gcs:
  assumes "gcs_ok p" "create_node sy nv ctx name ns p = (r, ctx', p')"
  shows "r = None \<Longrightarrow> ctx' = ctx \<and> pc_gcs p' = pc_gcs p"
    "r = Some node \<Longrightarrow> \<exists>g gd. nd_graph_guard_condition node = Some g \<and> pc_gcs p g = None \<and>
       pc_gcs p' = (pc_gcs p)(g \<mapsto> gd) \<and> cs_graph_gcs ctx' = cs_graph_gcs ctx @ [g]"
    "gcs_ok p'"
proof -
  obtain gr p1 where g: "create_guard_condition nv p = (gr, p1)" by fastforce
  obtain k w where a: "add_entry sy (node_entry sy name ns) (pc_world p1) = (k, w)" by fastforce
  note c = create_gc_cases[OF g assms(1)]
  show "ctx' = ctx \<and> pc_gcs p' = pc_gcs p" if none: "r = None"
  proof (cases gr)
    case None
    then show ?thesis using assms(2) g c(1) none by (simp add: create_node_def)
  next
    case (Some gp)
    have undone: "(pc_gcs p1)(gp := None) = pc_gcs p" using c(2)[OF Some] by auto
    have "ctx' = ctx" "pc_gcs p' = (pc_gcs p1)(gp := None)"
      using assms(2)[unfolded create_node_def g Some prod.case option.case Let_def a] none
      by (auto simp: destroy_guard_condition_def split: if_splits)
    then show ?thesis using undone by simp
  qed
  show "\<exists>g gd. nd_graph_guard_condition node = Some g \<and> pc_gcs p g = None \<and>
       pc_gcs p' = (pc_gcs p)(g \<mapsto> gd) \<and> cs_graph_gcs ctx' = cs_graph_gcs ctx @ [g]" if some: "r = Some node"
  proof -
    obtain gp where Some: "gr = Some gp" using assms(2) some g by (cases gr) (auto simp: create_node_def)
    have "nd_graph_guard_condition node = Some gp" "pc_gcs p' = pc_gcs p1" "cs_graph_gcs ctx' = cs_graph_gcs ctx @ [gp]"
      using assms(2) some g a by (auto simp: create_node_def Some Let_def split: if_splits)
    then show ?thesis using c(2)[OF Some] by auto
  qed
  show "gcs_ok p'"
    using assms(2) g a c(5)
    by (cases gr) (auto simp: create_node_def Let_def destroy_guard_condition_def gcs_ok_def split: if_splits)
qed

lemma create_node_world:
  assumes "wf_registry (wo_reg (pc_world p))" "gcs_ok p" "create_node sy nv ctx name ns p = (r, ctx', p')"
  shows "r = None \<Longrightarrow> less_left sy (pc_world p) (pc_world p')"
    "r = Some node \<Longrightarrow> entries (wo_reg (pc_world p')) (nat (nd_registry_index node)) = Some (node_entry sy name ns)"
    "r = Some node \<Longrightarrow> less_left sy (pc_world p) (pc_world (snd (destroy_node sy node ctx' p')))"
proof -
  obtain gr p1 where g: "create_guard_condition nv p = (gr, p1)" by fastforce
  obtain k w where a: "add_entry sy (node_entry sy name ns) (pc_world p1) = (k, w)" by fastforce
  note c = create_gc_cases[OF g assms(2)]
  have wf: "wf_registry (wo_reg (pc_world p1))" "wf_entry (node_entry sy name ns)"
    using c(4) assms(1) by (simp_all add: node_entry_def wf_entry_def uds_defs)
  note rg = registration[OF wf a]
  have l1: "less_left sy (pc_world p) (pc_world p1)" using c(3) less_left_refl by blast
  note lr = c(3)[of sy]
  show "less_left sy (pc_world p) (pc_world p')" if none: "r = None"
  proof (cases gr)
    case None
    then show ?thesis using assms(3) g l1 by (simp add: create_node_def)
  next
    case (Some gp)
    have "pc_world p' = pc_world p1 \<or> pc_world p' = w \<and> k < 0 \<or> pc_world p' = remove_entry sy k w \<and> 0 \<le> k"
      using assms(3)[unfolded create_node_def g Some prod.case option.case Let_def a] none
      by (auto simp: destroy_guard_condition_def split: if_splits)
    then show ?thesis using l1 rg(1,2) unfolding lr by (elim disjE conjE) (simp_all add: less_left_refl)
  qed
  have ok: "0 \<le> k" "pc_world p' = w" "nd_registry_index node = k" if some: "r = Some node"
  proof -
    obtain gp where Some: "gr = Some gp" using assms(3) some g by (cases gr) (auto simp: create_node_def)
    show "0 \<le> k" "pc_world p' = w" "nd_registry_index node = k"
      using assms(3) some g a by (auto simp: create_node_def Some Let_def split: if_splits)
  qed
  show "entries (wo_reg (pc_world p')) (nat (nd_registry_index node)) = Some (node_entry sy name ns)" if "r = Some node"
    using ok[OF that] rg(3) by simp
  show "less_left sy (pc_world p) (pc_world (snd (destroy_node sy node ctx' p')))" if "r = Some node"
    using ok[OF that] rg(2) unfolding lr
    by (auto simp: destroy_node_def Let_def destroy_guard_condition_def split: option.splits)
qed

text \<open>
  Creating a node is all or nothing. If any step fails, the guard condition, the
  registration and the place on the context's list are all as before; otherwise the node's
  entry stands at its index, its guard condition is fresh and on the context's list, and
  destroying the node gives back the entry, the guard condition and the place on the list.
\<close>

theorem node_creation_all_or_nothing:
  assumes "wf_registry (wo_reg (pc_world p))" "gcs_ok p" "set (cs_graph_gcs ctx) \<subseteq> dom (pc_gcs p)"
  shows "case create_node sy nv ctx name ns p of
       (None, ctx', p') \<Rightarrow> ctx' = ctx \<and> pc_gcs p' = pc_gcs p \<and> less_left sy (pc_world p) (pc_world p')
     | (Some node, ctx', p') \<Rightarrow>
         entries (wo_reg (pc_world p')) (nat (nd_registry_index node)) = Some (node_entry sy name ns) \<and>
         (\<exists>g. nd_graph_guard_condition node = Some g \<and> pc_gcs p g = None \<and> pc_gcs p' g \<noteq> None \<and>
            cs_graph_gcs ctx' = cs_graph_gcs ctx @ [g]) \<and>
         (case destroy_node sy node ctx' p' of
            (ctx2, p2) \<Rightarrow> cs_graph_gcs ctx2 = cs_graph_gcs ctx \<and> pc_gcs p2 = pc_gcs p \<and> less_left sy (pc_world p) (pc_world p2))"
proof -
  obtain r ctx' p' where c: "create_node sy nv ctx name ns p = (r, ctx', p')" by (metis prod.exhaust)
  note gcs = create_node_gcs[OF assms(2) c] and wd = create_node_world[OF assms(1,2) c]
  show ?thesis
  proof (cases r)
    case None
    then show ?thesis using gcs(1) wd(1) by (simp add: c)
  next
    case (Some node)
    obtain g gd where g: "nd_graph_guard_condition node = Some g" "pc_gcs p g = None"
       "pc_gcs p' = (pc_gcs p)(g \<mapsto> gd)" "cs_graph_gcs ctx' = cs_graph_gcs ctx @ [g]" using gcs(2)[OF Some] by blast
    have "g \<notin> set (cs_graph_gcs ctx)" using assms(3) g(2) by blast
    then have "filter (\<lambda>h. h \<noteq> g) (cs_graph_gcs ctx) = cs_graph_gcs ctx" by (simp add: filter_id_conv) blast
    moreover obtain ctx2 p2 where d: "destroy_node sy node ctx' p' = (ctx2, p2)" by fastforce
    moreover have "(pc_gcs p)(g := None) = pc_gcs p" using g(2) by auto
    ultimately have "cs_graph_gcs ctx2 = cs_graph_gcs ctx" "pc_gcs p2 = pc_gcs p"
      using g by (auto simp: destroy_node_def destroy_guard_condition_def Let_def split: if_splits)
    then show ?thesis using wd(2,3)[OF Some] g by (simp add: c Some d)
  qed
qed

section \<open>Every history of one context\<close>

record context_life =
  li_ctx :: context_state
  li_process :: process
  li_nodes :: "uds_node list"

text \<open>
  Nodes are created and destroyed in any order, the application has guard conditions of its
  own, anything may be triggered and read, and the rest of the system changes the world.
\<close>

inductive life_step :: "context_life \<Rightarrow> context_life \<Rightarrow> bool" where
  node_created: "create_node sy nv (li_ctx s) name ns (li_process s) = (Some node, ctx', p') \<Longrightarrow>
    life_step s \<lparr>li_ctx = ctx', li_process = p', li_nodes = node # li_nodes s\<rparr>"
| node_failed: "create_node sy nv (li_ctx s) name ns (li_process s) = (None, ctx', p') \<Longrightarrow>
    life_step s (s\<lparr>li_ctx := ctx', li_process := p'\<rparr>)"
| node_destroyed: "node \<in> set (li_nodes s) \<Longrightarrow> destroy_node sy node (li_ctx s) (li_process s) = (ctx', p') \<Longrightarrow>
    life_step s \<lparr>li_ctx = ctx', li_process = p', li_nodes = filter (\<lambda>n. n \<noteq> node) (li_nodes s)\<rparr>"
| gc_created: "create_guard_condition nv (li_process s) = (r, p') \<Longrightarrow> life_step s (s\<lparr>li_process := p'\<rparr>)"
| gc_destroyed: "\<forall>n\<in>set (li_nodes s). nd_graph_guard_condition n \<noteq> Some g \<Longrightarrow>
    life_step s (s\<lparr>li_process := destroy_guard_condition g (li_process s)\<rparr>)"
| triggered: "trigger_guard_condition g (li_process s) = Some p' \<Longrightarrow> life_step s (s\<lparr>li_process := p'\<rparr>)"
| read: "eventfd_read g (li_process s) = (got, p') \<Longrightarrow> life_step s (s\<lparr>li_process := p'\<rparr>)"
| world: "life_step s (s\<lparr>li_process := (li_process s)\<lparr>pc_world := w\<rparr>\<rparr>)"

inductive_cases life_stepE: "life_step s s'"

text \<open>The list is exactly the live nodes' guard conditions, each once, and all are live.\<close>

definition node_gcs :: "context_life \<Rightarrow> nat option set" where
  "node_gcs s = nd_graph_guard_condition ` set (li_nodes s)"

definition life_inv :: "context_life \<Rightarrow> bool" where
  "life_inv s \<longleftrightarrow> gcs_ok (li_process s) \<and> node_gcs s = Some ` set (cs_graph_gcs (li_ctx s)) \<and>
     distinct (cs_graph_gcs (li_ctx s)) \<and> inj_on nd_graph_guard_condition (set (li_nodes s)) \<and>
     set (cs_graph_gcs (li_ctx s)) \<subseteq> dom (pc_gcs (li_process s))"

lemma life_invI_same:
  assumes "life_inv s" "li_nodes s' = li_nodes s" "cs_graph_gcs (li_ctx s') = cs_graph_gcs (li_ctx s)"
    "gcs_ok (li_process s')" "set (cs_graph_gcs (li_ctx s)) \<subseteq> dom (pc_gcs (li_process s'))"
  shows "life_inv s'"
  using assms by (simp add: life_inv_def node_gcs_def)

lemma life_inv_same_dom:
  assumes "life_inv s" "dom (pc_gcs p') = dom (pc_gcs (li_process s))" "pc_next_gc p' = pc_next_gc (li_process s)"
  shows "life_inv (s\<lparr>li_process := p'\<rparr>)"
proof -
  have "gcs_ok p \<longleftrightarrow> (\<forall>g\<in>dom (pc_gcs p). g < pc_next_gc p)" for p by (auto simp: gcs_ok_def)
  then show ?thesis using assms by (simp add: life_inv_def node_gcs_def)
qed

lemma life_inv_created:
  assumes "create_node sy nv (li_ctx s) name ns (li_process s) = (Some node, ctx', p')" "life_inv s"
  shows "life_inv \<lparr>li_ctx = ctx', li_process = p', li_nodes = node # li_nodes s\<rparr>"
proof -
  have ok: "gcs_ok (li_process s)" using assms(2) by (simp add: life_inv_def)
  obtain g gd where g: "nd_graph_guard_condition node = Some g" "pc_gcs (li_process s) g = None"
       "pc_gcs p' = (pc_gcs (li_process s))(g \<mapsto> gd)" "cs_graph_gcs ctx' = cs_graph_gcs (li_ctx s) @ [g]"
    using create_node_gcs(2)[OF ok assms(1)] by blast
  have new: "g \<notin> set (cs_graph_gcs (li_ctx s))" using assms(2) g(2) by (auto simp: life_inv_def)
  then have "Some g \<notin> nd_graph_guard_condition ` set (li_nodes s)" using assms(2) by (auto simp: life_inv_def node_gcs_def)
  then have "inj_on nd_graph_guard_condition (insert node (set (li_nodes s)))"
    using assms(2) g(1) by (auto simp: life_inv_def)
  moreover have "nd_graph_guard_condition ` set (node # li_nodes s) = Some ` set (cs_graph_gcs ctx')"
    using assms(2) g(1,4) by (simp add: life_inv_def node_gcs_def)
  moreover have "set (cs_graph_gcs ctx') \<subseteq> dom (pc_gcs p')" using assms(2) g(3,4) by (auto simp: life_inv_def)
  moreover have "distinct (cs_graph_gcs ctx')" using assms(2) g(4) new by (simp add: life_inv_def)
  ultimately show ?thesis using create_node_gcs(3)[OF ok assms(1)] by (simp add: life_inv_def node_gcs_def)
qed

lemma life_inv_destroyed:
  assumes "node \<in> set (li_nodes s)" "destroy_node sy node (li_ctx s) (li_process s) = (ctx', p')" "life_inv s"
  shows "life_inv \<lparr>li_ctx = ctx', li_process = p', li_nodes = filter (\<lambda>n. n \<noteq> node) (li_nodes s)\<rparr>"
proof -
  have "nd_graph_guard_condition node \<in> node_gcs s" using assms(1) by (simp add: node_gcs_def)
  then obtain g where g: "nd_graph_guard_condition node = Some g" using assms(3) by (auto simp: life_inv_def)
  have d: "cs_graph_gcs ctx' = filter (\<lambda>h. h \<noteq> g) (cs_graph_gcs (li_ctx s))" "pc_gcs p' = (pc_gcs (li_process s))(g := None)"
    "pc_next_gc p' = pc_next_gc (li_process s)"
    using assms(2) g by (auto simp: destroy_node_def destroy_guard_condition_def Let_def split: if_splits)
  have inj: "inj_on nd_graph_guard_condition (set (li_nodes s))" using assms(3) by (simp add: life_inv_def)
  have "nd_graph_guard_condition ` {n \<in> set (li_nodes s). n \<noteq> node} = nd_graph_guard_condition ` set (li_nodes s) - {Some g}"
    using inj assms(1) g by (auto simp: inj_on_def)
  then show ?thesis
    using assms(3) inj d by (auto simp: life_inv_def node_gcs_def gcs_ok_def intro: inj_on_subset)
qed

lemma life_inv_step:
  assumes "life_step s s'" "life_inv s"
  shows "life_inv s'"
  using assms(1)
proof (cases rule: life_step.cases)
  case (node_created sy nv name ns node ctx' p')
  then show ?thesis using life_inv_created assms(2) by blast
next
  case (node_failed sy nv name ns ctx' p')
  then show ?thesis
    using create_node_gcs[OF _ node_failed(2)] assms(2) by (intro life_invI_same[OF assms(2)]) (auto simp: life_inv_def)
next
  case (node_destroyed node sy ctx' p')
  then show ?thesis using life_inv_destroyed assms(2) by blast
next
  case (gc_created nv r p')
  have ok: "gcs_ok (li_process s)" using assms(2) by (simp add: life_inv_def)
  note c = create_gc_cases[OF gc_created(2) ok]
  have "dom (pc_gcs (li_process s)) \<subseteq> dom (pc_gcs p')" using c(1,2) by (cases r) auto
  moreover have "set (cs_graph_gcs (li_ctx s)) \<subseteq> dom (pc_gcs (li_process s))" using assms(2) unfolding life_inv_def by blast
  ultimately have "set (cs_graph_gcs (li_ctx s)) \<subseteq> dom (pc_gcs p')" by (rule subset_trans[rotated])
  then show ?thesis using gc_created(1) c(5) by (intro life_invI_same[OF assms(2)]) simp_all
next
  case (gc_destroyed g)
  have "Some g \<notin> node_gcs s" using gc_destroyed(2) by (auto simp: node_gcs_def)
  then have "g \<notin> set (cs_graph_gcs (li_ctx s))" using assms(2) by (auto simp: life_inv_def)
  then show ?thesis
    using gc_destroyed(1) assms(2)
    by (intro life_invI_same[OF assms(2)]) (auto simp: life_inv_def destroy_guard_condition_def gcs_ok_def)
next
  case (triggered g p')
  then have "dom (pc_gcs p') = dom (pc_gcs (li_process s))" "pc_next_gc p' = pc_next_gc (li_process s)"
    by (auto simp: trigger_guard_condition_def dom_def split: option.splits if_splits)
  then show ?thesis using life_inv_same_dom[OF assms(2)] triggered(1) by blast
next
  case (read g got p')
  then have "dom (pc_gcs p') = dom (pc_gcs (li_process s))" "pc_next_gc p' = pc_next_gc (li_process s)"
    by (auto simp: eventfd_read_def dom_def split: option.splits if_splits)
  then show ?thesis using life_inv_same_dom[OF assms(2)] read(1) by blast
next
  case (world w)
  then show ?thesis using life_inv_same_dom[OF assms(2)] by simp
qed

definition life_start :: "context_state \<Rightarrow> process \<Rightarrow> context_life" where
  "life_start ctx p = \<lparr>li_ctx = ctx\<lparr>cs_graph_gcs := []\<rparr>, li_process = p, li_nodes = []\<rparr>"

interpretation lives: transition_invariant life_step life_inv
  by unfold_locales (rule life_inv_step)

lemma life_inv_reachable:
  "life_step\<^sup>*\<^sup>* (life_start ctx p) s \<Longrightarrow> gcs_ok p \<Longrightarrow> life_inv s"
  by (erule lives.steps_keep) (simp add: life_inv_def life_start_def node_gcs_def)

lemma trigger_all_defined:
  "set gs \<subseteq> dom (pc_gcs p) \<Longrightarrow> \<exists>p'. trigger_all gs p = Some p' \<and> dom (pc_gcs p') = dom (pc_gcs p) \<and>
     (\<forall>g. g \<notin> set gs \<longrightarrow> pc_gcs p' g = pc_gcs p g)"
proof (induction gs arbitrary: p)
  case (Cons g gs)
  then obtain gd where gd: "pc_gcs p g = Some gd" by auto
  let ?p = "p\<lparr>pc_gcs := (pc_gcs p)(g \<mapsto> gd\<lparr>gd_count := eventfd_write (gd_count gd)\<rparr>)\<rparr>"
  have dm: "dom (pc_gcs ?p) = dom (pc_gcs p)" using gd by auto
  have "set gs \<subseteq> dom (pc_gcs ?p)" unfolding dm using Cons.prems by simp
  from Cons.IH[OF this] obtain p' where "trigger_all gs ?p = Some p'" "dom (pc_gcs p') = dom (pc_gcs ?p)"
    "\<forall>h. h \<notin> set gs \<longrightarrow> pc_gcs p' h = pc_gcs ?p h" by blast
  then show ?case using gd unfolding dm by (auto simp: rmw_trigger_guard_condition_def trigger_guard_condition_def)
qed simp

text \<open>
  C17: a wait never triggers a freed guard condition. After any history of node creations
  (successful or not) and destructions, of the application's own guard conditions, and of
  triggers, the context's list is exactly the guard conditions of the living nodes, each once;
  all of them are live, so triggering the whole list is defined, and it touches no guard
  condition of the application.
\<close>

theorem graph_listeners_live:
  assumes "life_step\<^sup>*\<^sup>* (life_start ctx p) s" "gcs_ok p"
  shows "distinct (cs_graph_gcs (li_ctx s)) \<and>
    Some ` set (cs_graph_gcs (li_ctx s)) = nd_graph_guard_condition ` set (li_nodes s) \<and>
    (\<exists>p'. trigger_all (cs_graph_gcs (li_ctx s)) (li_process s) = Some p' \<and>
       dom (pc_gcs p') = dom (pc_gcs (li_process s)) \<and>
       (\<forall>g. Some g \<notin> nd_graph_guard_condition ` set (li_nodes s) \<longrightarrow> pc_gcs p' g = pc_gcs (li_process s) g))"
proof -
  have inv: "life_inv s" by (rule life_inv_reachable[OF assms])
  then have i: "distinct (cs_graph_gcs (li_ctx s))"
    "Some ` set (cs_graph_gcs (li_ctx s)) = nd_graph_guard_condition ` set (li_nodes s)"
    "set (cs_graph_gcs (li_ctx s)) \<subseteq> dom (pc_gcs (li_process s))"
    by (simp_all add: life_inv_def node_gcs_def)
  have "g \<notin> set (cs_graph_gcs (li_ctx s))" if "Some g \<notin> nd_graph_guard_condition ` set (li_nodes s)" for g
    using that unfolding i(2)[symmetric] by blast
  then show ?thesis using i(1,2) trigger_all_defined[OF i(3)] by blast
qed

section \<open>A registry with room\<close>

definition room_process :: process where
  "room_process = \<lparr>pc_world = world0\<lparr>wo_reg := \<lparr>rg_slots = [slot0\<lparr>sl_state := ENTRY_EMPTY\<rparr>], rg_generation = 1, rg_high_water = 1\<rparr>\<rparr>,
     pc_gcs = [4 \<mapsto> \<lparr>gd_uid = 3, gd_eventfd = 8, gd_count = 0\<rparr>], pc_next_gc = 5\<rparr>"

definition room_ctx :: context_state where
  "room_ctx = \<lparr>cs_ids = ctx0, cs_is_shutdown = False, cs_last_registry_generation = 1, cs_last_cleanup_ns = 0,
     cs_doorbell_socket = 9, cs_doorbell_path = ''/d'', cs_doorbell_registered = False,
     cs_doorbell_registry_index = -1, cs_graph_gcs = []\<rparr>"

definition room_env :: node_env where
  "room_env = \<lparr>nv_gc_new_ok = True, nv_eventfd = Some 11, nv_gc_handle_ok = True, nv_dup_name_ok = True, nv_dup_namespace_ok = True\<rparr>"

lemma room_ok: "wf_registry (wo_reg (pc_world room_process))" "gcs_ok room_process"
  by (simp_all add: room_process_def wf_registry_def slot0_def wf_slot_def max_entries_def occupied_def uds_defs gcs_ok_def)

lemma room_created:
  "\<exists>node ctx' p'. create_node sys0 room_env room_ctx ''talker'' ''/'' room_process = (Some node, ctx', p') \<and>
     nd_graph_guard_condition node = Some 5"
proof -
  have "\<exists>w. add_entry sys0 e (pc_world room_process\<lparr>wo_uid_ctr := c\<rparr>) = (0, w)" for e c
    by (simp add: add_entry_def registry_add_def try_add_once_def room_process_def uds_defs Let_def)
  moreover have "sy_new_ok sys0" "sy_handle_ok sys0" by (simp_all add: sys0_def)
  ultimately show ?thesis
    by (auto simp: create_node_def create_guard_condition_def room_env_def Let_def room_process_def split: prod.splits) (metis fst_conv order_refl not_le)
qed

theorem node_creation_all_or_nothing_witness:
  "\<exists>node ctx' p'. create_node sys0 room_env room_ctx ''talker'' ''/'' room_process = (Some node, ctx', p') \<and>
     entries (wo_reg (pc_world p')) (nat (nd_registry_index node)) = Some (node_entry sys0 ''talker'' ''/'')"
proof -
  obtain node ctx' p' where c: "create_node sys0 room_env room_ctx ''talker'' ''/'' room_process = (Some node, ctx', p')"
    using room_created by blast
  have "set (cs_graph_gcs room_ctx) \<subseteq> dom (pc_gcs room_process)" by (simp add: room_ctx_def)
  from node_creation_all_or_nothing[OF room_ok this, where sy = sys0 and nv = room_env and name = "''talker''" and ns = "''/''"]
  show ?thesis by (simp add: c)
qed

theorem graph_listeners_live_witness:
  "\<exists>s :: context_life. li_nodes s \<noteq> [] \<and> distinct (cs_graph_gcs (li_ctx s)) \<and> trigger_all (cs_graph_gcs (li_ctx s)) (li_process s) \<noteq> None"
proof -
  obtain node ctx' p' where c: "create_node sys0 room_env room_ctx ''talker'' ''/'' room_process = (Some node, ctx', p')"
    using room_created by blast
  let ?s = "\<lparr>li_ctx = ctx', li_process = p', li_nodes = [node]\<rparr>"
  have st: "li_ctx (life_start room_ctx room_process) = room_ctx" "li_process (life_start room_ctx room_process) = room_process"
    "li_nodes (life_start room_ctx room_process) = []" by (simp_all add: life_start_def room_ctx_def)
  have "life_step (life_start room_ctx room_process) ?s"
    using node_created[of sys0 room_env "life_start room_ctx room_process" "''talker''" "''/''" node ctx' p'] c st by simp
  then have "life_step\<^sup>*\<^sup>* (life_start room_ctx room_process) ?s" by blast
  note g = graph_listeners_live[OF this room_ok(2)]
  have "trigger_all (cs_graph_gcs (li_ctx ?s)) (li_process ?s) \<noteq> None" using g[THEN conjunct2, THEN conjunct2] by fastforce
  then show ?thesis using g[THEN conjunct1] by (intro exI[of _ ?s]) simp
qed

end
