(* ===== verification/Uds_Wait.thy ===== *)
theory Uds_Wait
  imports Uds_Node Uds_Subscription Uds_Client Uds_Service "HOL-Library.Signed_Division"
begin

text \<open>
  Wait sets and \<^verbatim>\<open>rmw_wait\<close> (\<^verbatim>\<open>rmw_wait.cpp\<close>). Entities are passed by pointer, and the wait
  set remembers pointers across calls, so the state has a table of the live entities of each
  kind; using a pointer that is not in its table is \<open>None\<close> (undefined in the source). Blocking
  is a script: each \<^verbatim>\<open>epoll_wait\<close> has an entry with what the rest of the process and the system
  did meanwhile, what it returned for the timeout it was given, and the time that passed.
\<close>

section \<open>State\<close>

datatype armed_kind =
  ARMED_SUBSCRIPTION | ARMED_SERVICE | ARMED_CLIENT | ARMED_GUARD_CONDITION | ARMED_DOORBELL

record armed_entry =
  ae_kind :: armed_kind
  ae_entity :: nat     \<comment> \<open>pointer; 0 and unused for the doorbell\<close>
  ae_uid :: u64

record wait_set =
  ws_has_context :: bool               \<comment> \<open>the context pointer is not null\<close>
  ws_armed :: "int \<rightharpoonup> armed_entry"     \<comment> \<open>by file descriptor\<close>

record ('m, 'q, 'r) waiting =
  wt_process :: process
  wt_ctx :: context_state
  wt_subs :: "nat \<rightharpoonup> 'm subscription"
  wt_services :: "nat \<rightharpoonup> ('q, 'r) service"
  wt_clients :: "nat \<rightharpoonup> ('q, 'r) client"
  wt_set :: wait_set

text \<open>The arrays the caller passes: the array pointer and each element may be null.\<close>

record caller_sets =
  ca_subs :: "nat option list option"
  ca_gcs :: "nat option list option"
  ca_services :: "nat option list option"
  ca_clients :: "nat option list option"
  ca_events :: "nat option list option"

definition elems :: "'a option list option \<Rightarrow> 'a option list" where
  "elems a = (case a of None \<Rightarrow> [] | Some xs \<Rightarrow> xs)"

definition ptrs :: "'a option list option \<Rightarrow> 'a list" where
  "ptrs a = map the (filter (\<lambda>x. x \<noteq> None) (elems a))"

datatype ctl_result = Ctl_ok | Ctl_eexist | Ctl_error

datatype epoll_result = Epoll_eintr | Epoll_failed | Epoll_ready "int list"

record ('m, 'q, 'r) wake =
  wk_delay :: nat                        \<comment> \<open>time from the last clock reading to the one before the block\<close>
  wk_env :: "('m, 'q, 'r) waiting \<Rightarrow> ('m, 'q, 'r) waiting"
  wk_result :: "int \<Rightarrow> epoll_result"    \<comment> \<open>by the timeout argument\<close>
  wk_elapsed :: "int \<Rightarrow> nat"            \<comment> \<open>time to the clock reading after the events are handled\<close>
  wk_sys :: sys

record ('m, 'q, 'r) wait_env =
  wv_sys :: sys
  wv_fd :: "nat \<Rightarrow> int"               \<comment> \<open>the descriptor of a socket in this process\<close>
  wv_ctl :: "int \<Rightarrow> ctl_result"       \<comment> \<open>\<^verbatim>\<open>EPOLL_CTL_ADD\<close>\<close>
  wv_now :: int                        \<comment> \<open>the clock when the deadline is computed\<close>
  wv_wakes :: "('m, 'q, 'r) wake list"
  wv_tail :: nat                       \<comment> \<open>time from the loop to the last test\<close>

section \<open>Wait sets\<close>

definition rmw_create_wait_set :: "bool \<Rightarrow> bool \<Rightarrow> bool \<Rightarrow> bool handle option \<Rightarrow> wait_set handle option" where
  "rmw_create_wait_set new_ok epoll_ok handle_ok context =
     (case guard_entry context True of
        Inl _ \<Rightarrow> None
      | Inr impl \<Rightarrow>
          if \<not> new_ok then None
          else if \<not> epoll_ok then None
          else if \<not> handle_ok then None
          else Some \<lparr>hn_identifier = uds_identifier,
                     hn_data = \<lparr>ws_has_context = impl, ws_armed = Map.empty\<rparr>\<rparr>)"

definition rmw_destroy_wait_set :: "wait_set handle option \<Rightarrow> rmw_ret" where
  "rmw_destroy_wait_set h = (case guard_entry h True of Inl r \<Rightarrow> r | Inr _ \<Rightarrow> RMW_RET_OK)"

section \<open>The doorbell and the generation check\<close>

definition doorbell_entry :: "sys \<Rightarrow> context_state \<Rightarrow> reg_entry" where
  "doorbell_entry sy ctx =
     \<lparr>en_type = ENTRY_DOORBELL,
      en_payload = zero_payload\<lparr>pl_pid := sy_pid sy, pl_socket_path := fit 108 (cs_doorbell_path ctx)\<rparr>\<rparr>"

text \<open>Result: whether a graph guard condition is waited on without a registered doorbell.\<close>

definition wire_doorbell ::
    "sys \<Rightarrow> caller_sets \<Rightarrow> ('m, 'q, 'r) waiting \<Rightarrow> bool \<times> ('m, 'q, 'r) waiting" where
  "wire_doorbell sy ca s =
     (let ctx = wt_ctx s in
      if ws_has_context (wt_set s) \<and> ca_gcs ca \<noteq> None \<and> \<not> cs_doorbell_registered ctx
      then (if list_ex (\<lambda>g. g \<in> set (cs_graph_gcs ctx)) (ptrs (ca_gcs ca))
            then (let (idx, w) = add_entry sy (doorbell_entry sy ctx) (pc_world (wt_process s));
                      s1 = s\<lparr>wt_process := (wt_process s)\<lparr>pc_world := w\<rparr>\<rparr>
                  in if idx \<ge> 0
                     then (False, s1\<lparr>wt_ctx := ctx\<lparr>cs_doorbell_registry_index := idx, cs_doorbell_registered := True\<rparr>\<rparr>)
                     else (True, s1))
            else (False, s))
      else (False, s))"

text \<open>\<^verbatim>\<open>recv\<close> until it returns nothing: an empty datagram is received and ends the loop too.\<close>

definition drain_doorbell :: "nat \<Rightarrow> world \<Rightarrow> world" where
  "drain_doorbell sock w =
     w\<lparr>wo_net := (wo_net w)\<lparr>nt_queue := (nt_queue (wo_net w))
         (sock := drop 1 (dropWhile (\<lambda>d. d \<noteq> []) (nt_queue (wo_net w) sock)))\<rparr>\<rparr>"

definition run_generation_check :: "('m, 'q, 'r) waiting \<Rightarrow> ('m, 'q, 'r) waiting option" where
  "run_generation_check s =
     (if \<not> ws_has_context (wt_set s) then Some s
      else (let ctx = wt_ctx s;
                p1 = (wt_process s)\<lparr>pc_world := drain_doorbell (cs_doorbell_socket ctx) (pc_world (wt_process s))\<rparr>;
                gen = registry_generation (wo_reg (pc_world p1))
            in if gen \<noteq> cs_last_registry_generation ctx
               then (case trigger_all (cs_graph_gcs ctx) p1 of
                       None \<Rightarrow> None
                     | Some p2 \<Rightarrow> Some (s\<lparr>wt_process := p2, wt_ctx := ctx\<lparr>cs_last_registry_generation := gen\<rparr>\<rparr>))
               else Some (s\<lparr>wt_process := p1\<rparr>)))"

section \<open>Arming\<close>

record arming =
  ar_armed :: "int \<rightharpoonup> armed_entry"
  ar_this_call :: "int set"
  ar_unarmed :: "armed_entry list"

definition register_fd :: "(int \<Rightarrow> ctl_result) \<Rightarrow> int \<times> armed_entry \<Rightarrow> arming \<Rightarrow> arming" where
  "register_fd ctl x a =
     (case x of (fd, entry) \<Rightarrow>
        if fd < 0 then a
        else (let a1 = a\<lparr>ar_this_call := insert fd (ar_this_call a)\<rparr> in
              if map_option ae_uid (ar_armed a1 fd) = Some (ae_uid entry) then a1
              else if ctl fd = Ctl_error
              then a1\<lparr>ar_this_call := ar_this_call a1 - {fd}, ar_unarmed := ar_unarmed a1 @ [entry]\<rparr>
              else a1\<lparr>ar_armed := (ar_armed a1)(fd \<mapsto> entry)\<rparr>))"

text \<open>What is waited on, in the order it is armed; \<open>None\<close> if a pointer dangles.\<close>

definition watch_list ::
    "(nat \<Rightarrow> int) \<Rightarrow> caller_sets \<Rightarrow> ('m, 'q, 'r) waiting \<Rightarrow> (int \<times> armed_entry) option list" where
  "watch_list fd_of ca s =
     map (\<lambda>p. map_option (\<lambda>x. (fd_of (su_socket x), \<lparr>ae_kind = ARMED_SUBSCRIPTION, ae_entity = p, ae_uid = su_uid x\<rparr>))
                (wt_subs s p)) (ptrs (ca_subs ca)) @
     map (\<lambda>p. map_option (\<lambda>x. (fd_of (ep_socket x), \<lparr>ae_kind = ARMED_SERVICE, ae_entity = p, ae_uid = ep_uid x\<rparr>))
                (wt_services s p)) (ptrs (ca_services ca)) @
     map (\<lambda>p. map_option (\<lambda>x. (fd_of (ep_socket x), \<lparr>ae_kind = ARMED_CLIENT, ae_entity = p, ae_uid = ep_uid x\<rparr>))
                (wt_clients s p)) (ptrs (ca_clients ca)) @
     map (\<lambda>p. map_option (\<lambda>x. (int (gd_eventfd x), \<lparr>ae_kind = ARMED_GUARD_CONDITION, ae_entity = p, ae_uid = gd_uid x\<rparr>))
                (pc_gcs (wt_process s) p)) (ptrs (ca_gcs ca)) @
     [Some (if ws_has_context (wt_set s) then fd_of (cs_doorbell_socket (wt_ctx s)) else -1,
            \<lparr>ae_kind = ARMED_DOORBELL, ae_entity = 0, ae_uid = 0\<rparr>)]"

definition arm_all :: "('m, 'q, 'r) wait_env \<Rightarrow> caller_sets \<Rightarrow> ('m, 'q, 'r) waiting \<Rightarrow> arming option" where
  "arm_all we ca s =
     (let ws = watch_list (wv_fd we) ca s in
      if None \<in> set ws then None
      else Some (fold (register_fd (wv_ctl we)) (map the ws)
                   \<lparr>ar_armed = ws_armed (wt_set s), ar_this_call = {}, ar_unarmed = []\<rparr>))"

section \<open>Draining one entity\<close>

definition wait_depth :: nat where "wait_depth = 100"

definition rpc_wait_cfg :: "u8 \<Rightarrow> 'a endpoint_scheme \<Rightarrow> drain_cfg" where
  "rpc_wait_cfg kind ep = \<lparr>dc_depth = Some wait_depth, dc_msg_type = kind, dc_domain_id = cx_domain_id (ep_context ep),
     dc_dedup = False, dc_ignore_local = False, dc_context_id = 0\<rparr>"

text \<open>
  The drain of \<^verbatim>\<open>rmw_wait\<close> for an armed entity of one of the three kinds with a socket, and
  whether the entity's queue holds something afterwards. The arrival callbacks are not called.
\<close>

definition drain_sub :: "sys \<Rightarrow> nat \<Rightarrow> ('m, 'q, 'r) waiting \<Rightarrow> (bool \<times> ('m, 'q, 'r) waiting) option" where
  "drain_sub sy p s =
     (case wt_subs s p of
        None \<Rightarrow> None
      | Some x \<Rightarrow>
          (case drain sy (sub_cfg x) (su_socket x) (su_inbox x) (pc_world (wt_process s)) of
             (ib, _, w) \<Rightarrow>
               Some (ib_queue ib \<noteq> [], s\<lparr>wt_subs := (wt_subs s)(p \<mapsto> x\<lparr>su_inbox := ib\<rparr>),
                                          wt_process := (wt_process s)\<lparr>pc_world := w\<rparr>\<rparr>)))"

definition drain_service :: "sys \<Rightarrow> nat \<Rightarrow> ('m, 'q, 'r) waiting \<Rightarrow> (bool \<times> ('m, 'q, 'r) waiting) option" where
  "drain_service sy p s =
     (case wt_services s p of
        None \<Rightarrow> None
      | Some x \<Rightarrow>
          (case drain sy (rpc_wait_cfg MSG_REQUEST x) (ep_socket x) (ep_inbox x) (pc_world (wt_process s)) of
             (ib, _, w) \<Rightarrow>
               Some (ib_queue ib \<noteq> [], s\<lparr>wt_services := (wt_services s)(p \<mapsto> x\<lparr>ep_inbox := ib\<rparr>),
                                          wt_process := (wt_process s)\<lparr>pc_world := w\<rparr>\<rparr>)))"

definition drain_client :: "sys \<Rightarrow> nat \<Rightarrow> ('m, 'q, 'r) waiting \<Rightarrow> (bool \<times> ('m, 'q, 'r) waiting) option" where
  "drain_client sy p s =
     (case wt_clients s p of
        None \<Rightarrow> None
      | Some x \<Rightarrow>
          (case drain sy (rpc_wait_cfg MSG_RESPONSE x) (ep_socket x) (ep_inbox x) (pc_world (wt_process s)) of
             (ib, _, w) \<Rightarrow>
               Some (ib_queue ib \<noteq> [], s\<lparr>wt_clients := (wt_clients s)(p \<mapsto> x\<lparr>ep_inbox := ib\<rparr>),
                                          wt_process := (wt_process s)\<lparr>pc_world := w\<rparr>\<rparr>)))"

definition read_gc :: "nat \<Rightarrow> ('m, 'q, 'r) waiting \<Rightarrow> (bool \<times> ('m, 'q, 'r) waiting) option" where
  "read_gc g s =
     (if pc_gcs (wt_process s) g = None then None
      else (case eventfd_read g (wt_process s) of (got, p) \<Rightarrow> Some (got, s\<lparr>wt_process := p\<rparr>)))"

text \<open>The fallback for entities that could not be armed.\<close>

fun drain_unarmed :: "sys \<Rightarrow> armed_entry list \<Rightarrow> ('m, 'q, 'r) waiting \<Rightarrow> ('m, 'q, 'r) waiting option" where
  "drain_unarmed sy [] s = Some s"
| "drain_unarmed sy (ue # ues) s =
     (case (case ae_kind ue of
              ARMED_SUBSCRIPTION \<Rightarrow> map_option snd (drain_sub sy (ae_entity ue) s)
            | ARMED_SERVICE \<Rightarrow> map_option snd (drain_service sy (ae_entity ue) s)
            | ARMED_CLIENT \<Rightarrow> map_option snd (drain_client sy (ae_entity ue) s)
            | _ \<Rightarrow> Some s) of
        None \<Rightarrow> None
      | Some s1 \<Rightarrow> drain_unarmed sy ues s1)"

section \<open>What is ready already\<close>

definition queues_ready ::
    "('d \<Rightarrow> inbox) \<Rightarrow> (nat \<rightharpoonup> 'd) \<Rightarrow> nat option list option \<Rightarrow> bool option" where
  "queues_ready inbox_of table a =
     (if list_ex (\<lambda>p. table p = None) (ptrs a) then None
      else Some (list_ex (\<lambda>p. ib_queue (inbox_of (the (table p))) \<noteq> []) (ptrs a)))"

text \<open>The consuming reads of the caller's guard conditions, remembered by array position.\<close>

fun read_gcs :: "nat option list \<Rightarrow> ('m, 'q, 'r) waiting \<Rightarrow> (bool list \<times> ('m, 'q, 'r) waiting) option" where
  "read_gcs [] s = Some ([], s)"
| "read_gcs (None # gs) s =
     (case read_gcs gs s of None \<Rightarrow> None | Some (bs, s1) \<Rightarrow> Some (False # bs, s1))"
| "read_gcs (Some g # gs) s =
     (case read_gc g s of
        None \<Rightarrow> None
      | Some (got, s1) \<Rightarrow> (case read_gcs gs s1 of None \<Rightarrow> None | Some (bs, s2) \<Rightarrow> Some (got # bs, s2)))"

definition check_ready :: "caller_sets \<Rightarrow> ('m, 'q, 'r) waiting \<Rightarrow> (bool \<times> bool list \<times> ('m, 'q, 'r) waiting) option" where
  "check_ready ca s =
     (case (queues_ready su_inbox (wt_subs s) (ca_subs ca), queues_ready ep_inbox (wt_services s) (ca_services ca),
            queues_ready ep_inbox (wt_clients s) (ca_clients ca), read_gcs (elems (ca_gcs ca)) s) of
        (Some b1, Some b2, Some b3, Some (bs, s1)) \<Rightarrow> Some (b1 \<or> b2 \<or> b3 \<or> list_ex id bs, bs, s1)
      | _ \<Rightarrow> None)"

section \<open>Timeouts\<close>

definition INT_MAX :: int where "INT_MAX = 2147483647"

text \<open>
  \<^verbatim>\<open>rmw_time_t\<close> has two unsigned 64-bit fields; they are cast to \<^verbatim>\<open>int64_t\<close>. The result is
  narrowed to \<^verbatim>\<open>int\<close>; \<open>-1\<close> blocks forever.
\<close>

definition total_ms :: "u64 \<Rightarrow> u64 \<Rightarrow> int" where
  "total_ms sec nsec = sint (sec * 1000 + word_of_int (sint nsec sdiv 1000000))"

definition timeout_ms :: "(u64 \<times> u64) option \<Rightarrow> int" where
  "timeout_ms wait_timeout =
     (case wait_timeout of
        None \<Rightarrow> -1
      | Some (sec, nsec) \<Rightarrow>
          (let ms = total_ms sec nsec in
           if ms > INT_MAX then -1
           else (let t = sint (word_of_int ms :: 32 word) in if t = 0 \<and> nsec > 0 then 1 else t)))"

text \<open>The argument of one \<^verbatim>\<open>epoll_wait\<close>; \<open>deadline\<close> is \<open>None\<close> for an infinite wait.\<close>

definition block_ms :: "bool \<Rightarrow> int option \<Rightarrow> bool \<Rightarrow> int \<Rightarrow> int" where
  "block_ms poll_only deadline degraded now =
     (if poll_only then 0
      else (let b = (case deadline of
                       None \<Rightarrow> -1
                     | Some d \<Rightarrow> (let rem_ns = d - now;
                                     rem_ms = (if rem_ns > 0 then (rem_ns + 999999) div 1000000 else 0)
                                 in min rem_ms INT_MAX))
            in if degraded \<and> (b < 0 \<or> b > 200) then 200 else b))"

section \<open>The loop\<close>

text \<open>The last position a guard condition has in the caller's array.\<close>

fun gc_index_from :: "nat \<Rightarrow> nat option list \<Rightarrow> nat \<rightharpoonup> nat" where
  "gc_index_from i [] = Map.empty"
| "gc_index_from i (x # xs) =
     (case x of None \<Rightarrow> gc_index_from (Suc i) xs
      | Some g \<Rightarrow> (\<lambda>h. case gc_index_from (Suc i) xs h of Some j \<Rightarrow> Some j | None \<Rightarrow> if h = g then Some i else None))"

abbreviation gc_index :: "nat option list \<Rightarrow> nat \<rightharpoonup> nat" where "gc_index \<equiv> gc_index_from 0"

record progress =
  pg_progressed :: bool
  pg_rang :: bool
  pg_triggered :: "bool list"

definition withdraw :: "int \<Rightarrow> ('m, 'q, 'r) waiting \<Rightarrow> ('m, 'q, 'r) waiting" where
  "withdraw fd s = s\<lparr>wt_set := (wt_set s)\<lparr>ws_armed := (ws_armed (wt_set s))(fd := None)\<rparr>\<rparr>"

definition progressed_if :: "(bool \<times> ('m, 'q, 'r) waiting) option \<Rightarrow> progress \<Rightarrow> (progress \<times> ('m, 'q, 'r) waiting) option" where
  "progressed_if r pg =
     (case r of None \<Rightarrow> None | Some (b, s) \<Rightarrow> Some (if b then pg\<lparr>pg_progressed := True\<rparr> else pg, s))"

definition dispatch_entry ::
    "sys \<Rightarrow> (nat \<rightharpoonup> nat) \<Rightarrow> armed_entry \<Rightarrow> progress \<Rightarrow> ('m, 'q, 'r) waiting \<Rightarrow> (progress \<times> ('m, 'q, 'r) waiting) option" where
  "dispatch_entry sy index e pg s =
     (case ae_kind e of
        ARMED_SUBSCRIPTION \<Rightarrow> progressed_if (drain_sub sy (ae_entity e) s) pg
      | ARMED_SERVICE \<Rightarrow> progressed_if (drain_service sy (ae_entity e) s) pg
      | ARMED_CLIENT \<Rightarrow> progressed_if (drain_client sy (ae_entity e) s) pg
      | ARMED_GUARD_CONDITION \<Rightarrow>
          (case read_gc (ae_entity e) s of
             None \<Rightarrow> None
           | Some (got, s1) \<Rightarrow>
               Some (if got
                     then pg\<lparr>pg_progressed := True,
                             pg_triggered := (case index (ae_entity e) of
                                                None \<Rightarrow> pg_triggered pg | Some i \<Rightarrow> (pg_triggered pg)[i := True])\<rparr>
                     else pg, s1))
      | ARMED_DOORBELL \<Rightarrow> Some (pg\<lparr>pg_rang := True\<rparr>, s))"

text \<open>One reported descriptor: dispatched only if this call armed it, withdrawn otherwise.\<close>

definition dispatch ::
    "sys \<Rightarrow> (nat \<rightharpoonup> nat) \<Rightarrow> int set \<Rightarrow> int \<Rightarrow> progress \<Rightarrow> ('m, 'q, 'r) waiting \<Rightarrow> (progress \<times> ('m, 'q, 'r) waiting) option" where
  "dispatch sy index this_call fd pg s =
     (case ws_armed (wt_set s) fd of
        None \<Rightarrow> Some (pg, withdraw fd s)
      | Some e \<Rightarrow> if fd \<notin> this_call then Some (pg, withdraw fd s) else dispatch_entry sy index e pg s)"

fun dispatch_all ::
    "sys \<Rightarrow> (nat \<rightharpoonup> nat) \<Rightarrow> int set \<Rightarrow> int list \<Rightarrow> progress \<Rightarrow> ('m, 'q, 'r) waiting \<Rightarrow> (progress \<times> ('m, 'q, 'r) waiting) option" where
  "dispatch_all sy index this_call [] pg s = Some (pg, s)"
| "dispatch_all sy index this_call (fd # fds) pg s =
     (case dispatch sy index this_call fd pg s of
        None \<Rightarrow> None
      | Some (pg1, s1) \<Rightarrow> dispatch_all sy index this_call fds pg1 s1)"

text \<open>\<open>Still_blocked\<close>: the script ends inside the loop. \<open>Dangling\<close>: a destroyed object was used.\<close>

datatype ('m, 'q, 'r) loop_end =
    Still_blocked
  | Dangling
  | Epoll_error "('m, 'q, 'r) waiting"
  | Left int "bool list" "('m, 'q, 'r) waiting"   \<comment> \<open>with the clock\<close>

definition handle_events ::
    "sys \<Rightarrow> (nat \<rightharpoonup> nat) \<Rightarrow> int set \<Rightarrow> int list \<Rightarrow> bool list \<Rightarrow> ('m, 'q, 'r) waiting \<Rightarrow>
       (bool \<times> bool list \<times> ('m, 'q, 'r) waiting) option" where
  "handle_events sy index this_call fds triggered s =
     (case dispatch_all sy index this_call fds \<lparr>pg_progressed = False, pg_rang = False, pg_triggered = triggered\<rparr> s of
        None \<Rightarrow> None
      | Some (pg, s1) \<Rightarrow>
          (if pg_rang pg
           then map_option (\<lambda>s2. (pg_progressed pg, pg_triggered pg, s2)) (run_generation_check s1)
           else Some (pg_progressed pg, pg_triggered pg, s1)))"

definition epoll_batch :: nat where "epoll_batch = 64"

fun epoll_loop ::
    "bool \<Rightarrow> int option \<Rightarrow> bool \<Rightarrow> (nat \<rightharpoonup> nat) \<Rightarrow> int set \<Rightarrow> ('m, 'q, 'r) wake list \<Rightarrow> int \<Rightarrow> bool list \<Rightarrow>
       ('m, 'q, 'r) waiting \<Rightarrow> ('m, 'q, 'r) loop_end" where
  "epoll_loop poll_only deadline degraded index this_call [] now triggered s = Still_blocked"
| "epoll_loop poll_only deadline degraded index this_call (wk # wakes) now triggered s =
     (let start = now + int (wk_delay wk);
          ms = block_ms poll_only deadline degraded start;
          after = start + int (wk_elapsed wk ms);
          s1 = wk_env wk s
      in case wk_result wk ms of
           Epoll_eintr \<Rightarrow> epoll_loop poll_only deadline degraded index this_call wakes after triggered s1
         | Epoll_failed \<Rightarrow> Epoll_error s1
         | Epoll_ready fds \<Rightarrow>
             if fds = [] then Left after triggered s1
             else (case handle_events (wk_sys wk) index this_call fds triggered s1 of
                     None \<Rightarrow> Dangling
                   | Some (progressed, triggered2, s2) \<Rightarrow>
                       if poll_only
                       then (if length fds = epoll_batch
                             then epoll_loop poll_only deadline degraded index this_call wakes after triggered2 s2
                             else Left after triggered2 s2)
                       else if progressed then Left after triggered2 s2
                       else if (case deadline of None \<Rightarrow> False | Some d \<Rightarrow> after \<ge> d) then Left after triggered2 s2
                       else if degraded then Left after triggered2 s2
                       else epoll_loop poll_only deadline degraded index this_call wakes after triggered2 s2))"

section \<open>The output pass\<close>

text \<open>An array after the pass, and whether anything in it is ready.\<close>

definition keep_ready :: "('d \<Rightarrow> inbox) \<Rightarrow> (nat \<rightharpoonup> 'd) \<Rightarrow> nat option list option \<Rightarrow> nat option list option \<times> bool" where
  "keep_ready inbox_of table a =
     (let ready = (\<lambda>x. case x of None \<Rightarrow> False | Some p \<Rightarrow> ib_queue (inbox_of (the (table p))) \<noteq> []) in
      (map_option (map (\<lambda>x. if ready x then x else None)) a, list_ex ready (elems a)))"

fun keep_triggered ::
    "nat option list \<Rightarrow> bool list \<Rightarrow> ('m, 'q, 'r) waiting \<Rightarrow> (nat option list \<times> bool \<times> ('m, 'q, 'r) waiting) option" where
  "keep_triggered [] bs s = Some ([], False, s)"
| "keep_triggered (None # gs) bs s =
     (case keep_triggered gs (tl bs) s of None \<Rightarrow> None | Some (out, any, s1) \<Rightarrow> Some (None # out, any, s1))"
| "keep_triggered (Some g # gs) bs s =
     (case read_gc g s of
        None \<Rightarrow> None
      | Some (got, s1) \<Rightarrow>
          (let ready = got \<or> hd bs in
           case keep_triggered gs (tl bs) s1 of
             None \<Rightarrow> None
           | Some (out, any, s2) \<Rightarrow> Some ((if ready then Some g else None) # out, ready \<or> any, s2)))"

definition dangles :: "(nat \<rightharpoonup> 'd) \<Rightarrow> nat option list option \<Rightarrow> bool" where
  "dangles table a \<longleftrightarrow> list_ex (\<lambda>p. table p = None) (ptrs a)"

definition outputs ::
    "caller_sets \<Rightarrow> bool list \<Rightarrow> ('m, 'q, 'r) waiting \<Rightarrow> (caller_sets \<times> bool \<times> ('m, 'q, 'r) waiting) option" where
  "outputs ca triggered s =
     (if dangles (wt_subs s) (ca_subs ca) \<or> dangles (wt_services s) (ca_services ca) \<or> dangles (wt_clients s) (ca_clients ca)
      then None
      else (case keep_triggered (elems (ca_gcs ca)) triggered s of
              None \<Rightarrow> None
            | Some (gcs, any_gc, s1) \<Rightarrow>
                (let (subs, any_sub) = keep_ready su_inbox (wt_subs s1) (ca_subs ca);
                     (services, any_service) = keep_ready ep_inbox (wt_services s1) (ca_services ca);
                     (clients, any_client) = keep_ready ep_inbox (wt_clients s1) (ca_clients ca)
                 in Some (\<lparr>ca_subs = subs, ca_gcs = map_option (\<lambda>_. gcs) (ca_gcs ca), ca_services = services,
                           ca_clients = clients, ca_events = map_option (map (\<lambda>_. None)) (ca_events ca)\<rparr>,
                          any_sub \<or> any_gc \<or> any_service \<or> any_client, s1))))"

section \<open>The call\<close>

datatype ('m, 'q, 'r) wait_result =
    Wait_blocked
  | Wait_undefined
  | Wait_returned rmw_ret "int option" caller_sets "('m, 'q, 'r) waiting"   \<comment> \<open>with the clock of the last test\<close>

definition wait_deadline :: "int \<Rightarrow> (u64 \<times> u64) option \<Rightarrow> int option" where
  "wait_deadline now wait_timeout =
     (let t = timeout_ms wait_timeout in if t < 0 then None else Some (now + t * 1000000))"

definition finish_wait ::
    "nat \<Rightarrow> int option \<Rightarrow> caller_sets \<Rightarrow> ('m, 'q, 'r) loop_end \<Rightarrow> ('m, 'q, 'r) wait_result" where
  "finish_wait tail deadline ca e =
     (case e of
        Still_blocked \<Rightarrow> Wait_blocked
      | Dangling \<Rightarrow> Wait_undefined
      | Epoll_error s \<Rightarrow> Wait_returned RMW_RET_ERROR None ca s
      | Left now triggered s \<Rightarrow>
          (case outputs ca triggered s of
             None \<Rightarrow> Wait_undefined
           | Some (ca', any_ready, s') \<Rightarrow>
               Wait_returned (if \<not> any_ready \<and> (case deadline of None \<Rightarrow> False | Some d \<Rightarrow> now + int tail \<ge> d)
                              then RMW_RET_TIMEOUT else RMW_RET_OK) (Some (now + int tail)) ca' s'))"

definition wait_on ::
    "('m, 'q, 'r) wait_env \<Rightarrow> caller_sets \<Rightarrow> (u64 \<times> u64) option \<Rightarrow> ('m, 'q, 'r) waiting \<Rightarrow> ('m, 'q, 'r) wait_result" where
  "wait_on we ca wait_timeout s =
     (let (unwired, s1) = wire_doorbell (wv_sys we) ca s in
      case run_generation_check s1 of
        None \<Rightarrow> Wait_undefined
      | Some s2 \<Rightarrow>
          (case arm_all we ca s2 of
             None \<Rightarrow> Wait_undefined
           | Some ar \<Rightarrow>
               (let s3 = s2\<lparr>wt_set := (wt_set s2)\<lparr>ws_armed := ar_armed ar\<rparr>\<rparr> in
                case drain_unarmed (wv_sys we) (ar_unarmed ar) s3 of
                  None \<Rightarrow> Wait_undefined
                | Some s4 \<Rightarrow>
                    (case check_ready ca s4 of
                       None \<Rightarrow> Wait_undefined
                     | Some (something_ready, triggered, s5) \<Rightarrow>
                         (let deadline = wait_deadline (wv_now we) wait_timeout
                          in finish_wait (wv_tail we) deadline ca
                               (epoll_loop something_ready deadline (unwired \<or> ar_unarmed ar \<noteq> [])
                                  (gc_index (elems (ca_gcs ca))) (ar_this_call ar) (wv_wakes we) (wv_now we) triggered s5))))))"

text \<open>The entry point; the wait set of the state is the one the handle names.\<close>

definition rmw_wait ::
    "('m, 'q, 'r) wait_env \<Rightarrow> caller_sets \<Rightarrow> wait_set handle option \<Rightarrow> (u64 \<times> u64) option \<Rightarrow> ('m, 'q, 'r) waiting \<Rightarrow>
       ('m, 'q, 'r) wait_result" where
  "rmw_wait we ca h wait_timeout s =
     (case guard_entry h True of
        Inl r \<Rightarrow> Wait_returned r None ca s
      | Inr ws \<Rightarrow> wait_on we ca wait_timeout (s\<lparr>wt_set := ws\<rparr>))"

end
