(* ===== verification/Uds_Wait_Props.thy ===== *)
theory Uds_Wait_Props
  imports Uds_Wait Uds_Inbox_Props
begin

text \<open>
  What \<^verbatim>\<open>rmw_wait\<close> guarantees: it uses no destroyed object although its wait set may remember
  many, its results are exact, and its timeouts are the caller's.
\<close>

section \<open>Entities and what the wait leaves alone\<close>

text \<open>The identity of the object a kind and a pointer name, if it is live.\<close>

definition entity_uid :: "('m, 'q, 'r) waiting \<Rightarrow> armed_kind \<Rightarrow> nat \<Rightarrow> u64 option" where
  "entity_uid s k p =
     (case k of
        ARMED_SUBSCRIPTION \<Rightarrow> map_option su_uid (wt_subs s p)
      | ARMED_SERVICE \<Rightarrow> map_option ep_uid (wt_services s p)
      | ARMED_CLIENT \<Rightarrow> map_option ep_uid (wt_clients s p)
      | ARMED_GUARD_CONDITION \<Rightarrow> map_option gd_uid (pc_gcs (wt_process s) p)
      | ARMED_DOORBELL \<Rightarrow> if p = 0 then Some 0 else None)"

abbreviation armed_of :: "('m, 'q, 'r) waiting \<Rightarrow> int \<rightharpoonup> armed_entry" where
  "armed_of s \<equiv> ws_armed (wt_set s)"

text \<open>The same objects with the same identities, and nothing newly armed.\<close>

definition still :: "('m, 'q, 'r) waiting \<Rightarrow> ('m, 'q, 'r) waiting \<Rightarrow> bool" where
  "still s s' \<longleftrightarrow> entity_uid s' = entity_uid s \<and> cs_graph_gcs (wt_ctx s') = cs_graph_gcs (wt_ctx s) \<and>
     armed_of s' \<subseteq>\<^sub>m armed_of s"

lemma still_refl [simp]: "still s s"
  by (simp add: still_def)

lemma still_trans: "still s s1 \<Longrightarrow> still s1 s2 \<Longrightarrow> still s s2"
  by (auto simp: still_def intro: map_le_trans)

lemma entity_uid_simps [simp]:
  "entity_uid s ARMED_SUBSCRIPTION p = map_option su_uid (wt_subs s p)"
  "entity_uid s ARMED_SERVICE p = map_option ep_uid (wt_services s p)"
  "entity_uid s ARMED_CLIENT p = map_option ep_uid (wt_clients s p)"
  "entity_uid s ARMED_GUARD_CONDITION p = map_option gd_uid (pc_gcs (wt_process s) p)"
  "entity_uid s ARMED_DOORBELL p = (if p = 0 then Some 0 else None)"
  by (simp_all add: entity_uid_def)

lemma stillI:
  assumes "\<And>p. map_option su_uid (wt_subs s' p) = map_option su_uid (wt_subs s p)"
    "\<And>p. map_option ep_uid (wt_services s' p) = map_option ep_uid (wt_services s p)"
    "\<And>p. map_option ep_uid (wt_clients s' p) = map_option ep_uid (wt_clients s p)"
    "\<And>p. map_option gd_uid (pc_gcs (wt_process s') p) = map_option gd_uid (pc_gcs (wt_process s) p)"
    "cs_graph_gcs (wt_ctx s') = cs_graph_gcs (wt_ctx s)" "armed_of s' \<subseteq>\<^sub>m armed_of s"
  shows "still s s'"
proof -
  have "entity_uid s' k p = entity_uid s k p" for k p using assms(1-4) by (cases k) simp_all
  then show ?thesis using assms(5,6) by (auto simp: still_def)
qed

definition live :: "('m, 'q, 'r) waiting \<Rightarrow> armed_entry \<Rightarrow> bool" where
  "live s e \<longleftrightarrow> entity_uid s (ae_kind e) (ae_entity e) \<noteq> None"

lemma still_live: "still s s' \<Longrightarrow> live s' e = live s e"
  by (simp add: still_def live_def)

section \<open>The operations of the wait\<close>

lemma read_gc_run:
  assumes "pc_gcs (wt_process s) g \<noteq> None"
  shows "\<exists>got s'. read_gc g s = Some (got, s') \<and> still s s'"
  using assms by (auto simp: read_gc_def eventfd_read_def intro!: stillI)

lemma drain_sub_run:
  assumes "wt_subs s p \<noteq> None"
  shows "\<exists>b s'. drain_sub sy p s = Some (b, s') \<and> still s s'"
  using assms by (auto simp: drain_sub_def split: prod.splits intro!: stillI)

lemma drain_service_run:
  assumes "wt_services s p \<noteq> None"
  shows "\<exists>b s'. drain_service sy p s = Some (b, s') \<and> still s s'"
  using assms by (auto simp: drain_service_def split: prod.splits intro!: stillI)

lemma drain_client_run:
  assumes "wt_clients s p \<noteq> None"
  shows "\<exists>b s'. drain_client sy p s = Some (b, s') \<and> still s s'"
  using assms by (auto simp: drain_client_def split: prod.splits intro!: stillI)

lemma trigger_all_run:
  "\<forall>g\<in>set gs. pc_gcs p g \<noteq> None \<Longrightarrow>
   \<exists>p'. trigger_all gs p = Some p' \<and> (\<forall>g. map_option gd_uid (pc_gcs p' g) = map_option gd_uid (pc_gcs p g)) \<and>
     pc_world p' = pc_world p"
proof (induction gs arbitrary: p)
  case (Cons g gs)
  then obtain gd where gd: "pc_gcs p g = Some gd" by auto
  let ?p = "p\<lparr>pc_gcs := (pc_gcs p)(g \<mapsto> gd\<lparr>gd_count := eventfd_write (gd_count gd)\<rparr>)\<rparr>"
  have "\<forall>h\<in>set gs. pc_gcs ?p h \<noteq> None" using Cons.prems gd by auto
  from Cons.IH[OF this] obtain p' where p': "trigger_all gs ?p = Some p'"
    "\<forall>h. map_option gd_uid (pc_gcs p' h) = map_option gd_uid (pc_gcs ?p h)" "pc_world p' = pc_world ?p" by blast
  have "map_option gd_uid (pc_gcs p' h) = map_option gd_uid (pc_gcs p h)" for h
    using p'(2) gd by (cases "h = g") simp_all
  then show ?case using p'(1,3) gd by (simp add: rmw_trigger_guard_condition_def trigger_guard_condition_def)
qed simp

definition graph_live :: "('m, 'q, 'r) waiting \<Rightarrow> bool" where
  "graph_live s \<longleftrightarrow> (\<forall>g\<in>set (cs_graph_gcs (wt_ctx s)). pc_gcs (wt_process s) g \<noteq> None)"

lemma still_gcs: "still s s' \<Longrightarrow> pc_gcs (wt_process s') g = None \<longleftrightarrow> pc_gcs (wt_process s) g = None"
  by (metis entity_uid_simps(4) option.map_disc_iff still_def)

lemma still_graph_live: "still s s' \<Longrightarrow> graph_live s' = graph_live s"
  using still_gcs[of s s'] unfolding graph_live_def by (simp add: still_def)

lemma generation_check_run:
  assumes "graph_live s"
  shows "\<exists>s'. run_generation_check s = Some s' \<and> still s s'"
proof -
  let ?p = "(wt_process s)\<lparr>pc_world := drain_doorbell (cs_doorbell_socket (wt_ctx s)) (pc_world (wt_process s))\<rparr>"
  have "\<forall>g\<in>set (cs_graph_gcs (wt_ctx s)). pc_gcs ?p g \<noteq> None" using assms by (simp add: graph_live_def)
  from trigger_all_run[OF this] show ?thesis
    by (auto simp: run_generation_check_def Let_def intro!: stillI)
qed

lemma wire_doorbell_still: "wire_doorbell sy ca s = (b, s') \<Longrightarrow> still s s'"
  by (auto simp: wire_doorbell_def Let_def split: prod.splits if_splits intro!: stillI)

lemma dispatch_entry_run:
  assumes "live s e"
  shows "\<exists>pg' s'. dispatch_entry sy index e pg s = Some (pg', s') \<and> still s s'"
proof (cases "ae_kind e")
  case ARMED_SUBSCRIPTION
  then show ?thesis using assms drain_sub_run[of s "ae_entity e" sy]
    by (auto simp: live_def dispatch_entry_def progressed_if_def)
next
  case ARMED_SERVICE
  then show ?thesis using assms drain_service_run[of s "ae_entity e" sy]
    by (auto simp: live_def dispatch_entry_def progressed_if_def)
next
  case ARMED_CLIENT
  then show ?thesis using assms drain_client_run[of s "ae_entity e" sy]
    by (auto simp: live_def dispatch_entry_def progressed_if_def)
next
  case ARMED_GUARD_CONDITION
  then show ?thesis using assms read_gc_run[of s "ae_entity e"]
    by (auto simp: live_def dispatch_entry_def)
next
  case ARMED_DOORBELL
  then show ?thesis by (simp add: dispatch_entry_def)
qed

lemma withdraw_still: "still s (withdraw fd s)"
  by (auto simp: withdraw_def map_le_def intro!: stillI)

definition armed_live :: "int set \<Rightarrow> ('m, 'q, 'r) waiting \<Rightarrow> bool" where
  "armed_live this s \<longleftrightarrow> (\<forall>fd\<in>this. \<forall>e. armed_of s fd = Some e \<longrightarrow> live s e)"

lemma still_armed_live: "still s s' \<Longrightarrow> armed_live this s \<Longrightarrow> armed_live this s'"
  unfolding armed_live_def using still_live[of s s'] by (fastforce simp: still_def map_le_def dom_def)

lemma dispatch_run:
  assumes "armed_live this s"
  shows "\<exists>pg' s'. dispatch sy index this fd pg s = Some (pg', s') \<and> still s s'"
  using assms dispatch_entry_run[of s _ sy index pg] withdraw_still[of s fd]
  by (auto simp: dispatch_def armed_live_def split: option.splits)

lemma dispatch_all_run:
  "armed_live this s \<Longrightarrow> \<exists>pg' s'. dispatch_all sy index this fds pg s = Some (pg', s') \<and> still s s'"
proof (induction fds arbitrary: pg s)
  case (Cons fd fds)
  obtain pg1 s1 where d: "dispatch sy index this fd pg s = Some (pg1, s1)" "still s s1"
    using dispatch_run[OF Cons.prems] by blast
  then show ?case using Cons.IH[OF still_armed_live[OF d(2) Cons.prems], of pg1] still_trans by fastforce
qed simp

lemma handle_events_run:
  assumes "armed_live this s" "graph_live s"
  shows "\<exists>b bs s'. handle_events sy index this fds bs0 s = Some (b, bs, s') \<and> still s s'"
proof -
  obtain pg s1 where d: "dispatch_all sy index this fds \<lparr>pg_progressed = False, pg_rang = False, pg_triggered = bs0\<rparr> s
      = Some (pg, s1)" "still s s1"
    using dispatch_all_run[OF assms(1)] by blast
  obtain s2 where "run_generation_check s1 = Some s2" "still s1 s2"
    using generation_check_run still_graph_live[OF d(2)] assms(2) by blast
  then show ?thesis using d by (auto simp: handle_events_def intro: still_trans)
qed

section \<open>What the callers own\<close>

text \<open>
  The precondition of a call: the pointers passed are live, the context lists only live guard
  conditions, and an armed entry whose identity is that of a live object names that object.
  Entries of destroyed objects may be armed.
\<close>

definition caller_has :: "caller_sets \<Rightarrow> armed_kind \<Rightarrow> nat \<Rightarrow> bool" where
  "caller_has ca k p \<longleftrightarrow>
     (case k of
        ARMED_SUBSCRIPTION \<Rightarrow> p \<in> set (ptrs (ca_subs ca))
      | ARMED_SERVICE \<Rightarrow> p \<in> set (ptrs (ca_services ca))
      | ARMED_CLIENT \<Rightarrow> p \<in> set (ptrs (ca_clients ca))
      | ARMED_GUARD_CONDITION \<Rightarrow> p \<in> set (ptrs (ca_gcs ca))
      | ARMED_DOORBELL \<Rightarrow> p = 0)"

definition callers_live :: "caller_sets \<Rightarrow> ('m, 'q, 'r) waiting \<Rightarrow> bool" where
  "callers_live ca s \<longleftrightarrow> (\<forall>k p. caller_has ca k p \<longrightarrow> entity_uid s k p \<noteq> None) \<and> graph_live s"

definition uid_sound :: "('m, 'q, 'r) waiting \<Rightarrow> bool" where
  "uid_sound s \<longleftrightarrow>
     (\<forall>fd e k p. armed_of s fd = Some e \<longrightarrow> entity_uid s k p = Some (ae_uid e) \<longrightarrow> ae_kind e = k \<and> ae_entity e = p)"

definition uids_unique :: "('m, 'q, 'r) waiting \<Rightarrow> bool" where
  "uids_unique s \<longleftrightarrow>
     (\<forall>k p k' p'. entity_uid s k p \<noteq> None \<longrightarrow> entity_uid s k p = entity_uid s k' p' \<longrightarrow> k = k' \<and> p = p')"

definition wait_ok :: "caller_sets \<Rightarrow> ('m, 'q, 'r) waiting \<Rightarrow> bool" where
  "wait_ok ca s \<longleftrightarrow> callers_live ca s \<and> uid_sound s \<and> uids_unique s"

lemma still_wait_ok:
  assumes "still s s'" "wait_ok ca s"
  shows "wait_ok ca s'"
proof -
  have "uid_sound s'" if "uid_sound s"
    using assms(1) that unfolding still_def uid_sound_def by (metis domI map_le_def)
  then show ?thesis
    using assms still_graph_live[OF assms(1)]
    by (simp add: wait_ok_def callers_live_def uids_unique_def) (simp add: still_def)
qed

text \<open>What the rest of the process may do while the wait is blocked.\<close>

definition calm :: "caller_sets \<Rightarrow> ('m, 'q, 'r) wake \<Rightarrow> bool" where
  "calm ca wk \<longleftrightarrow> (\<forall>s. wait_ok ca s \<longrightarrow> wait_ok ca (wk_env wk s) \<and> armed_of (wk_env wk s) = armed_of s)"

lemma caller_has_live: "callers_live ca s \<Longrightarrow> caller_has ca k p \<Longrightarrow> entity_uid s k p \<noteq> None"
  by (simp add: callers_live_def)

lemma caller_ptr_live:
  assumes "callers_live ca s"
  shows "p \<in> set (ptrs (ca_subs ca)) \<Longrightarrow> wt_subs s p \<noteq> None"
    "p \<in> set (ptrs (ca_services ca)) \<Longrightarrow> wt_services s p \<noteq> None"
    "p \<in> set (ptrs (ca_clients ca)) \<Longrightarrow> wt_clients s p \<noteq> None"
    "p \<in> set (ptrs (ca_gcs ca)) \<Longrightarrow> pc_gcs (wt_process s) p \<noteq> None"
  using caller_has_live[OF assms, of ARMED_SUBSCRIPTION p] caller_has_live[OF assms, of ARMED_SERVICE p]
    caller_has_live[OF assms, of ARMED_CLIENT p] caller_has_live[OF assms, of ARMED_GUARD_CONDITION p]
  by (simp_all add: caller_has_def)

section \<open>Arming\<close>

text \<open>A descriptor armed by this call has an entry of the caller's, or of the doorbell.\<close>

definition armed_for :: "caller_sets \<Rightarrow> int set \<Rightarrow> (int \<rightharpoonup> armed_entry) \<Rightarrow> bool" where
  "armed_for ca this armed \<longleftrightarrow>
     (\<forall>fd\<in>this. \<exists>e. armed fd = Some e \<and> caller_has ca (ae_kind e) (ae_entity e))"

text \<open>What the arming pass keeps, for entries that name live objects of the caller's.\<close>

definition arming_ok :: "caller_sets \<Rightarrow> ('m, 'q, 'r) waiting \<Rightarrow> arming \<Rightarrow> bool" where
  "arming_ok ca s a \<longleftrightarrow> armed_for ca (ar_this_call a) (ar_armed a) \<and>
     uid_sound (s\<lparr>wt_set := (wt_set s)\<lparr>ws_armed := ar_armed a\<rparr>\<rparr>) \<and>
     (\<forall>e\<in>set (ar_unarmed a). caller_has ca (ae_kind e) (ae_entity e))"

lemma entity_uid_wt_set [simp]: "entity_uid (s\<lparr>wt_set := ws\<rparr>) = entity_uid s"
  by (intro ext) (simp add: entity_uid_def split: armed_kind.split)

lemma register_fd_ok:
  assumes "arming_ok ca s a" "caller_has ca (ae_kind e) (ae_entity e)"
    "entity_uid s (ae_kind e) (ae_entity e) = Some (ae_uid e)" "uids_unique s"
  shows "arming_ok ca s (register_fd ctl (fd, e) a)"
proof -
  have known: "caller_has ca (ae_kind x) (ae_entity x)" if "ar_armed a fd = Some x" "ae_uid x = ae_uid e" for x
    using assms that unfolding arming_ok_def uid_sound_def by simp
  have "uid_sound (s\<lparr>wt_set := (wt_set s)\<lparr>ws_armed := (ar_armed a)(fd \<mapsto> e)\<rparr>\<rparr>)"
  proof (unfold uid_sound_def, intro allI impI)
    fix g x k p
    assume x: "ws_armed (wt_set (s\<lparr>wt_set := (wt_set s)\<lparr>ws_armed := (ar_armed a)(fd \<mapsto> e)\<rparr>\<rparr>)) g = Some x"
      "entity_uid (s\<lparr>wt_set := (wt_set s)\<lparr>ws_armed := (ar_armed a)(fd \<mapsto> e)\<rparr>\<rparr>) k p = Some (ae_uid x)"
    show "ae_kind x = k \<and> ae_entity x = p"
    proof (cases "g = fd")
      case True
      then have "x = e" "entity_uid s k p = Some (ae_uid e)" using x by simp_all
      then show ?thesis using assms(4)[unfolded uids_unique_def, rule_format, of "ae_kind e" "ae_entity e" k p] assms(3) by simp
    next
      case False
      then show ?thesis using x assms(1) by (simp add: arming_ok_def uid_sound_def)
    qed
  qed
  then show ?thesis
    using assms(1,2) known
    by (auto simp: register_fd_def Let_def arming_ok_def armed_for_def split: option.splits)
qed

lemma register_all_ok:
  "arming_ok ca s a \<Longrightarrow> uids_unique s \<Longrightarrow>
   \<forall>(fd, e)\<in>set xs. caller_has ca (ae_kind e) (ae_entity e) \<and> entity_uid s (ae_kind e) (ae_entity e) = Some (ae_uid e) \<Longrightarrow>
   arming_ok ca s (fold (register_fd ctl) xs a)"
proof (induction xs arbitrary: a)
  case (Cons x xs)
  obtain fd e where x: "x = (fd, e)" by (cases x)
  show ?case using Cons.IH[OF register_fd_ok] Cons.prems by (simp add: x)
qed simp

lemma watch_list_ok:
  assumes "callers_live ca s"
  shows "None \<notin> set (watch_list fd_of ca s)"
    "\<forall>(fd, e)\<in>set (map the (watch_list fd_of ca s)).
       caller_has ca (ae_kind e) (ae_entity e) \<and> entity_uid s (ae_kind e) (ae_entity e) = Some (ae_uid e)"
  using caller_ptr_live[OF assms]
  by (force simp: watch_list_def, force simp: watch_list_def caller_has_def)

lemma arm_all_run:
  assumes "wait_ok ca s"
  shows "\<exists>a. arm_all we ca s = Some a \<and> arming_ok ca s a"
proof -
  have "arming_ok ca s \<lparr>ar_armed = armed_of s, ar_this_call = {}, ar_unarmed = []\<rparr>"
    using assms by (simp add: arming_ok_def armed_for_def wait_ok_def)
  moreover have "uids_unique s" "callers_live ca s" using assms by (simp_all add: wait_ok_def)
  ultimately show ?thesis
    using register_all_ok[OF _ _ watch_list_ok(2)] watch_list_ok(1)[of ca s "wv_fd we"]
    unfolding arm_all_def Let_def by (metis (no_types))
qed

lemma caller_entry_live: "callers_live ca s \<Longrightarrow> caller_has ca (ae_kind e) (ae_entity e) \<Longrightarrow> live s e"
  by (simp add: callers_live_def live_def)

lemma drain_unarmed_run:
  "wait_ok ca s \<Longrightarrow> \<forall>e\<in>set es. caller_has ca (ae_kind e) (ae_entity e) \<Longrightarrow>
   \<exists>s'. drain_unarmed sy es s = Some s' \<and> still s s'"
proof (induction es arbitrary: s)
  case (Cons e es)
  have l: "live s e" using Cons.prems by (intro caller_entry_live[of ca]) (simp_all add: wait_ok_def)
  have "\<exists>s1. (case ae_kind e of
              ARMED_SUBSCRIPTION \<Rightarrow> map_option snd (drain_sub sy (ae_entity e) s)
            | ARMED_SERVICE \<Rightarrow> map_option snd (drain_service sy (ae_entity e) s)
            | ARMED_CLIENT \<Rightarrow> map_option snd (drain_client sy (ae_entity e) s)
            | _ \<Rightarrow> Some s) = Some s1 \<and> still s s1"
    using l drain_sub_run[of s "ae_entity e" sy] drain_service_run[of s "ae_entity e" sy]
      drain_client_run[of s "ae_entity e" sy]
    by (cases "ae_kind e") (auto simp: live_def)
  then obtain s1 where s1: "(case ae_kind e of
              ARMED_SUBSCRIPTION \<Rightarrow> map_option snd (drain_sub sy (ae_entity e) s)
            | ARMED_SERVICE \<Rightarrow> map_option snd (drain_service sy (ae_entity e) s)
            | ARMED_CLIENT \<Rightarrow> map_option snd (drain_client sy (ae_entity e) s)
            | _ \<Rightarrow> Some s) = Some s1" "still s s1" by blast
  obtain s2 where "drain_unarmed sy es s1 = Some s2" "still s1 s2"
    using Cons.IH[OF still_wait_ok[OF s1(2) Cons.prems(1)]] Cons.prems(2) by auto
  then show ?case using s1 still_trans by (simp only: drain_unarmed.simps option.case) blast
qed simp

section \<open>Reading guard conditions\<close>

lemma in_ptrs: "p \<in> set (ptrs a) \<longleftrightarrow> Some p \<in> set (elems a)"
  by (force simp: ptrs_def)

lemma read_gcs_run:
  "\<forall>g. Some g \<in> set gs \<longrightarrow> pc_gcs (wt_process s) g \<noteq> None \<Longrightarrow>
   \<exists>bs s'. read_gcs gs s = Some (bs, s') \<and> still s s' \<and> length bs = length gs"
proof (induction gs s rule: read_gcs.induct)
  case (3 g gs s)
  obtain got s1 where r: "read_gc g s = Some (got, s1)" "still s s1"
    using read_gc_run[of s g] 3(2) by auto
  have "\<forall>h. Some h \<in> set gs \<longrightarrow> pc_gcs (wt_process s1) h \<noteq> None"
    using 3(2) still_gcs[OF r(2)] by auto
  from 3(1)[OF r(1) refl this] obtain bs s2 where "read_gcs gs s1 = Some (bs, s2)" "still s1 s2" "length bs = length gs"
    by blast
  then show ?case using r still_trans by fastforce
qed auto

lemma keep_triggered_run:
  "\<forall>g. Some g \<in> set gs \<longrightarrow> pc_gcs (wt_process s) g \<noteq> None \<Longrightarrow>
   \<exists>out any s'. keep_triggered gs bs s = Some (out, any, s') \<and> still s s' \<and> length out = length gs"
proof (induction gs bs s rule: keep_triggered.induct)
  case (3 g gs bs s)
  obtain got s1 where r: "read_gc g s = Some (got, s1)" "still s s1"
    using read_gc_run[of s g] 3(2) by auto
  have "\<forall>h. Some h \<in> set gs \<longrightarrow> pc_gcs (wt_process s1) h \<noteq> None"
    using 3(2) still_gcs[OF r(2)] by auto
  from 3(1)[OF r(1) refl refl this] obtain out any s2
    where "keep_triggered gs (tl bs) s1 = Some (out, any, s2)" "still s1 s2" "length out = length gs" by blast
  then show ?case using r still_trans by fastforce
qed auto

lemma callers_live_gcs: "callers_live ca s \<Longrightarrow> \<forall>g. Some g \<in> set (elems (ca_gcs ca)) \<longrightarrow> pc_gcs (wt_process s) g \<noteq> None"
  using caller_ptr_live(4) by (fastforce simp: in_ptrs)

lemma queues_ready_run:
  assumes "callers_live ca s"
  shows "queues_ready su_inbox (wt_subs s) (ca_subs ca) \<noteq> None"
    "queues_ready ep_inbox (wt_services s) (ca_services ca) \<noteq> None"
    "queues_ready ep_inbox (wt_clients s) (ca_clients ca) \<noteq> None"
  using caller_ptr_live[OF assms] by (auto simp: queues_ready_def list_ex_iff)

lemma check_ready_run:
  assumes "callers_live ca s"
  shows "\<exists>b bs s'. check_ready ca s = Some (b, bs, s') \<and> still s s' \<and> length bs = length (elems (ca_gcs ca))"
  using queues_ready_run[OF assms] read_gcs_run[OF callers_live_gcs[OF assms]]
  by (auto simp: check_ready_def)

lemma outputs_run:
  assumes "callers_live ca s"
  shows "\<exists>ca' any s'. outputs ca bs s = Some (ca', any, s') \<and> still s s'"
proof -
  have "\<not> (dangles (wt_subs s) (ca_subs ca) \<or> dangles (wt_services s) (ca_services ca) \<or> dangles (wt_clients s) (ca_clients ca))"
    using caller_ptr_live[OF assms] by (auto simp: dangles_def list_ex_iff)
  then show ?thesis
    using keep_triggered_run[OF callers_live_gcs[OF assms], of bs] by (auto simp: outputs_def Let_def split: prod.splits)
qed

section \<open>The loop\<close>

definition loop_ok :: "caller_sets \<Rightarrow> int set \<Rightarrow> ('m, 'q, 'r) waiting \<Rightarrow> bool" where
  "loop_ok ca this s \<longleftrightarrow> wait_ok ca s \<and>
     (\<forall>fd\<in>this. \<forall>e. armed_of s fd = Some e \<longrightarrow> caller_has ca (ae_kind e) (ae_entity e))"

lemma loop_ok_live: "loop_ok ca this s \<Longrightarrow> armed_live this s \<and> graph_live s"
  unfolding loop_ok_def armed_live_def wait_ok_def using caller_entry_live[of ca s] by (auto simp only: callers_live_def)

lemma still_loop_ok: "still s s' \<Longrightarrow> loop_ok ca this s \<Longrightarrow> loop_ok ca this s'"
  using still_wait_ok[of s s' ca] by (fastforce simp: loop_ok_def still_def map_le_def dom_def)

lemma calm_loop_ok: "calm ca wk \<Longrightarrow> loop_ok ca this s \<Longrightarrow> loop_ok ca this (wk_env wk s)"
  by (simp add: loop_ok_def calm_def)

lemma epoll_loop_ready:
  assumes "start = now + int (wk_delay wk)" "ms = block_ms poll_only deadline degraded start"
    "after = start + int (wk_elapsed wk ms)"
  assumes "wk_result wk ms = Epoll_ready fds" "fds \<noteq> []"
    "handle_events (wk_sys wk) index this fds bs (wk_env wk s) = Some (b, bs2, s2)"
  shows "epoll_loop poll_only deadline degraded index this (wk # wakes) now bs s =
    (if (if poll_only then length fds = epoll_batch
         else \<not> b \<and> (case deadline of None \<Rightarrow> True | Some d \<Rightarrow> after < d) \<and> \<not> degraded)
     then epoll_loop poll_only deadline degraded index this wakes after bs2 s2 else Left after bs2 s2)"
  using assms by (auto simp: Let_def split: option.splits)

lemma epoll_loop_run:
  "loop_ok ca this s \<Longrightarrow> \<forall>wk\<in>set wakes. calm ca wk \<Longrightarrow>
   (case epoll_loop poll_only deadline degraded index this wakes now bs s of
      Still_blocked \<Rightarrow> True | Dangling \<Rightarrow> False | Epoll_error s' \<Rightarrow> wait_ok ca s' | Left now' bs' s' \<Rightarrow> wait_ok ca s')"
proof (induction wakes arbitrary: now bs s)
  case (Cons wk wakes)
  have ok: "loop_ok ca this (wk_env wk s)" using calm_loop_ok[OF _ Cons.prems(1)] Cons.prems(2) by simp
  have w: "wait_ok ca (wk_env wk s)" using ok by (simp add: loop_ok_def)
  show ?case
  proof (cases "wk_result wk (block_ms poll_only deadline degraded (now + int (wk_delay wk)))")
    case (Epoll_ready fds)
    obtain b bs2 s2 where h: "handle_events (wk_sys wk) index this fds bs (wk_env wk s) = Some (b, bs2, s2)"
      "still (wk_env wk s) s2"
      using handle_events_run loop_ok_live[OF ok] by blast
    have ok2: "loop_ok ca this s2" "wait_ok ca s2" using still_loop_ok[OF h(2) ok] by (simp_all add: loop_ok_def)
    have calm: "\<forall>wk\<in>set wakes. calm ca wk" using Cons.prems(2) by simp
    show ?thesis
    proof (cases "fds = []")
      case True
      then show ?thesis using w by (simp add: Epoll_ready Let_def)
    next
      case False
      show ?thesis
        using Cons.IH[OF ok2(1) calm, of _ bs2] ok2(2)
        unfolding epoll_loop_ready[OF refl refl refl Epoll_ready False h(1)] by (simp del: epoll_loop.simps)
    qed
  qed (use Cons ok w in \<open>simp_all add: Let_def\<close>)
qed simp

text \<open>The stages of a call up to the loop, with the state after each.\<close>

lemma wait_stages:
  assumes "wait_ok ca s" "hn_identifier h = uds_identifier" "wt_set s = hn_data h"
  obtains unwired s1 s2 a s4 b bs s5 where
    "wire_doorbell (wv_sys we) ca s = (unwired, s1)"
    "run_generation_check s1 = Some s2" "arm_all we ca s2 = Some a" "arming_ok ca s2 a"
    "drain_unarmed (wv_sys we) (ar_unarmed a) (s2\<lparr>wt_set := (wt_set s2)\<lparr>ws_armed := ar_armed a\<rparr>\<rparr>) = Some s4"
    "check_ready ca s4 = Some (b, bs, s5)" "length bs = length (elems (ca_gcs ca))" "loop_ok ca (ar_this_call a) s5"
    "still s s1" "still s1 s2" "still (s2\<lparr>wt_set := (wt_set s2)\<lparr>ws_armed := ar_armed a\<rparr>\<rparr>) s4" "still s4 s5"
    "rmw_wait we ca (Some h) wait_timeout s =
       finish_wait (wv_tail we) (wait_deadline (wv_now we) wait_timeout) ca
         (epoll_loop b (wait_deadline (wv_now we) wait_timeout) (unwired \<or> ar_unarmed a \<noteq> [])
            (gc_index (elems (ca_gcs ca))) (ar_this_call a) (wv_wakes we) (wv_now we) bs s5)"
proof -
  have s: "s\<lparr>wt_set := hn_data h\<rparr> = s" using assms(3)[symmetric] by simp
  obtain unwired s1 where w1: "wire_doorbell (wv_sys we) ca s = (unwired, s1)" by fastforce
  note st1 = wire_doorbell_still[OF w1]
  note ok1 = still_wait_ok[OF st1 assms(1)]
  then obtain s2 where g: "run_generation_check s1 = Some s2" "still s1 s2"
    using generation_check_run[of s1] by (auto simp: wait_ok_def callers_live_def)
  note ok2 = still_wait_ok[OF g(2) ok1]
  then obtain a where a: "arm_all we ca s2 = Some a" "arming_ok ca s2 a" using arm_all_run by blast
  define s3 where "s3 = s2\<lparr>wt_set := (wt_set s2)\<lparr>ws_armed := ar_armed a\<rparr>\<rparr>"
  have ok3: "wait_ok ca s3" "loop_ok ca (ar_this_call a) s3"
    using ok2 a(2) by (auto simp: s3_def loop_ok_def wait_ok_def callers_live_def uids_unique_def arming_ok_def
        armed_for_def graph_live_def)
  obtain s4 where u: "drain_unarmed (wv_sys we) (ar_unarmed a) s3 = Some s4" "still s3 s4"
    using drain_unarmed_run[OF ok3(1), of "ar_unarmed a" "wv_sys we"] a(2) unfolding arming_ok_def by blast
  obtain b bs s5 where c: "check_ready ca s4 = Some (b, bs, s5)" "still s4 s5" "length bs = length (elems (ca_gcs ca))"
    using check_ready_run[of ca s4] still_wait_ok[OF u(2) ok3(1)] unfolding wait_ok_def by blast
  have ok5: "loop_ok ca (ar_this_call a) s5"
    using still_loop_ok[OF c(2)] still_loop_ok[OF u(2) ok3(2)] by blast
  show ?thesis
    by (rule that[OF w1 g(1) a u(1)[unfolded s3_def] c(1,3) ok5 st1 g(2) u(2)[unfolded s3_def] c(2)])
      (simp add: rmw_wait_def guard_entry_def assms(2) s wait_on_def w1 g(1) a(1) s3_def[symmetric] u(1) c(1) Let_def)
qed

text \<open>
  C2: \<^verbatim>\<open>rmw_wait\<close> never uses a destroyed object. The wait set may remember any number of
  entities destroyed since, their descriptors may have been reused, the kernel may report
  any descriptors in any order, watches may fail, and the rest of the process may create and
  destroy everything the caller does not wait on: as long as the pointers passed stay live
  the call is defined, and the wait set it leaves is as sound as the one it got.
\<close>

theorem wait_touches_only_live:
  assumes "wait_ok ca s" "wt_set s = hn_data h" "\<forall>wk\<in>set (wv_wakes we). calm ca wk"
  shows "case rmw_wait we ca (Some h) wait_timeout s of
           Wait_blocked \<Rightarrow> True | Wait_undefined \<Rightarrow> False | Wait_returned r clock ca' s' \<Rightarrow> wait_ok ca s'"
proof (cases "hn_identifier h = uds_identifier")
  case False
  then show ?thesis using assms(1) by (simp add: rmw_wait_def guard_entry_def)
next
  case True
  obtain unwired b bs s5 and a :: arming where l: "loop_ok ca (ar_this_call a) s5"
    "rmw_wait we ca (Some h) wait_timeout s =
       finish_wait (wv_tail we) (wait_deadline (wv_now we) wait_timeout) ca
         (epoll_loop b (wait_deadline (wv_now we) wait_timeout) (unwired \<or> ar_unarmed a \<noteq> [])
            (gc_index (elems (ca_gcs ca))) (ar_this_call a) (wv_wakes we) (wv_now we) bs s5)"
    by (rule wait_stages[OF assms(1) True assms(2), of we wait_timeout], rule that, assumption+)
  define e where "e = epoll_loop b (wait_deadline (wv_now we) wait_timeout) (unwired \<or> ar_unarmed a \<noteq> [])
            (gc_index (elems (ca_gcs ca))) (ar_this_call a) (wv_wakes we) (wv_now we) bs s5"
  have run: "case e of Still_blocked \<Rightarrow> True | Dangling \<Rightarrow> False | Epoll_error s' \<Rightarrow> wait_ok ca s' | Left now' bs' s' \<Rightarrow> wait_ok ca s'"
    unfolding e_def by (rule epoll_loop_run[OF l(1) assms(3)])
  show ?thesis
  proof (cases e)
    case (Left now' bs' s')
    obtain ca' any s'' where "outputs ca bs' s' = Some (ca', any, s'')" "still s' s''"
      using outputs_run[of ca s' bs'] run Left by (auto simp: wait_ok_def)
    then show ?thesis using run still_wait_ok[of s' s'' ca] by (simp add: l(2) e_def[symmetric] Left finish_wait_def)
  qed (use run in \<open>simp_all add: l(2) e_def[symmetric] finish_wait_def\<close>)
qed

end
