(* ===== verification/Uds_Wait_Results.thy ===== *)
theory Uds_Wait_Results
  imports Uds_Wait_Props
begin

text \<open>
  What a wait reports: it returns with something to take, or at the caller's own deadline with
  nothing, and a trigger of a guard condition is never lost.
\<close>

section \<open>Queues only grow\<close>

definition has_work :: "('m, 'q, 'r) waiting \<Rightarrow> armed_kind \<Rightarrow> nat \<Rightarrow> bool" where
  "has_work s k p =
     (case k of
        ARMED_SUBSCRIPTION \<Rightarrow> (\<exists>x. wt_subs s p = Some x \<and> ib_queue (su_inbox x) \<noteq> [])
      | ARMED_SERVICE \<Rightarrow> (\<exists>x. wt_services s p = Some x \<and> ib_queue (ep_inbox x) \<noteq> [])
      | ARMED_CLIENT \<Rightarrow> (\<exists>x. wt_clients s p = Some x \<and> ib_queue (ep_inbox x) \<noteq> [])
      | _ \<Rightarrow> False)"

lemma has_work_simps [simp]:
  "has_work s ARMED_SUBSCRIPTION p \<longleftrightarrow> (\<exists>x. wt_subs s p = Some x \<and> ib_queue (su_inbox x) \<noteq> [])"
  "has_work s ARMED_SERVICE p \<longleftrightarrow> (\<exists>x. wt_services s p = Some x \<and> ib_queue (ep_inbox x) \<noteq> [])"
  "has_work s ARMED_CLIENT p \<longleftrightarrow> (\<exists>x. wt_clients s p = Some x \<and> ib_queue (ep_inbox x) \<noteq> [])"
  "\<not> has_work s ARMED_GUARD_CONDITION p" "\<not> has_work s ARMED_DOORBELL p"
  by (simp_all add: has_work_def)

text \<open>Every subscription keeps at least one message; creation resolves a depth of zero to ten.\<close>

definition deep :: "('m, 'q, 'r) waiting \<Rightarrow> bool" where
  "deep s \<longleftrightarrow> (\<forall>p x. wt_subs s p = Some x \<longrightarrow> 0 < su_queue_depth x)"

definition grows :: "('m, 'q, 'r) waiting \<Rightarrow> ('m, 'q, 'r) waiting \<Rightarrow> bool" where
  "grows s s' \<longleftrightarrow> (deep s \<longrightarrow> deep s' \<and> (\<forall>k p. has_work s k p \<longrightarrow> has_work s' k p))"

lemma grows_refl [simp]: "grows s s"
  by (simp add: grows_def)

lemma grows_trans: "grows s s1 \<Longrightarrow> grows s1 s2 \<Longrightarrow> grows s s2"
  by (auto simp: grows_def)

lemma grows_same:
  assumes "wt_subs s' = wt_subs s" "wt_services s' = wt_services s" "wt_clients s' = wt_clients s"
  shows "grows s s'"
proof -
  have "has_work s' k p = has_work s k p" for k p by (cases k) (simp_all add: assms)
  then show ?thesis by (simp add: grows_def deep_def assms(1))
qed

lemma kept_nonempty: "depth \<noteq> Some 0 \<Longrightarrow> xs \<noteq> [] \<Longrightarrow> kept depth xs \<noteq> []"
  by (cases depth; cases xs) (auto simp: kept_def lastn_def)

lemma drain_queue_grows:
  assumes "drain sy cfg sock ib w = (ib', n, w')" "ib_queue ib \<noteq> []" "dc_depth cfg \<noteq> Some 0"
  shows "ib_queue ib' \<noteq> []"
proof -
  obtain ib1 q' buf' k where l: "drain_loop (sy_reader sy) (wo_fs w) cfg (sy_now_ns sy) (sy_rounds sy)
      (wo_recv_buf w) (nt_queue (wo_net w) sock) ib = (ib1, q', buf', k)"
    by (cases "drain_loop (sy_reader sy) (wo_fs w) cfg (sy_now_ns sy) (sy_rounds sy)
      (wo_recv_buf w) (nt_queue (wo_net w) sock) ib")
  have "ib' = ib1" using assms(1) by (simp add: drain_def l)
  moreover obtain ms where "ib_queue ib1 = (if ms = [] then ib_queue ib else kept (dc_depth cfg) (ib_queue ib @ ms))"
    using drain_loop_sound[OF l] by blast
  ultimately show ?thesis using kept_nonempty[OF assms(3), of "ib_queue ib @ ms"] assms(2) by simp
qed

lemma drain_sub_grows:
  assumes "drain_sub sy p s = Some (b, s')"
  shows "grows s s'" "b \<Longrightarrow> has_work s' ARMED_SUBSCRIPTION p"
proof -
  obtain x where x: "wt_subs s p = Some x" using assms by (auto simp: drain_sub_def split: option.splits)
  obtain ib n w where d: "drain sy (sub_cfg x) (su_socket x) (su_inbox x) (pc_world (wt_process s)) = (ib, n, w)"
    by (cases "drain sy (sub_cfg x) (su_socket x) (su_inbox x) (pc_world (wt_process s))")
  have r: "b \<longleftrightarrow> ib_queue ib \<noteq> []" "wt_subs s' = (wt_subs s)(p \<mapsto> x\<lparr>su_inbox := ib\<rparr>)"
    "wt_services s' = wt_services s" "wt_clients s' = wt_clients s"
    using assms by (auto simp: drain_sub_def x d)
  show "b \<Longrightarrow> has_work s' ARMED_SUBSCRIPTION p" using r by simp
  have "has_work s' k q" if "deep s" "has_work s k q" for k q
    using that r drain_queue_grows[OF d] x by (cases k) (auto simp: deep_def sub_cfg_def)
  moreover have "deep s'" if "deep s" using that r(2) x by (auto simp: deep_def)
  ultimately show "grows s s'" by (simp add: grows_def)
qed

lemma drain_service_grows:
  assumes "drain_service sy p s = Some (b, s')"
  shows "grows s s'" "b \<Longrightarrow> has_work s' ARMED_SERVICE p"
proof -
  obtain x where x: "wt_services s p = Some x" using assms by (auto simp: drain_service_def split: option.splits)
  obtain ib n w where d: "drain sy (rpc_wait_cfg MSG_REQUEST x) (ep_socket x) (ep_inbox x) (pc_world (wt_process s)) = (ib, n, w)"
    by (cases "drain sy (rpc_wait_cfg MSG_REQUEST x) (ep_socket x) (ep_inbox x) (pc_world (wt_process s))")
  have r: "b \<longleftrightarrow> ib_queue ib \<noteq> []" "wt_services s' = (wt_services s)(p \<mapsto> x\<lparr>ep_inbox := ib\<rparr>)"
    "wt_subs s' = wt_subs s" "wt_clients s' = wt_clients s"
    using assms by (auto simp: drain_service_def x d)
  show "b \<Longrightarrow> has_work s' ARMED_SERVICE p" using r by simp
  have "has_work s' k q" if "has_work s k q" for k q
    using that r drain_queue_grows[OF d] x by (cases k) (auto simp: rpc_wait_cfg_def wait_depth_def)
  then show "grows s s'" using r(3) by (simp add: grows_def deep_def)
qed

lemma drain_client_grows:
  assumes "drain_client sy p s = Some (b, s')"
  shows "grows s s'" "b \<Longrightarrow> has_work s' ARMED_CLIENT p"
proof -
  obtain x where x: "wt_clients s p = Some x" using assms by (auto simp: drain_client_def split: option.splits)
  obtain ib n w where d: "drain sy (rpc_wait_cfg MSG_RESPONSE x) (ep_socket x) (ep_inbox x) (pc_world (wt_process s)) = (ib, n, w)"
    by (cases "drain sy (rpc_wait_cfg MSG_RESPONSE x) (ep_socket x) (ep_inbox x) (pc_world (wt_process s))")
  have r: "b \<longleftrightarrow> ib_queue ib \<noteq> []" "wt_clients s' = (wt_clients s)(p \<mapsto> x\<lparr>ep_inbox := ib\<rparr>)"
    "wt_subs s' = wt_subs s" "wt_services s' = wt_services s"
    using assms by (auto simp: drain_client_def x d)
  show "b \<Longrightarrow> has_work s' ARMED_CLIENT p" using r by simp
  have "has_work s' k q" if "has_work s k q" for k q
    using that r drain_queue_grows[OF d] x by (cases k) (auto simp: rpc_wait_cfg_def wait_depth_def)
  then show "grows s s'" using r(3) by (simp add: grows_def deep_def)
qed

lemma read_gc_grows: "read_gc g s = Some (got, s') \<Longrightarrow> grows s s'"
  by (rule grows_same) (auto simp: read_gc_def split: if_splits prod.splits)

lemma generation_check_grows: "run_generation_check s = Some s' \<Longrightarrow> grows s s'"
  by (rule grows_same) (auto simp: run_generation_check_def Let_def split: if_splits option.splits)

lemma withdraw_grows: "grows s (withdraw fd s)"
  by (rule grows_same) (simp_all add: withdraw_def)

lemma drain_unarmed_grows: "drain_unarmed sy es s = Some s' \<Longrightarrow> grows s s'"
proof (induction es arbitrary: s)
  case (Cons e es)
  then obtain s1 where s1: "(case ae_kind e of
              ARMED_SUBSCRIPTION \<Rightarrow> map_option snd (drain_sub sy (ae_entity e) s)
            | ARMED_SERVICE \<Rightarrow> map_option snd (drain_service sy (ae_entity e) s)
            | ARMED_CLIENT \<Rightarrow> map_option snd (drain_client sy (ae_entity e) s)
            | _ \<Rightarrow> Some s) = Some s1" "drain_unarmed sy es s1 = Some s'"
    by (simp only: drain_unarmed.simps split: option.splits) blast
  have "grows s s1"
    using s1(1) drain_sub_grows(1) drain_service_grows(1) drain_client_grows(1)
    by (cases "ae_kind e") (auto, blast+)
  then show ?case using Cons.IH[OF s1(2)] grows_trans by blast
qed simp

section \<open>Something to report\<close>

lemma gc_index_from_Some:
  "gc_index_from i xs g = Some j \<Longrightarrow> i \<le> j \<and> j < i + length xs \<and> xs ! (j - i) = Some g"
proof (induction xs arbitrary: i)
  case (Cons x xs)
  show ?case
  proof (cases "gc_index_from (Suc i) xs g")
    case None
    then show ?thesis using Cons.prems by (auto split: option.splits if_splits)
  next
    case (Some k)
    then have "k = j" using Cons.prems by (simp split: option.splits)
    then show ?thesis using Cons.IH[OF Some[unfolded \<open>k = j\<close>]] by (simp add: nth_Cons')
  qed
qed simp

lemma gc_index_Some: "gc_index xs g = Some j \<Longrightarrow> j < length xs \<and> xs ! j = Some g"
  using gc_index_from_Some[of 0 xs g j] by simp

lemma gc_index_from_None: "gc_index_from i xs g = None \<longleftrightarrow> Some g \<notin> set xs"
proof (induction xs arbitrary: i)
  case (Cons x xs)
  show ?case using Cons.IH[of "Suc i"] by (cases x; cases "gc_index_from (Suc i) xs g") auto
qed simp

text \<open>The caller waits on something that is ready, by its queue or by a trigger already read.\<close>

definition triggered_at :: "caller_sets \<Rightarrow> bool list \<Rightarrow> nat \<Rightarrow> bool" where
  "triggered_at ca bs i \<longleftrightarrow> i < length bs \<and> i < length (elems (ca_gcs ca)) \<and> bs ! i \<and> elems (ca_gcs ca) ! i \<noteq> None"

definition reportable :: "caller_sets \<Rightarrow> bool list \<Rightarrow> ('m, 'q, 'r) waiting \<Rightarrow> bool" where
  "reportable ca bs s \<longleftrightarrow> (\<exists>k p. caller_has ca k p \<and> has_work s k p) \<or> (\<exists>i. triggered_at ca bs i)"

text \<open>From one state of the loop to the next: bits and queues only grow.\<close>

definition advances :: "caller_sets \<Rightarrow> bool list \<Rightarrow> ('m, 'q, 'r) waiting \<Rightarrow> bool list \<Rightarrow> ('m, 'q, 'r) waiting \<Rightarrow> bool" where
  "advances ca bs s bs' s' \<longleftrightarrow> grows s s' \<and> length bs' = length bs \<and> (\<forall>i. triggered_at ca bs i \<longrightarrow> triggered_at ca bs' i)"

lemma advances_refl [simp]: "advances ca bs s bs s"
  by (simp add: advances_def)

lemma advances_trans: "advances ca bs s bs1 s1 \<Longrightarrow> advances ca bs1 s1 bs2 s2 \<Longrightarrow> advances ca bs s bs2 s2"
  using grows_trans by (auto simp: advances_def)

lemma advances_reportable: "advances ca bs s bs' s' \<Longrightarrow> deep s \<Longrightarrow> reportable ca bs s \<Longrightarrow> reportable ca bs' s'"
  by (auto simp: advances_def reportable_def grows_def)

lemma advances_grows: "grows s s' \<Longrightarrow> advances ca bs s bs s'"
  by (simp add: advances_def)

lemma dispatch_entry_advances:
  assumes "dispatch_entry sy (gc_index (elems (ca_gcs ca))) e pg s = Some (pg', s')"
    "length (pg_triggered pg) = length (elems (ca_gcs ca))"
  shows "advances ca (pg_triggered pg) s (pg_triggered pg') s'"
    "caller_has ca (ae_kind e) (ae_entity e) \<Longrightarrow> pg_progressed pg' \<Longrightarrow> pg_progressed pg \<or> reportable ca (pg_triggered pg') s'"
proof -
  have queue: "advances ca (pg_triggered pg) s (pg_triggered pg') s' \<and>
      (caller_has ca k p \<longrightarrow> pg_progressed pg' \<longrightarrow> pg_progressed pg \<or> reportable ca (pg_triggered pg') s')"
    if "progressed_if (Some (b, s1)) pg = Some (pg', s')" "grows s s1" "b \<Longrightarrow> has_work s1 k p" for b s1 k p
    using that by (auto simp: progressed_if_def advances_def reportable_def split: if_splits)
  have "advances ca (pg_triggered pg) s (pg_triggered pg') s' \<and>
      (caller_has ca (ae_kind e) (ae_entity e) \<longrightarrow> pg_progressed pg' \<longrightarrow> pg_progressed pg \<or> reportable ca (pg_triggered pg') s')"
  proof (cases "ae_kind e")
    case ARMED_SUBSCRIPTION
    then obtain b s1 where r: "drain_sub sy (ae_entity e) s = Some (b, s1)"
      using assms(1) by (auto simp: dispatch_entry_def progressed_if_def split: option.splits)
    then show ?thesis
      using queue[of b s1 ARMED_SUBSCRIPTION "ae_entity e", OF _ drain_sub_grows[OF r]] assms(1) by (simp add: dispatch_entry_def ARMED_SUBSCRIPTION r)
  next
    case ARMED_SERVICE
    then obtain b s1 where r: "drain_service sy (ae_entity e) s = Some (b, s1)"
      using assms(1) by (auto simp: dispatch_entry_def progressed_if_def split: option.splits)
    then show ?thesis
      using queue[of b s1 ARMED_SERVICE "ae_entity e", OF _ drain_service_grows[OF r]] assms(1) by (simp add: dispatch_entry_def ARMED_SERVICE r)
  next
    case ARMED_CLIENT
    then obtain b s1 where r: "drain_client sy (ae_entity e) s = Some (b, s1)"
      using assms(1) by (auto simp: dispatch_entry_def progressed_if_def split: option.splits)
    then show ?thesis
      using queue[of b s1 ARMED_CLIENT "ae_entity e", OF _ drain_client_grows[OF r]] assms(1) by (simp add: dispatch_entry_def ARMED_CLIENT r)
  next
    case ARMED_GUARD_CONDITION
    then obtain got s1 where r: "read_gc (ae_entity e) s = Some (got, s1)"
      using assms(1) by (auto simp: dispatch_entry_def split: option.splits)
    have s: "s' = s1" "\<not> got \<Longrightarrow> pg' = pg" "got \<Longrightarrow> pg_triggered pg' = (case gc_index (elems (ca_gcs ca)) (ae_entity e) of
                                                None \<Rightarrow> pg_triggered pg | Some i \<Rightarrow> (pg_triggered pg)[i := True])"
      using assms(1) by (auto simp: dispatch_entry_def ARMED_GUARD_CONDITION r)
    have mono: "triggered_at ca bs i \<Longrightarrow> triggered_at ca (bs[j := True]) i" for bs i j
      by (cases "j < length bs") (auto simp: triggered_at_def nth_list_update)
    have adv: "advances ca (pg_triggered pg) s (pg_triggered pg') s'"
      using read_gc_grows[OF r] mono s by (cases got) (auto simp: advances_def split: option.splits)
    have "reportable ca (pg_triggered pg') s'" if has: "caller_has ca (ae_kind e) (ae_entity e)" and got: got
    proof -
      obtain i where "gc_index (elems (ca_gcs ca)) (ae_entity e) = Some i"
        using has gc_index_from_None[of 0 "elems (ca_gcs ca)" "ae_entity e"]
        by (auto simp: caller_has_def ARMED_GUARD_CONDITION in_ptrs)
      then have "triggered_at ca (pg_triggered pg') i"
        using s(3)[OF got] gc_index_Some[of "elems (ca_gcs ca)" "ae_entity e" i] assms(2) by (simp add: triggered_at_def)
      then show ?thesis by (auto simp: reportable_def)
    qed
    then show ?thesis using adv s(2) by blast
  next
    case ARMED_DOORBELL
    then show ?thesis using assms(1) by (auto simp: dispatch_entry_def)
  qed
  then show "advances ca (pg_triggered pg) s (pg_triggered pg') s'"
    "caller_has ca (ae_kind e) (ae_entity e) \<Longrightarrow> pg_progressed pg' \<Longrightarrow> pg_progressed pg \<or> reportable ca (pg_triggered pg') s'"
    by simp_all
qed

lemma dispatch_advances:
  assumes "dispatch sy (gc_index (elems (ca_gcs ca))) this fd pg s = Some (pg', s')" "loop_ok ca this s"
    "length (pg_triggered pg) = length (elems (ca_gcs ca))"
  shows "advances ca (pg_triggered pg) s (pg_triggered pg') s' \<and>
    (pg_progressed pg' \<longrightarrow> pg_progressed pg \<or> reportable ca (pg_triggered pg') s')"
  using assms dispatch_entry_advances[of sy ca _ pg s pg' s'] withdraw_grows[of s fd]
  by (auto simp: dispatch_def loop_ok_def advances_def split: option.splits if_splits)

lemma dispatch_all_advances:
  assumes "dispatch_all sy (gc_index (elems (ca_gcs ca))) this fds pg s = Some (pg', s')" "loop_ok ca this s"
    "length (pg_triggered pg) = length (elems (ca_gcs ca))" "deep s" "pg_progressed pg \<Longrightarrow> reportable ca (pg_triggered pg) s"
  shows "advances ca (pg_triggered pg) s (pg_triggered pg') s' \<and> (pg_progressed pg' \<longrightarrow> reportable ca (pg_triggered pg') s')"
  using assms
proof (induction fds arbitrary: pg s)
  case (Cons fd fds)
  obtain pg1 s1 where d: "dispatch sy (gc_index (elems (ca_gcs ca))) this fd pg s = Some (pg1, s1)"
    "dispatch_all sy (gc_index (elems (ca_gcs ca))) this fds pg1 s1 = Some (pg', s')"
    using Cons.prems(1) by (auto split: option.splits)
  have st: "still s s1" using dispatch_run[of this s sy "gc_index (elems (ca_gcs ca))" fd pg] loop_ok_live[OF Cons.prems(2)] d(1) by auto
  note a = dispatch_advances[OF d(1) Cons.prems(2,3)]
  have "deep s1" "length (pg_triggered pg1) = length (elems (ca_gcs ca))"
    using a Cons.prems(3,4) by (auto simp: advances_def grows_def)
  moreover have "reportable ca (pg_triggered pg1) s1" if "pg_progressed pg1"
    using a that Cons.prems(4,5) advances_reportable by blast
  ultimately show ?case
    using Cons.IH[OF d(2) still_loop_ok[OF st Cons.prems(2)]] a advances_trans by blast
qed simp

lemma handle_events_advances:
  assumes "handle_events sy (gc_index (elems (ca_gcs ca))) this fds bs s = Some (b, bs', s')" "loop_ok ca this s"
    "length bs = length (elems (ca_gcs ca))" "deep s"
  shows "advances ca bs s bs' s' \<and> (b \<longrightarrow> reportable ca bs' s') \<and> still s s'"
proof -
  let ?pg = "\<lparr>pg_progressed = False, pg_rang = False, pg_triggered = bs\<rparr>"
  obtain pg s1 where d: "dispatch_all sy (gc_index (elems (ca_gcs ca))) this fds ?pg s = Some (pg, s1)"
    using assms(1) by (auto simp: handle_events_def split: option.splits)
  have a: "advances ca bs s (pg_triggered pg) s1" "pg_progressed pg \<Longrightarrow> reportable ca (pg_triggered pg) s1"
    using dispatch_all_advances[OF d assms(2)] assms(3,4) by auto
  have r: "b = pg_progressed pg" "bs' = pg_triggered pg" "grows s1 s'"
    using assms(1) generation_check_grows[of s1]
    by (auto simp: handle_events_def d split: if_splits)
  have "still s s'"
    using handle_events_run[of this s sy "gc_index (elems (ca_gcs ca))" fds bs] loop_ok_live[OF assms(2)] assms(1) by auto
  moreover have "deep s1" using a(1) assms(4) by (auto simp: advances_def grows_def)
  moreover have "advances ca (pg_triggered pg) s1 bs' s'" using r by (simp add: advances_grows)
  ultimately show ?thesis using a r advances_trans advances_reportable by blast
qed

section \<open>The rest of the process and the kernel\<close>

text \<open>Nobody else takes from a queue that is waited on, and queues stay deep.\<close>

definition patient :: "caller_sets \<Rightarrow> ('m, 'q, 'r) wake \<Rightarrow> bool" where
  "patient ca wk \<longleftrightarrow> calm ca wk \<and>
     (\<forall>s. wait_ok ca s \<longrightarrow> deep s \<longrightarrow>
        deep (wk_env wk s) \<and> (\<forall>k p. caller_has ca k p \<longrightarrow> has_work s k p \<longrightarrow> has_work (wk_env wk s) k p))"

text \<open>\<^verbatim>\<open>epoll_wait\<close> reports nothing only after its timeout, and never when it has none.\<close>

definition honest :: "('m, 'q, 'r) wake \<Rightarrow> bool" where
  "honest wk \<longleftrightarrow> (\<forall>ms. wk_result wk ms = Epoll_ready [] \<longrightarrow> 0 \<le> ms \<and> ms * 1000000 \<le> int (wk_elapsed wk ms))"

lemma block_covers:
  assumes "deadline = Some d" "d - start \<le> INT_MAX * 1000000"
  shows "d \<le> start + block_ms False deadline False start * 1000000"
  using assms by (auto simp: block_ms_def Let_def INT_MAX_def)

lemma epoll_loop_results:
  assumes "epoll_loop poll_only deadline False (gc_index (elems (ca_gcs ca))) this wakes now bs s = Left now' bs' s'"
    "loop_ok ca this s" "deep s" "length bs = length (elems (ca_gcs ca))" "poll_only \<Longrightarrow> reportable ca bs s"
    "\<forall>wk\<in>set wakes. patient ca wk \<and> honest wk" "\<And>d. deadline = Some d \<Longrightarrow> d - now \<le> INT_MAX * 1000000"
  shows "(reportable ca bs' s' \<or> (\<exists>d. deadline = Some d \<and> d \<le> now')) \<and> wait_ok ca s' \<and> deep s' \<and>
    length bs' = length (elems (ca_gcs ca))"
  using assms
proof (induction wakes arbitrary: now bs s)
  case (Cons wk wakes)
  let ?start = "now + int (wk_delay wk)"
  let ?ms = "block_ms poll_only deadline False ?start"
  let ?after = "?start + int (wk_elapsed wk ?ms)"
  have wk: "calm ca wk" "honest wk" using Cons.prems(6) by (simp_all add: patient_def)
  have ok: "loop_ok ca this (wk_env wk s)" by (rule calm_loop_ok[OF wk(1) Cons.prems(2)])
  have w: "wait_ok ca s" "wait_ok ca (wk_env wk s)" using ok Cons.prems(2) by (simp_all add: loop_ok_def)
  have env: "deep (wk_env wk s)" "\<forall>k p. caller_has ca k p \<longrightarrow> has_work s k p \<longrightarrow> has_work (wk_env wk s) k p"
    using Cons.prems(3,6) w(1) by (auto simp: patient_def)
  have rep: "reportable ca bs (wk_env wk s)" if "poll_only"
    using Cons.prems(5)[OF that] env(2) by (auto simp: reportable_def)
  have late: "d - ?after \<le> INT_MAX * 1000000" if "deadline = Some d" for d using Cons.prems(7)[OF that] by simp
  have rest: "\<forall>wk\<in>set wakes. patient ca wk \<and> honest wk" using Cons.prems(6) by simp
  show ?case
  proof (cases "wk_result wk ?ms")
    case Epoll_eintr
    have "epoll_loop poll_only deadline False (gc_index (elems (ca_gcs ca))) this wakes ?after bs (wk_env wk s) = Left now' bs' s'"
      using Cons.prems(1) Epoll_eintr by (simp add: Let_def)
    from Cons.IH[OF this ok env(1) Cons.prems(4) rep rest late] show ?thesis .
  next
    case Epoll_failed
    then show ?thesis using Cons.prems(1) by (simp add: Let_def)
  next
    case (Epoll_ready fds)
    show ?thesis
    proof (cases "fds = []")
      case True
      then have l: "now' = ?after" "bs' = bs" "s' = wk_env wk s" using Cons.prems(1) Epoll_ready by (simp_all add: Let_def)
      have "0 \<le> ?ms" "?ms * 1000000 \<le> int (wk_elapsed wk ?ms)"
        using wk(2) Epoll_ready True by (auto simp: honest_def)
      moreover have "\<exists>d. deadline = Some d \<and> d \<le> ?after" if "\<not> poll_only"
      proof (cases deadline)
        case None
        then have "?ms = -1" using that by (simp add: block_ms_def)
        then show ?thesis using \<open>0 \<le> ?ms\<close> by simp
      next
        case (Some d)
        have "d \<le> ?start + ?ms * 1000000"
          using block_covers[OF Some, of ?start] Cons.prems(7)[OF Some] that by simp
        then show ?thesis using Some calculation(2) by simp
      qed
      ultimately show ?thesis using l rep w(2) env(1) Cons.prems(4) by blast
    next
      case False
      obtain b bs2 s2 where h: "handle_events (wk_sys wk) (gc_index (elems (ca_gcs ca))) this fds bs (wk_env wk s) = Some (b, bs2, s2)"
        using handle_events_run loop_ok_live[OF ok] by blast
      note a = handle_events_advances[OF h ok Cons.prems(4) env(1)]
      have a2: "deep s2" "length bs2 = length (elems (ca_gcs ca))" "loop_ok ca this s2" "wait_ok ca s2"
        using a env(1) Cons.prems(4) still_loop_ok[OF _ ok, of s2] by (auto simp: advances_def grows_def loop_ok_def)
      have rep2: "reportable ca bs2 s2" if "poll_only" using a advances_reportable rep[OF that] env(1) by blast
      note step = epoll_loop_ready[OF refl refl refl Epoll_ready False h, of wakes]
      show ?thesis
      proof (cases "epoll_loop poll_only deadline False (gc_index (elems (ca_gcs ca))) this (wk # wakes) now bs s =
          epoll_loop poll_only deadline False (gc_index (elems (ca_gcs ca))) this wakes ?after bs2 s2")
        case True
        show ?thesis
          by (rule Cons.IH[OF _ a2(3,1,2) rep2 rest late]) (use Cons.prems(1) True in simp)
      next
        case False
        then have l: "now' = ?after" "bs' = bs2" "s' = s2"
          "\<not> (if poll_only then length fds = epoll_batch
         else \<not> b \<and> (case deadline of None \<Rightarrow> True | Some d \<Rightarrow> ?after < d) \<and> \<not> False)"
          using Cons.prems(1) unfolding step by (simp_all split: if_splits)
        then have "poll_only \<or> b \<or> (\<exists>d. deadline = Some d \<and> d \<le> ?after)" by (auto split: if_splits option.splits)
        then show ?thesis using a rep2 a2 l(1-3) by blast
      qed
    qed
  qed
qed simp

section \<open>The output pass\<close>

definition gc_count :: "('m, 'q, 'r) waiting \<Rightarrow> nat \<Rightarrow> u64" where
  "gc_count s g = (case pc_gcs (wt_process s) g of None \<Rightarrow> 0 | Some gd \<Rightarrow> gd_count gd)"

lemma read_gc_count:
  assumes "read_gc g s = Some (got, s')"
  shows "got \<longleftrightarrow> gc_count s g \<noteq> 0" "gc_count s' g = 0" "h \<noteq> g \<Longrightarrow> gc_count s' h = gc_count s h"
  using assms by (auto simp: read_gc_def eventfd_read_def gc_count_def split: if_splits option.splits)

definition tables_same :: "('m, 'q, 'r) waiting \<Rightarrow> ('m, 'q, 'r) waiting \<Rightarrow> bool" where
  "tables_same s s' \<longleftrightarrow> wt_subs s' = wt_subs s \<and> wt_services s' = wt_services s \<and> wt_clients s' = wt_clients s"

lemma tables_same_has_work: "tables_same s s' \<Longrightarrow> has_work s' k p = has_work s k p"
  by (cases k) (simp_all add: tables_same_def)

lemma read_gc_tables: "read_gc g s = Some (got, s') \<Longrightarrow> tables_same s s'"
  by (auto simp: read_gc_def tables_same_def split: if_splits prod.splits)

lemma keep_triggered_result:
  "keep_triggered gs bs s = Some (out, any, s') \<Longrightarrow> length bs = length gs \<Longrightarrow>
   tables_same s s' \<and> (any \<longleftrightarrow> list_ex (\<lambda>x. x \<noteq> None) out) \<and> list_all2 (\<lambda>x y. y = x \<or> y = None) gs out \<and>
   (\<forall>i<length gs. bs ! i \<longrightarrow> out ! i = gs ! i) \<and>
   (\<forall>g. Some g \<in> set gs \<longrightarrow> gc_count s' g = 0 \<and> (gc_count s g \<noteq> 0 \<longrightarrow> Some g \<in> set out)) \<and>
   (\<forall>g. gc_count s g = 0 \<longrightarrow> gc_count s' g = 0)"
proof (induction gs bs s arbitrary: out any s' rule: keep_triggered.induct)
  case (2 gs bs s)
  then obtain b bs' where bs: "bs = b # bs'" by (cases bs) auto
  obtain o2 a2 s2 where k: "keep_triggered gs (tl bs) s = Some (o2, a2, s2)"
    using "2.prems"(1) by (auto split: option.splits)
  have "out = None # o2" "any = a2" "s' = s2" using "2.prems"(1) k by simp_all
  then show ?case using "2.IH"[OF k] "2.prems"(2) by (auto simp: bs less_Suc_eq_0_disj)
next
  case (3 g gs bs s)
  then obtain b bs' where bs: "bs = b # bs'" by (cases bs) auto
  obtain got s1 where r: "read_gc g s = Some (got, s1)" using "3.prems"(1) by (auto split: option.splits)
  obtain o2 a2 s2 where k: "keep_triggered gs (tl bs) s1 = Some (o2, a2, s2)"
    using "3.prems"(1) r by (auto simp: Let_def split: option.splits)
  have out: "out = (if got \<or> b then Some g else None) # o2" "any \<longleftrightarrow> got \<or> b \<or> a2" "s' = s2"
    using "3.prems"(1) r k by (auto simp: Let_def bs)
  have ih: "tables_same s1 s2" "a2 \<longleftrightarrow> list_ex (\<lambda>x. x \<noteq> None) o2" "list_all2 (\<lambda>x y. y = x \<or> y = None) gs o2"
    "\<forall>i<length gs. bs' ! i \<longrightarrow> o2 ! i = gs ! i"
    "\<forall>h. Some h \<in> set gs \<longrightarrow> gc_count s2 h = 0 \<and> (gc_count s1 h \<noteq> 0 \<longrightarrow> Some h \<in> set o2)"
    "\<forall>h. gc_count s1 h = 0 \<longrightarrow> gc_count s2 h = 0"
    using "3.IH"[OF r refl refl k] "3.prems"(2) by (auto simp: bs)
  have count: "gc_count s' h = 0 \<and> (gc_count s h \<noteq> 0 \<longrightarrow> Some h \<in> set out)" if "Some h \<in> set (Some g # gs)" for h
    using that ih(5,6) read_gc_count[OF r] out by (cases "h = g") auto
  have zero: "gc_count s' h = 0" if "gc_count s h = 0" for h
    using that ih(6) read_gc_count[OF r] out(3) by (cases "h = g") auto
  have same: "tables_same s s'" using ih(1) read_gc_tables[OF r] out(3) by (simp add: tables_same_def)
  show ?case using same ih(2-4) out(1,2) count zero by (auto simp: bs less_Suc_eq_0_disj)
qed (auto simp: tables_same_def)

text \<open>An array after the call: each element is kept or set to null.\<close>

definition nulled :: "nat option list option \<Rightarrow> nat option list option \<Rightarrow> bool" where
  "nulled = rel_option (list_all2 (\<lambda>x y. y = x \<or> y = None))"

lemma keep_ready_result:
  assumes "keep_ready inbox_of table a = (a', any)" "\<forall>p\<in>set (ptrs a). table p \<noteq> None"
  shows "nulled a a'" "any \<longleftrightarrow> ptrs a' \<noteq> []"
    "p \<in> set (ptrs a') \<longleftrightarrow> p \<in> set (ptrs a) \<and> (\<exists>x. table p = Some x \<and> ib_queue (inbox_of x) \<noteq> [])"
proof -
  define ready where "ready = (\<lambda>x. case x of None \<Rightarrow> False | Some p \<Rightarrow> ib_queue (inbox_of (the (table p))) \<noteq> [])"
  have r: "a' = map_option (map (\<lambda>x. if ready x then x else None)) a" "any = list_ex ready (elems a)"
    using assms(1) by (simp_all add: keep_ready_def ready_def Let_def)
  show "nulled a a'" by (cases a) (simp_all add: nulled_def r(1) list_all2_map2 list_all2_same)
  have e: "elems a' = map (\<lambda>x. if ready x then x else None) (elems a)" by (cases a) (simp_all add: r(1) elems_def)
  have "ready x \<Longrightarrow> x \<noteq> None" for x by (cases x) (simp_all add: ready_def)
  then show "any \<longleftrightarrow> ptrs a' \<noteq> []" by (force simp: r(2) ptrs_def e list_ex_iff filter_empty_conv)
  have "p \<in> set (ptrs a') \<longleftrightarrow> p \<in> set (ptrs a) \<and> ready (Some p)"
    by (auto simp: in_ptrs e split: if_splits)
  then show "p \<in> set (ptrs a') \<longleftrightarrow> p \<in> set (ptrs a) \<and> (\<exists>x. table p = Some x \<and> ib_queue (inbox_of x) \<noteq> [])"
    using assms(2) by (auto simp: ready_def)
qed

definition anything_left :: "caller_sets \<Rightarrow> bool" where
  "anything_left ca \<longleftrightarrow> ptrs (ca_subs ca) \<noteq> [] \<or> ptrs (ca_services ca) \<noteq> [] \<or> ptrs (ca_clients ca) \<noteq> [] \<or> ptrs (ca_gcs ca) \<noteq> []"

text \<open>What the arrays say afterwards about the final state.\<close>

definition reports :: "caller_sets \<Rightarrow> caller_sets \<Rightarrow> ('m, 'q, 'r) waiting \<Rightarrow> bool" where
  "reports ca ca' s \<longleftrightarrow>
     nulled (ca_subs ca) (ca_subs ca') \<and> nulled (ca_services ca) (ca_services ca') \<and>
     nulled (ca_clients ca) (ca_clients ca') \<and> nulled (ca_gcs ca) (ca_gcs ca') \<and>
     ca_events ca' = map_option (map (\<lambda>_. None)) (ca_events ca) \<and>
     (\<forall>k p. k \<in> {ARMED_SUBSCRIPTION, ARMED_SERVICE, ARMED_CLIENT} \<longrightarrow>
        (caller_has ca' k p \<longleftrightarrow> caller_has ca k p \<and> has_work s k p)) \<and>
     (\<forall>g\<in>set (ptrs (ca_gcs ca)). gc_count s g = 0)"

lemma ptrs_empty: "ptrs a \<noteq> [] \<longleftrightarrow> list_ex (\<lambda>x. x \<noteq> None) (elems a)"
  by (auto simp: ptrs_def list_ex_iff filter_empty_conv)

lemma outputs_result:
  assumes "outputs ca bs s = Some (ca', any, s')" "length bs = length (elems (ca_gcs ca))" "callers_live ca s"
  shows "reports ca ca' s'" "any \<longleftrightarrow> anything_left ca'" "reportable ca bs s \<Longrightarrow> anything_left ca'"
    "triggered_at ca bs i \<Longrightarrow> elems (ca_gcs ca) ! i = Some g \<Longrightarrow> g \<in> set (ptrs (ca_gcs ca'))"
    "g \<in> set (ptrs (ca_gcs ca)) \<Longrightarrow> gc_count s g \<noteq> 0 \<Longrightarrow> g \<in> set (ptrs (ca_gcs ca'))"
proof -
  obtain gcs any_gc where k: "keep_triggered (elems (ca_gcs ca)) bs s = Some (gcs, any_gc, s')"
    using assms(1) by (auto simp: outputs_def Let_def split: if_splits option.splits prod.splits)
  note kt = keep_triggered_result[OF k assms(2)]
  obtain subs any_sub services any_service clients any_client where kr:
    "keep_ready su_inbox (wt_subs s') (ca_subs ca) = (subs, any_sub)"
    "keep_ready ep_inbox (wt_services s') (ca_services ca) = (services, any_service)"
    "keep_ready ep_inbox (wt_clients s') (ca_clients ca) = (clients, any_client)"
    by (metis surj_pair)
  have same: "wt_subs s' = wt_subs s" "wt_services s' = wt_services s" "wt_clients s' = wt_clients s"
    using kt by (simp_all add: tables_same_def)
  have res: "ca' = \<lparr>ca_subs = subs, ca_gcs = map_option (\<lambda>_. gcs) (ca_gcs ca), ca_services = services,
      ca_clients = clients, ca_events = map_option (map (\<lambda>_. None)) (ca_events ca)\<rparr>"
    "any \<longleftrightarrow> any_sub \<or> any_gc \<or> any_service \<or> any_client"
    using assms(1) by (auto simp: outputs_def k kr Let_def split: if_splits)
  note lv = caller_ptr_live[OF assms(3)]
  note s1 = keep_ready_result[OF kr(1), unfolded same] and s2 = keep_ready_result[OF kr(2), unfolded same]
    and s3 = keep_ready_result[OF kr(3), unfolded same]
  have e: "elems (ca_gcs ca') = gcs"
    using kt by (cases "ca_gcs ca") (auto simp: res(1) elems_def)
  have gnull: "nulled (ca_gcs ca) (ca_gcs ca')"
    using kt by (cases "ca_gcs ca") (auto simp: nulled_def res(1) elems_def)
  have work: "caller_has ca' k p \<longleftrightarrow> caller_has ca k p \<and> has_work s k p"
    if "k \<in> {ARMED_SUBSCRIPTION, ARMED_SERVICE, ARMED_CLIENT}" for k p
    using that s1(3)[of p] s2(3)[of p] s3(3)[of p] lv by (auto simp: caller_has_def res(1))
  show "reports ca ca' s'"
    unfolding reports_def
    using s1(1) s2(1) s3(1) lv gnull work kt tables_same_has_work[of s s'] by (simp add: res(1) in_ptrs)
  have ag: "any_gc \<longleftrightarrow> ptrs (ca_gcs ca') \<noteq> []" using kt by (simp add: ptrs_empty e)
  show any: "any \<longleftrightarrow> anything_left ca'"
    using ag s1(2) s2(2) s3(2) lv by (auto simp: res anything_left_def)
  show trig: "g \<in> set (ptrs (ca_gcs ca'))" if "triggered_at ca bs i" "elems (ca_gcs ca) ! i = Some g" for i g
  proof -
    have "gcs ! i = Some g" "i < length gcs"
      using that kt by (auto simp: triggered_at_def list_all2_lengthD)
    then show ?thesis by (metis e in_ptrs nth_mem)
  qed
  show "g \<in> set (ptrs (ca_gcs ca'))" if "g \<in> set (ptrs (ca_gcs ca))" "gc_count s g \<noteq> 0"
    using that kt by (simp add: in_ptrs e)
  show "anything_left ca'" if "reportable ca bs s"
  proof -
    have "\<exists>k p. caller_has ca k p \<and> has_work s k p \<Longrightarrow> anything_left ca'"
    proof (elim exE conjE)
      fix k p assume kp: "caller_has ca k p" "has_work s k p"
      then have "k \<in> {ARMED_SUBSCRIPTION, ARMED_SERVICE, ARMED_CLIENT}" by (cases k) auto
      then have "caller_has ca' k p" "k \<in> {ARMED_SUBSCRIPTION, ARMED_SERVICE, ARMED_CLIENT}" using work kp by auto
      then show "anything_left ca'" by (auto simp: caller_has_def anything_left_def)
    qed
    moreover have "anything_left ca'" if tr: "triggered_at ca bs i" for i
    proof -
      obtain g where "elems (ca_gcs ca) ! i = Some g" using tr by (auto simp: triggered_at_def)
      then have "g \<in> set (ptrs (ca_gcs ca'))" using trig[OF tr] by simp
      then show ?thesis by (auto simp: anything_left_def)
    qed
    ultimately show ?thesis using that by (auto simp: reportable_def)
  qed
qed

section \<open>The start of the call\<close>

lemma read_gcs_result:
  "read_gcs gs s = Some (bs, s') \<Longrightarrow>
   tables_same s s' \<and> length bs = length gs \<and> (\<forall>i<length gs. bs ! i \<longrightarrow> gs ! i \<noteq> None) \<and>
   (\<forall>g. Some g \<in> set gs \<and> gc_count s g \<noteq> 0 \<longrightarrow> (\<exists>i<length gs. gs ! i = Some g \<and> bs ! i))"
proof (induction gs s arbitrary: bs s' rule: read_gcs.induct)
  case (1 s)
  then show ?case by (simp add: tables_same_def)
next
  case (2 gs s)
  then obtain b2 where b2: "read_gcs gs s = Some (b2, s')" "bs = False # b2" by (auto split: option.splits)
  note ih = "2.IH"[OF b2(1)]
  have "\<exists>i<Suc (length gs). (None # gs) ! i = Some h \<and> bs ! i" if h: "Some h \<in> set gs" "gc_count s h \<noteq> 0" for h
  proof -
    obtain i where "i < length gs" "gs ! i = Some h" "b2 ! i" using ih h by blast
    then show ?thesis using b2(2) by (intro exI[of _ "Suc i"]) simp
  qed
  then show ?case using ih b2(2) by (auto simp: less_Suc_eq_0_disj)
next
  case (3 g gs s)
  obtain got s1 where r: "read_gc g s = Some (got, s1)" using "3.prems" by (auto split: option.splits)
  obtain b2 where k: "read_gcs gs s1 = Some (b2, s')" "bs = got # b2" using "3.prems" r by (auto split: option.splits)
  have ih: "tables_same s1 s'" "length b2 = length gs" "\<forall>i<length gs. b2 ! i \<longrightarrow> gs ! i \<noteq> None"
    "\<And>h. Some h \<in> set gs \<Longrightarrow> gc_count s1 h \<noteq> 0 \<Longrightarrow> \<exists>i<length gs. gs ! i = Some h \<and> b2 ! i"
    using "3.IH"[OF r refl k(1)] by auto
  have "\<exists>i<Suc (length gs). (Some g # gs) ! i = Some h \<and> bs ! i" if h: "Some h \<in> set (Some g # gs)" "gc_count s h \<noteq> 0" for h
  proof (cases "h = g")
    case True
    then show ?thesis using read_gc_count(1)[OF r] h(2) k(2) by (intro exI[of _ 0]) simp
  next
    case False
    then obtain i where "i < length gs" "gs ! i = Some h" "b2 ! i" using ih(4)[of h] h read_gc_count(3)[OF r, of h] by auto
    then show ?thesis using k(2) by (intro exI[of _ "Suc i"]) simp
  qed
  moreover have "tables_same s s'" using ih(1) read_gc_tables[OF r] by (simp add: tables_same_def)
  ultimately show ?case using ih(2,3) k(2) by (auto simp: less_Suc_eq_0_disj)
qed

lemma check_ready_result:
  assumes "check_ready ca s = Some (b, bs, s')"
  shows "tables_same s s'" "b \<Longrightarrow> reportable ca bs s'"
    "g \<in> set (ptrs (ca_gcs ca)) \<Longrightarrow> gc_count s g \<noteq> 0 \<Longrightarrow> \<exists>i. triggered_at ca bs i \<and> elems (ca_gcs ca) ! i = Some g"
proof -
  obtain b1 b2 b3 where q: "queues_ready su_inbox (wt_subs s) (ca_subs ca) = Some b1"
    "queues_ready ep_inbox (wt_services s) (ca_services ca) = Some b2"
    "queues_ready ep_inbox (wt_clients s) (ca_clients ca) = Some b3"
    and r: "read_gcs (elems (ca_gcs ca)) s = Some (bs, s')" and b: "b = (b1 \<or> b2 \<or> b3 \<or> list_ex id bs)"
    using assms by (auto simp: check_ready_def split: option.splits)
  note rr = read_gcs_result[OF r]
  then show same: "tables_same s s'" by simp
  show "\<exists>i. triggered_at ca bs i \<and> elems (ca_gcs ca) ! i = Some g" if g: "g \<in> set (ptrs (ca_gcs ca))" "gc_count s g \<noteq> 0"
  proof -
    obtain i where "i < length (elems (ca_gcs ca))" "elems (ca_gcs ca) ! i = Some g" "bs ! i"
      using rr g unfolding in_ptrs by blast
    then show ?thesis using rr by (intro exI[of _ i]) (simp add: triggered_at_def)
  qed
  have queue: "\<exists>p\<in>set (ptrs a). \<exists>x. table p = Some x \<and> ib_queue (inbox_of x) \<noteq> []"
    if "queues_ready inbox_of table a = Some True" for a and table :: "nat \<rightharpoonup> 'z" and inbox_of
    using that by (auto simp: queues_ready_def list_ex_iff split: if_splits) force
  show "reportable ca bs s'" if b
  proof -
    from that b consider "b1" | "b2" | "b3" | "list_ex id bs" by blast
    then show ?thesis
    proof cases
      case 1
      then obtain p where "caller_has ca ARMED_SUBSCRIPTION p" "has_work s ARMED_SUBSCRIPTION p"
        using queue[of su_inbox "wt_subs s" "ca_subs ca"] q(1) by (auto simp: caller_has_def)
      then show ?thesis using tables_same_has_work[OF same] unfolding reportable_def by blast
    next
      case 2
      then obtain p where "caller_has ca ARMED_SERVICE p" "has_work s ARMED_SERVICE p"
        using queue[of ep_inbox "wt_services s" "ca_services ca"] q(2) by (auto simp: caller_has_def)
      then show ?thesis using tables_same_has_work[OF same] unfolding reportable_def by blast
    next
      case 3
      then obtain p where "caller_has ca ARMED_CLIENT p" "has_work s ARMED_CLIENT p"
        using queue[of ep_inbox "wt_clients s" "ca_clients ca"] q(3) by (auto simp: caller_has_def)
      then show ?thesis using tables_same_has_work[OF same] unfolding reportable_def by blast
    next
      case 4
      then obtain i where "i < length bs" "bs ! i" by (auto simp: list_ex_iff in_set_conv_nth)
      then have "triggered_at ca bs i" using rr by (simp add: triggered_at_def)
      then show ?thesis unfolding reportable_def by blast
    qed
  qed
qed

lemma wire_doorbell_tables: "wire_doorbell sy ca s = (b, s') \<Longrightarrow> tables_same s s'"
  by (auto simp: wire_doorbell_def tables_same_def Let_def split: prod.splits if_splits)

lemma generation_check_tables: "run_generation_check s = Some s' \<Longrightarrow> tables_same s s'"
  by (auto simp: run_generation_check_def tables_same_def Let_def split: if_splits option.splits)

lemma armed_no_error:
  "\<forall>fd. ctl fd \<noteq> Ctl_error \<Longrightarrow> ar_unarmed (fold (register_fd ctl) xs a) = ar_unarmed a"
  by (induction xs arbitrary: a) (auto simp: register_fd_def Let_def split: prod.splits)

section \<open>Timeouts\<close>

lemma timeout_ms_range: "- 2147483648 \<le> timeout_ms t" "timeout_ms t \<le> INT_MAX"
proof -
  have "- 2147483648 \<le> sint (x :: 32 word) \<and> sint x \<le> 2147483647" for x
    using sint_greater_eq[of x] sint_less[of x] by simp
  then show "- 2147483648 \<le> timeout_ms t" "timeout_ms t \<le> INT_MAX"
    by (auto simp: timeout_ms_def INT_MAX_def Let_def split: option.splits)
qed

lemma deadline_range: "wait_deadline now t = Some d \<Longrightarrow> d - now \<le> INT_MAX * 1000000"
  using timeout_ms_range(2)[of t] by (auto simp: wait_deadline_def Let_def split: if_splits)

section \<open>Results\<close>

lemma finish_wait_returned:
  assumes "finish_wait tail deadline ca e = Wait_returned r clock ca' s'" "r \<noteq> RMW_RET_ERROR"
  obtains now bs s1 any where "e = Left now bs s1" "outputs ca bs s1 = Some (ca', any, s')" "clock = Some (now + int tail)"
    "r = (if \<not> any \<and> (case deadline of None \<Rightarrow> False | Some d \<Rightarrow> now + int tail \<ge> d) then RMW_RET_TIMEOUT else RMW_RET_OK)"
  using assms by (cases e) (auto simp: finish_wait_def split: option.splits prod.splits)

lemma still_deep_start:
  assumes "deep s" "tables_same s s1" "tables_same s1 s2" "grows (s2\<lparr>wt_set := ws\<rparr>) s4" "tables_same s4 s5"
  shows "deep s5"
  using assms by (auto simp: tables_same_def deep_def grows_def)


end
