(* ===== verification/Uds_Wait_Triggers.thy ===== *)
theory Uds_Wait_Triggers
  imports Uds_Wait_Results
begin

text \<open>
  Progress of a wait: triggers reach the caller, a finite wait ends, everything waited on is
  armed or polled, and the timeout is the caller's to the millisecond.
\<close>

section \<open>Triggers\<close>

lemma eventfd_write_nonzero: "eventfd_write c \<noteq> 0"
proof (cases "c = - 1")
  case False
  then have "c + 1 \<noteq> 0" by (metis add_eq_0_iff2)
  then show ?thesis by (auto simp: eventfd_write_def)
qed (simp add: eventfd_write_def)

text \<open>The trigger is still in the eventfd, or has been read into the caller's bits.\<close>

definition pending :: "caller_sets \<Rightarrow> nat \<Rightarrow> bool list \<Rightarrow> ('m, 'q, 'r) waiting \<Rightarrow> bool" where
  "pending ca g bs s \<longleftrightarrow> gc_count s g \<noteq> 0 \<or> (\<exists>i. triggered_at ca bs i \<and> elems (ca_gcs ca) ! i = Some g)"

lemma trigger_all_count:
  "trigger_all gs p = Some p' \<Longrightarrow> pc_gcs p g = Some gd \<Longrightarrow> gd_count gd \<noteq> 0 \<Longrightarrow>
   \<exists>gd'. pc_gcs p' g = Some gd' \<and> gd_count gd' \<noteq> 0"
proof (induction gs arbitrary: p gd)
  case (Cons h gs)
  obtain hd where hd: "pc_gcs p h = Some hd"
    using Cons.prems(1) by (auto simp: rmw_trigger_guard_condition_def trigger_guard_condition_def split: option.splits)
  let ?p = "p\<lparr>pc_gcs := (pc_gcs p)(h \<mapsto> hd\<lparr>gd_count := eventfd_write (gd_count hd)\<rparr>)\<rparr>"
  have t: "trigger_all gs ?p = Some p'"
    using Cons.prems(1) hd by (simp add: rmw_trigger_guard_condition_def trigger_guard_condition_def)
  show ?case
  proof (cases "g = h")
    case True
    show ?thesis by (rule Cons.IH[OF t, of "hd\<lparr>gd_count := eventfd_write (gd_count hd)\<rparr>"]) (simp_all add: True eventfd_write_nonzero)
  next
    case False
    show ?thesis by (rule Cons.IH[OF t _ Cons.prems(3)]) (simp add: False Cons.prems(2))
  qed
qed auto

lemma generation_check_count:
  assumes "run_generation_check s = Some s'" "gc_count s g \<noteq> 0"
  shows "gc_count s' g \<noteq> 0"
proof -
  obtain gd where gd: "pc_gcs (wt_process s) g = Some gd" "gd_count gd \<noteq> 0"
    using assms(2) by (auto simp: gc_count_def split: option.splits)
  then show ?thesis
    using assms(1) trigger_all_count[of "cs_graph_gcs (wt_ctx s)" _ _ g gd]
    by (fastforce simp: run_generation_check_def gc_count_def Let_def split: if_splits option.splits)
qed

lemma drains_count:
  "drain_sub sy p s = Some (b, s') \<Longrightarrow> gc_count s' = gc_count s"
  "drain_service sy p s = Some (b, s') \<Longrightarrow> gc_count s' = gc_count s"
  "drain_client sy p s = Some (b, s') \<Longrightarrow> gc_count s' = gc_count s"
  by (auto simp: drain_sub_def drain_service_def drain_client_def gc_count_def fun_eq_iff split: option.splits prod.splits)

lemma drain_unarmed_count: "drain_unarmed sy es s = Some s' \<Longrightarrow> gc_count s' = gc_count s"
proof (induction es arbitrary: s)
  case (Cons e es)
  then obtain s1 where s1: "(case ae_kind e of
              ARMED_SUBSCRIPTION \<Rightarrow> map_option snd (drain_sub sy (ae_entity e) s)
            | ARMED_SERVICE \<Rightarrow> map_option snd (drain_service sy (ae_entity e) s)
            | ARMED_CLIENT \<Rightarrow> map_option snd (drain_client sy (ae_entity e) s)
            | _ \<Rightarrow> Some s) = Some s1" "drain_unarmed sy es s1 = Some s'"
    by (simp only: drain_unarmed.simps split: option.splits) blast
  have "gc_count s1 = gc_count s"
    using s1(1) drains_count by (cases "ae_kind e") (auto, blast+)
  then show ?case using Cons.IH[OF s1(2)] by simp
qed simp

lemma dispatch_entry_pending:
  assumes "dispatch_entry sy (gc_index (elems (ca_gcs ca))) e pg s = Some (pg', s')"
    "length (pg_triggered pg) = length (elems (ca_gcs ca))" "g \<in> set (ptrs (ca_gcs ca))" "pending ca g (pg_triggered pg) s"
  shows "pending ca g (pg_triggered pg') s'"
proof -
  have bits: "triggered_at ca (pg_triggered pg) i \<Longrightarrow> triggered_at ca (pg_triggered pg') i" for i
    using dispatch_entry_advances(1)[OF assms(1,2)] by (simp add: advances_def)
  show ?thesis
  proof (cases "ae_kind e = ARMED_GUARD_CONDITION")
    case False
    then have "gc_count s' = gc_count s"
      using assms(1) drains_count
      by (cases "ae_kind e") (auto simp: dispatch_entry_def progressed_if_def split: option.splits, blast+)
    then show ?thesis using assms(4) bits by (auto simp: pending_def)
  next
    case True
    then obtain got where r: "read_gc (ae_entity e) s = Some (got, s')"
      using assms(1) by (auto simp: dispatch_entry_def split: option.splits)
    have t: "got \<Longrightarrow> pg_triggered pg' = (case gc_index (elems (ca_gcs ca)) (ae_entity e) of
                                                None \<Rightarrow> pg_triggered pg | Some i \<Rightarrow> (pg_triggered pg)[i := True])"
      using assms(1) by (auto simp: dispatch_entry_def True r)
    show ?thesis
    proof (cases "ae_entity e = g \<and> gc_count s g \<noteq> 0")
      case True
      then have got using read_gc_count(1)[OF r] by simp
      obtain i where i: "gc_index (elems (ca_gcs ca)) g = Some i"
        using assms(3) gc_index_from_None[of 0 "elems (ca_gcs ca)" g] by (auto simp: in_ptrs)
      have "triggered_at ca (pg_triggered pg') i" "elems (ca_gcs ca) ! i = Some g"
        using t[OF \<open>got\<close>] True gc_index_Some[OF i] assms(2) by (simp_all add: i triggered_at_def)
      then show ?thesis by (auto simp: pending_def)
    next
      case False
      then show ?thesis
        using assms(4) bits read_gc_count(3)[OF r, of g] by (auto simp: pending_def)
    qed
  qed
qed

lemma dispatch_all_pending:
  assumes "dispatch_all sy (gc_index (elems (ca_gcs ca))) this fds pg s = Some (pg', s')" "loop_ok ca this s"
    "length (pg_triggered pg) = length (elems (ca_gcs ca))" "g \<in> set (ptrs (ca_gcs ca))" "pending ca g (pg_triggered pg) s"
  shows "pending ca g (pg_triggered pg') s' \<and> length (pg_triggered pg') = length (elems (ca_gcs ca))"
  using assms
proof (induction fds arbitrary: pg s)
  case (Cons fd fds)
  obtain pg1 s1 where d: "dispatch sy (gc_index (elems (ca_gcs ca))) this fd pg s = Some (pg1, s1)"
    "dispatch_all sy (gc_index (elems (ca_gcs ca))) this fds pg1 s1 = Some (pg', s')"
    using Cons.prems(1) by (auto split: option.splits)
  have st: "still s s1" using dispatch_run[of this s sy "gc_index (elems (ca_gcs ca))" fd pg] loop_ok_live[OF Cons.prems(2)] d(1) by auto
  have w: "gc_count (withdraw fd s) = gc_count s" by (simp add: withdraw_def gc_count_def fun_eq_iff)
  have "pending ca g (pg_triggered pg1) s1"
    using d(1) dispatch_entry_pending[OF _ Cons.prems(3-5)] Cons.prems(5) w
    by (auto simp: dispatch_def pending_def split: option.splits if_splits)
  then show ?case
    using Cons.IH[OF d(2) still_loop_ok[OF st Cons.prems(2)] _ Cons.prems(4)] dispatch_advances[OF d(1) Cons.prems(2,3)]
      Cons.prems(3) by (simp add: advances_def)
qed simp

lemma handle_events_pending:
  assumes "handle_events sy (gc_index (elems (ca_gcs ca))) this fds bs s = Some (b, bs', s')" "loop_ok ca this s"
    "length bs = length (elems (ca_gcs ca))" "g \<in> set (ptrs (ca_gcs ca))" "pending ca g bs s"
  shows "pending ca g bs' s'"
proof -
  let ?pg = "\<lparr>pg_progressed = False, pg_rang = False, pg_triggered = bs\<rparr>"
  obtain pg s1 where d: "dispatch_all sy (gc_index (elems (ca_gcs ca))) this fds ?pg s = Some (pg, s1)"
    using assms(1) by (auto simp: handle_events_def split: option.splits)
  have "pending ca g (pg_triggered pg) s1" using dispatch_all_pending[OF d assms(2)] assms(3-5) by simp
  then show ?thesis
    using assms(1) generation_check_count[of s1 s' g]
    by (auto simp: handle_events_def d pending_def split: if_splits)
qed

text \<open>No other thread reads the guard condition.\<close>

definition sole_reader :: "caller_sets \<Rightarrow> nat \<Rightarrow> ('m, 'q, 'r) wake \<Rightarrow> bool" where
  "sole_reader ca g wk \<longleftrightarrow> calm ca wk \<and> (\<forall>s. gc_count s g \<noteq> 0 \<longrightarrow> gc_count (wk_env wk s) g \<noteq> 0)"

lemma epoll_loop_step:
  assumes "loop_ok ca this s" "calm ca wk" "length bs = length (elems (ca_gcs ca))"
  obtains (ended) now' bs' s' where
      "\<And>ws. epoll_loop po dl dg (gc_index (elems (ca_gcs ca))) this (wk # ws) now bs s = Left now' bs' s'"
      "loop_ok ca this s'" "length bs' = length bs"
      "g \<in> set (ptrs (ca_gcs ca)) \<Longrightarrow> pending ca g bs (wk_env wk s) \<Longrightarrow> pending ca g bs' s'"
    | (failed) s' where "\<And>ws. epoll_loop po dl dg (gc_index (elems (ca_gcs ca))) this (wk # ws) now bs s = Epoll_error s'"
    | (going) now' bs' s' where
      "\<And>ws. epoll_loop po dl dg (gc_index (elems (ca_gcs ca))) this (wk # ws) now bs s =
            epoll_loop po dl dg (gc_index (elems (ca_gcs ca))) this ws now' bs' s'"
      "now' = now + int (wk_delay wk) + int (wk_elapsed wk (block_ms po dl dg (now + int (wk_delay wk))))"
      "loop_ok ca this s'" "length bs' = length bs"
      "g \<in> set (ptrs (ca_gcs ca)) \<Longrightarrow> pending ca g bs (wk_env wk s) \<Longrightarrow> pending ca g bs' s'"
proof -
  let ?start = "now + int (wk_delay wk)"
  let ?ms = "block_ms po dl dg ?start"
  have ok: "loop_ok ca this (wk_env wk s)" by (rule calm_loop_ok[OF assms(2,1)])
  show ?thesis
  proof (cases "wk_result wk ?ms")
    case Epoll_eintr
    then show ?thesis by (intro going[OF _ refl ok refl]) (simp_all add: Let_def)
  next
    case Epoll_failed
    then show ?thesis by (intro failed) (simp add: Let_def)
  next
    case (Epoll_ready fds)
    show ?thesis
    proof (cases "fds = []")
      case True
      then show ?thesis using Epoll_ready by (intro ended[OF _ ok refl]) (simp_all add: Let_def)
    next
      case False
      obtain b bs2 s2 where h: "handle_events (wk_sys wk) (gc_index (elems (ca_gcs ca))) this fds bs (wk_env wk s) = Some (b, bs2, s2)"
        "still (wk_env wk s) s2"
        using handle_events_run loop_ok_live[OF ok] by blast
      have ok2: "loop_ok ca this s2" by (rule still_loop_ok[OF h(2) ok])
      have p: "g \<in> set (ptrs (ca_gcs ca)) \<Longrightarrow> pending ca g bs (wk_env wk s) \<Longrightarrow> pending ca g bs2 s2"
        using handle_events_pending[OF h(1) ok assms(3)] by blast
      have len: "length bs2 = length bs"
      proof -
        obtain pg s1 where d: "dispatch_all (wk_sys wk) (gc_index (elems (ca_gcs ca))) this fds
            \<lparr>pg_progressed = False, pg_rang = False, pg_triggered = bs\<rparr> (wk_env wk s) = Some (pg, s1)"
          using h(1) by (auto simp: handle_events_def split: option.splits)
        have "bs2 = pg_triggered pg" using h(1) by (auto simp: handle_events_def d split: if_splits)
        moreover have "length (pg_triggered pg') = length (pg_triggered pg0)"
          if "dispatch_all sy ix th fs pg0 t = Some (pg', t')" for sy ix th fs pg0 pg' and t t' :: "('a, 'b, 'c) waiting"
          using that
          by (induction fs arbitrary: pg0 t)
            (fastforce simp: dispatch_def dispatch_entry_def progressed_if_def split: option.splits if_splits armed_kind.splits)+
        ultimately show ?thesis using d by fastforce
      qed
      note step = epoll_loop_ready[OF refl refl refl Epoll_ready False h(1)]
      show ?thesis
      proof (cases "if po then length fds = epoll_batch
             else \<not> b \<and> (case dl of None \<Rightarrow> True | Some d \<Rightarrow> ?start + int (wk_elapsed wk ?ms) < d) \<and> \<not> dg")
        case True
        show ?thesis by (rule going[OF _ refl ok2 len p]) (subst step, subst if_P, rule True, rule refl)
      next
        case False
        show ?thesis by (rule ended[OF _ ok2 len p]) (subst step, subst if_not_P, rule False, rule refl)
      qed
    qed
  qed
qed

lemma epoll_loop_pending:
  assumes "epoll_loop po dl dg (gc_index (elems (ca_gcs ca))) this wakes now bs s = Left now' bs' s'"
    "loop_ok ca this s" "length bs = length (elems (ca_gcs ca))" "g \<in> set (ptrs (ca_gcs ca))" "pending ca g bs s"
    "\<forall>wk\<in>set wakes. sole_reader ca g wk"
  shows "pending ca g bs' s' \<and> length bs' = length (elems (ca_gcs ca)) \<and> callers_live ca s'"
  using assms
proof (induction wakes arbitrary: now bs s)
  case (Cons wk wakes)
  have wk: "calm ca wk" "pending ca g bs (wk_env wk s)"
    using Cons.prems(5,6) by (auto simp: sole_reader_def pending_def)
  show ?case
  proof (cases rule: epoll_loop_step[OF Cons.prems(2) wk(1) Cons.prems(3), of po dl dg now g, case_names ended failed going])
    case (ended n2 bs2 s2)
    then show ?thesis using Cons.prems wk(2) by (simp add: loop_ok_def wait_ok_def del: epoll_loop.simps)
  next
    case (failed s2)
    then show ?thesis using Cons.prems(1) by (simp del: epoll_loop.simps)
  next
    case (going n2 bs2 s2)
    show ?thesis
      by (rule Cons.IH[OF _ going(3) _ Cons.prems(4) going(5)])
        (use Cons.prems wk(2) going in \<open>simp_all del: epoll_loop.simps\<close>)
  qed
qed simp

lemma epoll_loop_prefix:
  assumes "epoll_loop po dl dg (gc_index (elems (ca_gcs ca))) this pre now bs s = Still_blocked"
    "loop_ok ca this s" "length bs = length (elems (ca_gcs ca))" "\<forall>wk\<in>set pre. calm ca wk"
  shows "\<exists>now' bs' s'. (\<forall>ws. epoll_loop po dl dg (gc_index (elems (ca_gcs ca))) this (pre @ ws) now bs s =
            epoll_loop po dl dg (gc_index (elems (ca_gcs ca))) this ws now' bs' s') \<and>
          loop_ok ca this s' \<and> length bs' = length (elems (ca_gcs ca))"
  using assms
proof (induction pre arbitrary: now bs s)
  case (Cons wk pre)
  have wk: "calm ca wk" using Cons.prems(4) by simp
  show ?case
  proof (cases rule: epoll_loop_step[OF Cons.prems(2) wk Cons.prems(3), of po dl dg now 0, case_names ended failed going])
    case (going n2 bs2 s2)
    have b: "epoll_loop po dl dg (gc_index (elems (ca_gcs ca))) this pre n2 bs2 s2 = Still_blocked"
      using going(1)[of pre] Cons.prems(1) by simp
    have "length bs2 = length (elems (ca_gcs ca))" "\<forall>wk\<in>set pre. calm ca wk" using going(4) Cons.prems(3,4) by simp_all
    from Cons.IH[OF b going(3) this] show ?thesis unfolding append_Cons going(1) .
  qed (use Cons.prems(1) in \<open>simp_all del: epoll_loop.simps\<close>)
qed auto

lemma drain_unarmed_pending: "drain_unarmed sy es s = Some s' \<Longrightarrow> gc_count s' g = gc_count s g"
  by (simp add: drain_unarmed_count)

lemma wire_doorbell_count: "wire_doorbell sy ca s = (b, s') \<Longrightarrow> gc_count s' g = gc_count s g"
  by (auto simp: wire_doorbell_def gc_count_def Let_def split: prod.splits if_splits)


section \<open>Termination\<close>

lemma epoll_loop_clock:
  assumes "loop_ok ca this s" "length bs = length (elems (ca_gcs ca))" "\<forall>wk\<in>set pre. calm ca wk"
    "\<forall>wk\<in>set pre. \<forall>ms. 0 < wk_delay wk + wk_elapsed wk ms"
  shows "(\<forall>ws. epoll_loop po dl dg (gc_index (elems (ca_gcs ca))) this (pre @ ws) now bs s \<noteq> Still_blocked) \<or>
    (\<exists>now' bs' s'. (\<forall>ws. epoll_loop po dl dg (gc_index (elems (ca_gcs ca))) this (pre @ ws) now bs s =
            epoll_loop po dl dg (gc_index (elems (ca_gcs ca))) this ws now' bs' s') \<and>
          now + int (length pre) \<le> now' \<and> loop_ok ca this s' \<and> length bs' = length (elems (ca_gcs ca)))"
  using assms
proof (induction pre arbitrary: now bs s)
  case (Cons wk pre)
  have wk: "calm ca wk" using Cons.prems(3) by simp
  show ?case
  proof (cases rule: epoll_loop_step[OF Cons.prems(1) wk Cons.prems(2), of po dl dg now 0, case_names ended failed going])
    case (going n2 bs2 s2)
    have "0 < wk_delay wk + wk_elapsed wk (block_ms po dl dg (now + int (wk_delay wk)))"
      by (rule Cons.prems(4)[rule_format]) simp
    then have n2: "now + 1 \<le> n2" using going(2) by linarith
    have "length bs2 = length (elems (ca_gcs ca))" "\<forall>wk\<in>set pre. calm ca wk"
      "\<forall>wk\<in>set pre. \<forall>ms. 0 < wk_delay wk + wk_elapsed wk ms" using going(4) Cons.prems(2-4) by simp_all
    from Cons.IH[OF going(3) this, of n2] show ?thesis
      unfolding append_Cons going(1) using n2 by fastforce
  qed (simp_all del: epoll_loop.simps)
qed auto

lemma finish_wait_ends:
  assumes "e \<noteq> Still_blocked"
    "case e of Still_blocked \<Rightarrow> True | Dangling \<Rightarrow> False | Epoll_error s' \<Rightarrow> wait_ok ca s' | Left now' bs' s' \<Rightarrow> wait_ok ca s'"
  shows "\<exists>r clock ca' s'. finish_wait tail dl ca e = Wait_returned r clock ca' s'"
proof (cases e)
  case (Left now' bs' s')
  then obtain ca' any s'' where "outputs ca bs' s' = Some (ca', any, s'')"
    using outputs_run[of ca s' bs'] assms(2) by (auto simp: wait_ok_def)
  then show ?thesis by (simp add: Left finish_wait_def)
qed (use assms in \<open>simp_all add: finish_wait_def\<close>)


section \<open>Arming is complete\<close>

lemma register_fd_other:
  "fd' \<noteq> fd \<Longrightarrow> (fd' \<in> ar_this_call (register_fd ctl (fd, e) a) \<longleftrightarrow> fd' \<in> ar_this_call a) \<and>
     ar_armed (register_fd ctl (fd, e) a) fd' = ar_armed a fd'"
  by (auto simp: register_fd_def Let_def)

lemma register_fd_unarmed: "set (ar_unarmed a) \<subseteq> set (ar_unarmed (register_fd ctl x a))"
  by (auto simp: register_fd_def Let_def split: prod.splits)

lemma register_all_other:
  "fd \<notin> fst ` set xs \<Longrightarrow>
     (fd \<in> ar_this_call (fold (register_fd ctl) xs a) \<longleftrightarrow> fd \<in> ar_this_call a) \<and>
     ar_armed (fold (register_fd ctl) xs a) fd = ar_armed a fd"
proof (induction xs arbitrary: a)
  case (Cons x xs)
  obtain fd' e where x: "x = (fd', e)" by (cases x)
  then show ?case using Cons register_fd_other[of fd fd' ctl e a] by simp
qed simp

lemma register_all_unarmed: "set (ar_unarmed a) \<subseteq> set (ar_unarmed (fold (register_fd ctl) xs a))"
proof (induction xs arbitrary: a)
  case (Cons x xs)
  show ?case using subset_trans[OF register_fd_unarmed Cons.IH[of "register_fd ctl x a"]] by simp
qed simp

lemma register_all_complete:
  "distinct (map fst xs) \<Longrightarrow> (fd, e) \<in> set xs \<Longrightarrow> 0 \<le> fd \<Longrightarrow>
   (\<And>x. ar_armed a fd = Some x \<Longrightarrow> ae_uid x = ae_uid e \<Longrightarrow> x = e) \<Longrightarrow>
   (let a' = fold (register_fd ctl) xs a in
     fd \<in> ar_this_call a' \<and> ar_armed a' fd = Some e \<or> fd \<notin> ar_this_call a' \<and> e \<in> set (ar_unarmed a'))"
proof (induction xs arbitrary: a)
  case (Cons x xs)
  obtain fd1 e1 where x: "x = (fd1, e1)" by (cases x)
  show ?case
  proof (cases "fd1 = fd")
    case True
    have "e1 = e"
    proof (rule ccontr)
      assume "e1 \<noteq> e"
      then have "(fd, e) \<in> set xs" using Cons.prems(2) by (simp add: x)
      then have "fd \<in> fst ` set xs" by force
      then show False using Cons.prems(1) True by (simp add: x)
    qed
    have step: "fd \<in> ar_this_call (register_fd ctl x a) \<and> ar_armed (register_fd ctl x a) fd = Some e \<or>
        fd \<notin> ar_this_call (register_fd ctl x a) \<and> e \<in> set (ar_unarmed (register_fd ctl x a))"
      using Cons.prems(3,4) by (cases "ar_armed a fd") (auto simp: x True \<open>e1 = e\<close> register_fd_def Let_def)
    have "fd \<notin> fst ` set xs" using Cons.prems(1) True by (simp add: x)
    then show ?thesis
      using step register_all_other[of fd xs ctl "register_fd ctl x a"] register_all_unarmed[of "register_fd ctl x a" ctl xs]
      by (auto simp: Let_def)
  next
    case False
    have "(\<And>y. ar_armed (register_fd ctl x a) fd = Some y \<Longrightarrow> ae_uid y = ae_uid e \<Longrightarrow> y = e)"
      using Cons.prems(4) register_fd_other[of fd fd1 ctl e1 a] False by (simp add: x)
    then show ?thesis using Cons.IH[of "register_fd ctl x a"] Cons.prems(1-3) False by (simp add: x Let_def)
  qed
qed simp

text \<open>
  Nothing the caller waits on is invisible. After the arming pass every entity waited on,
  and the doorbell, is either armed under its own entry, whatever the wait set remembered of
  the descriptor's former owners and whether or not the kernel already knew it, or on the list
  that is drained directly and bounds the block.
\<close>

theorem arming_complete:
  assumes "wait_ok ca s" "arm_all we ca s = Some a" "distinct (map fst (map the (watch_list (wv_fd we) ca s)))"
    "Some (fd, e) \<in> set (watch_list (wv_fd we) ca s)" "0 \<le> fd"
  shows "fd \<in> ar_this_call a \<and> ar_armed a fd = Some e \<or> fd \<notin> ar_this_call a \<and> e \<in> set (ar_unarmed a)"
proof -
  have live: "callers_live ca s" "uid_sound s" using assms(1) by (simp_all add: wait_ok_def)
  have mem: "(fd, e) \<in> set (map the (watch_list (wv_fd we) ca s))" using assms(4) by force
  have "entity_uid s (ae_kind e) (ae_entity e) = Some (ae_uid e)"
    using watch_list_ok(2)[OF live(1), of "wv_fd we"] mem by auto
  then have known: "x = e" if "armed_of s fd = Some x" "ae_uid x = ae_uid e" for x
    using live(2) that unfolding uid_sound_def by (metis armed_entry.equality old.unit.exhaust)
  have "a = fold (register_fd (wv_ctl we)) (map the (watch_list (wv_fd we) ca s))
              \<lparr>ar_armed = armed_of s, ar_this_call = {}, ar_unarmed = []\<rparr>"
    using assms(2) by (simp add: arm_all_def Let_def split: if_splits)
  then show ?thesis
    using register_all_complete[OF assms(3) mem assms(5), of "\<lparr>ar_armed = armed_of s, ar_this_call = {}, ar_unarmed = []\<rparr>" "wv_ctl we"]
      known by (simp add: Let_def)
qed

section \<open>Rounding\<close>

lemma sint_nonneg:
  assumes "0 \<le> k" "k < 2 ^ (LENGTH('a::len) - 1)"
  shows "sint (word_of_int k :: 'a word) = k"
  unfolding sint_sbintrunc' by (rule signed_take_bit_int_eq_self[OF order_trans[OF _ assms(1)] assms(2)]) simp


end
