(* ===== verification/Uds_Wait_Examples.thy ===== *)
theory Uds_Wait_Examples
  imports Uds_Wait_Triggers Uds_Pubsub_Props
begin

text \<open>
  A wait on one guard condition by a wait set that still remembers a destroyed subscription:
  the witnesses of the theorems on waits.
\<close>

definition wait_ctx :: context_state where
  "wait_ctx = \<lparr>cs_ids = ctx0, cs_is_shutdown = False, cs_last_registry_generation = 1, cs_last_cleanup_ns = 0,
     cs_doorbell_socket = 9, cs_doorbell_path = ''/d'', cs_doorbell_registered = False,
     cs_doorbell_registry_index = -1, cs_graph_gcs = []\<rparr>"

definition gc_state :: "u64 \<Rightarrow> (bytes, bytes, bytes) waiting" where
  "gc_state c =
     \<lparr>wt_process = \<lparr>pc_world = world0, pc_gcs = [0 \<mapsto> \<lparr>gd_uid = 5, gd_eventfd = 7, gd_count = c\<rparr>], pc_next_gc = 1\<rparr>,
      wt_ctx = wait_ctx, wt_subs = Map.empty, wt_services = Map.empty, wt_clients = Map.empty,
      wt_set = \<lparr>ws_has_context = True,
                ws_armed = [4 \<mapsto> \<lparr>ae_kind = ARMED_SUBSCRIPTION, ae_entity = 8, ae_uid = 3\<rparr>]\<rparr>\<rparr>"

definition wait_sets0 :: caller_sets where
  "wait_sets0 = \<lparr>ca_subs = None, ca_gcs = Some [None, Some 0], ca_services = None, ca_clients = None, ca_events = Some [Some 1]\<rparr>"

definition trigger0 :: "(bytes, bytes, bytes) waiting \<Rightarrow> (bytes, bytes, bytes) waiting" where
  "trigger0 s = s\<lparr>wt_process := (wt_process s)\<lparr>pc_gcs := (pc_gcs (wt_process s))
     (0 := map_option (\<lambda>gd. gd\<lparr>gd_count := 1\<rparr>) (pc_gcs (wt_process s) 0))\<rparr>\<rparr>"

text \<open>The stale descriptor 4 and the eventfd 7 are reported together; or nothing, after the timeout.\<close>

definition wake0 :: "(bytes, bytes, bytes) wake" where
  "wake0 = \<lparr>wk_delay = 1, wk_env = trigger0, wk_result = (\<lambda>_. Epoll_ready [4, 7]), wk_elapsed = (\<lambda>_. 1000), wk_sys = sys0\<rparr>"

definition expiry0 :: "(bytes, bytes, bytes) wake" where
  "expiry0 = \<lparr>wk_delay = 1, wk_env = id,
     wk_result = (\<lambda>ms. if ms < 0 then Epoll_eintr else Epoll_ready []),
     wk_elapsed = (\<lambda>ms. nat (ms * 1000000)), wk_sys = sys0\<rparr>"

definition wait_env0 :: "(bytes, bytes, bytes) wake list \<Rightarrow> (bytes, bytes, bytes) wait_env" where
  "wait_env0 wakes = \<lparr>wv_sys = sys0, wv_fd = (\<lambda>n. int n + 100), wv_ctl = (\<lambda>_. Ctl_eexist), wv_now = 10,
     wv_wakes = wakes, wv_tail = 0\<rparr>"

definition set_handle :: "wait_set handle" where
  "set_handle = \<lparr>hn_identifier = uds_identifier, hn_data = wt_set (gc_state 0)\<rparr>"

lemma set_handle_ok: "hn_identifier set_handle = uds_identifier" "wt_set (gc_state c) = hn_data set_handle"
  by (simp_all add: set_handle_def gc_state_def)

lemma gc_state_ok: "wait_ok wait_sets0 (gc_state c)"
proof -
  have e: "entity_uid (gc_state c) k p = (if k = ARMED_GUARD_CONDITION \<and> p = 0 then Some 5
      else if k = ARMED_DOORBELL \<and> p = 0 then Some 0 else None)" for k p
    by (cases k) (simp_all add: gc_state_def)
  show ?thesis
    unfolding wait_ok_def callers_live_def uid_sound_def uids_unique_def e graph_live_def
    by (auto simp: caller_has_def wait_sets0_def ptrs_def elems_def gc_state_def wait_ctx_def split: armed_kind.splits if_splits)
qed

lemma trigger0_still: "still s (trigger0 s)"
  by (rule stillI) (auto simp: trigger0_def option.map_comp comp_def)

lemma wakes0_calm: "calm ca wake0" "calm ca expiry0"
  using still_wait_ok[OF trigger0_still]
  by (auto simp: calm_def wake0_def expiry0_def) (simp add: trigger0_def)

theorem wait_touches_only_live_witness:
  "case rmw_wait (wait_env0 [wake0, expiry0]) wait_sets0 (Some set_handle) (Some (0, 5)) (gc_state 0) of
     Wait_blocked \<Rightarrow> True | Wait_undefined \<Rightarrow> False | Wait_returned r clock ca' s' \<Rightarrow> wait_ok wait_sets0 s'"
  by (rule wait_touches_only_live[OF gc_state_ok set_handle_ok(2)]) (simp add: wait_env0_def wakes0_calm)

lemma doorbell_silent: "wire_doorbell sy ca (gc_state c) = (False, gc_state c)"
  by (simp add: wire_doorbell_def gc_state_def wait_ctx_def list_ex_iff Let_def)

lemma generation_seen: "run_generation_check (gc_state c) = Some (gc_state c)"
proof -
  have g: "rg_generation (wo_reg world0) = 1" by (simp add: world0_def reg0_def)
  have "drain_doorbell 9 world0 = world0" by (simp add: drain_doorbell_def world0_def fun_upd_idem)
  then show ?thesis by (simp add: run_generation_check_def gc_state_def wait_ctx_def Let_def registry_generation_def g)
qed

definition armed_state :: "u64 \<Rightarrow> (bytes, bytes, bytes) waiting" where
  "armed_state c = (gc_state c)\<lparr>wt_set := \<lparr>ws_has_context = True,
     ws_armed = [4 \<mapsto> \<lparr>ae_kind = ARMED_SUBSCRIPTION, ae_entity = 8, ae_uid = 3\<rparr>,
                 7 \<mapsto> \<lparr>ae_kind = ARMED_GUARD_CONDITION, ae_entity = 0, ae_uid = 5\<rparr>,
                 109 \<mapsto> \<lparr>ae_kind = ARMED_DOORBELL, ae_entity = 0, ae_uid = 0\<rparr>]\<rparr>\<rparr>"

lemma gc_arming:
  "arm_all (wait_env0 wakes) wait_sets0 (gc_state c) =
     Some \<lparr>ar_armed = ws_armed (wt_set (armed_state c)), ar_this_call = {109, 7}, ar_unarmed = []\<rparr>"
  by (simp add: arm_all_def watch_list_def ptrs_def elems_def wait_sets0_def wait_env0_def register_fd_def Let_def
      gc_state_def wait_ctx_def armed_state_def)

lemma gc_ready:
  "check_ready wait_sets0 (armed_state c) = Some (c \<noteq> 0, [False, c \<noteq> 0], armed_state 0)"
  by (simp add: check_ready_def queues_ready_def read_gc_def eventfd_read_def elems_def ptrs_def wait_sets0_def
      armed_state_def gc_state_def)

lemma gc_wait:
  "rmw_wait (wait_env0 wakes) wait_sets0 (Some set_handle) t (gc_state c) =
     finish_wait 0 (wait_deadline 10 t) wait_sets0
       (epoll_loop (c \<noteq> 0) (wait_deadline 10 t) False (gc_index [None, Some 0]) {109, 7} wakes 10 [False, c \<noteq> 0] (armed_state 0))"
proof -
  have s: "(gc_state c)\<lparr>wt_set := hn_data set_handle\<rparr> = gc_state c"
    "(gc_state c)\<lparr>wt_set := (wt_set (gc_state c))\<lparr>ws_armed := ws_armed (wt_set (armed_state c))\<rparr>\<rparr> = armed_state c"
    by (simp_all add: gc_state_def set_handle_def armed_state_def)
  have e: "elems (ca_gcs wait_sets0) = [None, Some 0]" "wv_tail (wait_env0 wakes) = 0" "wv_now (wait_env0 wakes) = 10"
    "wv_wakes (wait_env0 wakes) = wakes"
    by (simp_all add: wait_env0_def wait_sets0_def elems_def)
  have g: "guard_entry (Some set_handle) True = Inr (hn_data set_handle)" by (simp add: guard_entry_def set_handle_ok(1))
  show ?thesis
    unfolding rmw_wait_def wait_on_def g sum.case s(1) doorbell_silent prod.case Let_def generation_seen option.case gc_arming
      arming.simps s(2) drain_unarmed.simps gc_ready e by simp
qed

text \<open>After the stale descriptor was withdrawn and the trigger read.\<close>

definition done_state :: "(bytes, bytes, bytes) waiting" where
  "done_state = withdraw 4 (armed_state 0)"

lemma gc_events:
  "handle_events sys0 (gc_index [None, Some 0]) {109, 7} [4, 7] [False, b] (trigger0 (armed_state 0)) =
     Some (True, [False, True], done_state)"
  by (simp add: handle_events_def dispatch_def dispatch_entry_def withdraw_def done_state_def trigger0_def armed_state_def
      gc_state_def read_gc_def eventfd_read_def)

lemma gc_loop: "epoll_loop False dl False (gc_index [None, Some 0]) {109, 7} (wake0 # wakes) 10 [False, b] (armed_state 0) =
    Left 1011 [False, True] done_state"
  using gc_events by (simp add: Let_def wake0_def)

lemma gc_outputs: "outputs wait_sets0 [False, b] done_state =
    Some (wait_sets0\<lparr>ca_gcs := Some [None, if b then Some 0 else None], ca_events := Some [None]\<rparr>, b, done_state)"
  by (simp add: outputs_def dangles_def ptrs_def elems_def wait_sets0_def done_state_def withdraw_def armed_state_def
      gc_state_def read_gc_def eventfd_read_def keep_ready_def Let_def)

lemma gc_result:
  "rmw_wait (wait_env0 (wake0 # wakes)) wait_sets0 (Some set_handle) None (gc_state 0) =
     Wait_returned RMW_RET_OK (Some 1011) (wait_sets0\<lparr>ca_gcs := Some [None, Some 0], ca_events := Some [None]\<rparr>) done_state"
  by (simp only: gc_wait simp_thms gc_loop) (simp add: finish_wait_def gc_outputs)


lemma wakes0_patient: "patient wait_sets0 wake0" "patient wait_sets0 expiry0" "honest wake0" "honest expiry0"
proof -
  have "deep (trigger0 s) = deep s" "has_work (trigger0 s) k p = has_work s k p" for s k p
    by (simp add: deep_def trigger0_def, cases k) (simp_all add: trigger0_def)
  then show "patient wait_sets0 wake0" by (simp add: patient_def wakes0_calm) (simp add: wake0_def)
  show "patient wait_sets0 expiry0" by (simp add: patient_def wakes0_calm) (simp add: expiry0_def)
  show "honest wake0" "honest expiry0" by (simp_all add: honest_def wake0_def expiry0_def)
qed


lemma one_ms: "timeout_ms (Some (0, 1)) = 1"
  by (simp add: timeout_ms_def total_ms_def INT_MAX_def Let_def signed_divide_int_def)


theorem arming_complete_witness:
  "7 \<in> {109, 7::int} \<and> ws_armed (wt_set (armed_state 0)) 7 = Some \<lparr>ae_kind = ARMED_GUARD_CONDITION, ae_entity = 0, ae_uid = 5\<rparr>"
proof -
  have w: "watch_list (wv_fd (wait_env0 [])) wait_sets0 (gc_state 0) =
      [Some (7, \<lparr>ae_kind = ARMED_GUARD_CONDITION, ae_entity = 0, ae_uid = 5\<rparr>),
       Some (109, \<lparr>ae_kind = ARMED_DOORBELL, ae_entity = 0, ae_uid = 0\<rparr>)]"
    by (simp add: watch_list_def ptrs_def elems_def wait_sets0_def wait_env0_def gc_state_def wait_ctx_def)
  have a: "arm_all (wait_env0 []) wait_sets0 (gc_state 0) =
      Some \<lparr>ar_armed = ws_armed (wt_set (armed_state 0)), ar_this_call = {109, 7}, ar_unarmed = []\<rparr>" by (rule gc_arming)
  show ?thesis
    using arming_complete[OF gc_state_ok a, unfolded w,
        of 7 "\<lparr>ae_kind = ARMED_GUARD_CONDITION, ae_entity = 0, ae_uid = 5\<rparr>"] by simp
qed


section \<open>A descriptor that cannot be withdrawn\<close>

text \<open>
  The loop withdraws a stale descriptor by its number. When the number was closed here while a
  forked child or a duplicate keeps the open file description alive, \<^verbatim>\<open>EPOLL_CTL_DEL\<close> fails, its
  result is ignored, and the kernel goes on reporting the descriptor at once.
\<close>

definition spin :: "(bytes, bytes, bytes) wake" where
  "spin = \<lparr>wk_delay = 0, wk_env = id, wk_result = (\<lambda>_. Epoll_ready [4]), wk_elapsed = (\<lambda>_. 0), wk_sys = sys0\<rparr>"

lemma spin_events:
  "4 \<notin> this \<Longrightarrow> handle_events sy ix this [4] bs s = Some (False, bs, withdraw 4 s)"
  by (cases "ws_armed (wt_set s) 4") (simp_all add: handle_events_def dispatch_def)

lemma spin_loop: "4 \<notin> this \<Longrightarrow> epoll_loop False None False ix this (replicate n spin) now bs s = Still_blocked"
proof (induction n arbitrary: now s)
  case (Suc n)
  have h: "handle_events (wk_sys spin) ix this [4] bs (wk_env spin s) = Some (False, bs, withdraw 4 s)"
    using spin_events[OF Suc.prems] by (simp add: spin_def)
  have r: "wk_result spin (block_ms False None False (now + int (wk_delay spin))) = Epoll_ready [4]" by (simp add: spin_def)
  show ?case
    unfolding replicate_Suc epoll_loop_ready[OF refl refl refl r not_Cons_self2 h] by (simp add: Suc)
qed simp


end
