(* ===== verification/Uds_Doorbell.thy ===== *)
theory Uds_Doorbell
  imports Uds_Wait
begin

text \<open>
  The doorbell protocol between one waiting context and any number of mutators of the
  registry, one access per step: a mutator bumps the generation and later looks for the
  doorbell's slot and rings it (\<^verbatim>\<open>registry.cpp\<close>); the waiter registers its doorbell, drains
  it, reads the generation, and blocks (\<^verbatim>\<open>rmw_wait.cpp\<close>). Rings go through a socket queue of
  some positive capacity; a ring that finds it full is dropped.
\<close>

datatype waiter = Wiring | Draining | Reading | Blocked

record bell =
  be_generation :: u64
  be_registered :: bool
  be_queue :: nat         \<comment> \<open>rings waiting in the doorbell's socket\<close>
  be_last :: u64          \<comment> \<open>\<^verbatim>\<open>last_registry_generation\<close>\<close>
  be_ringers :: nat       \<comment> \<open>mutators between their bump and their ring\<close>
  be_waiter :: waiter

definition first_wait :: "u64 \<Rightarrow> bell" where
  "first_wait gen = \<lparr>be_generation = gen, be_registered = False, be_queue = 0, be_last = gen, be_ringers = 0,
     be_waiter = Wiring\<rparr>"

definition rung_bell :: "nat \<Rightarrow> bell \<Rightarrow> bell" where
  "rung_bell capacity b =
     b\<lparr>be_ringers := be_ringers b - 1,
       be_queue := (if be_registered b then min capacity (be_queue b + 1) else be_queue b)\<rparr>"

inductive bell_step :: "nat \<Rightarrow> bell \<Rightarrow> bell \<Rightarrow> bool" for capacity where
  bump: "bell_step capacity b (b\<lparr>be_generation := be_generation b + 1, be_ringers := be_ringers b + 1\<rparr>)"
| ring: "0 < be_ringers b \<Longrightarrow> bell_step capacity b (rung_bell capacity b)"
| wire: "be_waiter b = Wiring \<Longrightarrow>
    bell_step capacity b (b\<lparr>be_registered := True, be_generation := be_generation b + 1, be_waiter := Draining\<rparr>)"
| drain: "be_waiter b = Draining \<Longrightarrow> bell_step capacity b (b\<lparr>be_queue := 0, be_waiter := Reading\<rparr>)"
| read: "be_waiter b = Reading \<Longrightarrow> bell_step capacity b (b\<lparr>be_last := be_generation b, be_waiter := Blocked\<rparr>)"
| wake: "be_waiter b = Blocked \<Longrightarrow> 0 < be_queue b \<Longrightarrow> bell_step capacity b (b\<lparr>be_waiter := Draining\<rparr>)"
| next_wait: "be_waiter b = Blocked \<Longrightarrow> bell_step capacity b (b\<lparr>be_waiter := Draining\<rparr>)"

inductive_cases bell_stepE: "bell_step capacity b b'"

definition bell_inv :: "bell \<Rightarrow> bool" where
  "bell_inv b \<longleftrightarrow> (be_waiter b \<noteq> Wiring \<longrightarrow> be_registered b) \<and>
     (be_waiter b = Blocked \<longrightarrow> be_generation b \<noteq> be_last b \<longrightarrow> 0 < be_queue b \<or> 0 < be_ringers b)"

lemma bell_inv_step:
  assumes "bell_step capacity b b'" "0 < capacity" "bell_inv b"
  shows "bell_inv b'"
  using assms by (cases rule: bell_step.cases) (auto simp: bell_inv_def rung_bell_def)

interpretation bells: transition_invariant "bell_step capacity" "\<lambda>b. 0 < capacity \<longrightarrow> bell_inv b" for capacity
  by unfold_locales (auto intro: bell_inv_step)

lemma bell_inv_reachable:
  "(bell_step capacity)\<^sup>*\<^sup>* (first_wait gen) b \<Longrightarrow> 0 < capacity \<Longrightarrow> bell_inv b"
  using bells.steps_keep[of capacity "first_wait gen" b] by (simp add: bell_inv_def first_wait_def)

text \<open>All pending ringers ring, one after the other.\<close>

lemma rings_run:
  "be_ringers b = n \<Longrightarrow> (bell_step capacity)\<^sup>*\<^sup>* b ((rung_bell capacity ^^ n) b) \<and>
     be_ringers ((rung_bell capacity ^^ n) b) = 0 \<and> be_waiter ((rung_bell capacity ^^ n) b) = be_waiter b"
proof (induction n arbitrary: b)
  case (Suc n)
  have s: "bell_step capacity b (rung_bell capacity b)" using Suc.prems by (simp add: bell_step.ring)
  have r: "be_ringers (rung_bell capacity b) = n" "be_waiter (rung_bell capacity b) = be_waiter b"
    using Suc.prems by (simp_all add: rung_bell_def)
  show ?case unfolding funpow_Suc_right comp_def using Suc.IH[OF r(1)] r(2) s
    by (auto intro: converse_rtranclp_into_rtranclp)
qed simp

lemma queue_kept:
  "0 < capacity \<Longrightarrow> be_registered b \<Longrightarrow> 0 < be_queue b \<or> 0 < n \<Longrightarrow> 0 < be_queue ((rung_bell capacity ^^ n) b)"
proof (induction n arbitrary: b)
  case (Suc n)
  have "0 < be_queue (rung_bell capacity b)" "be_registered (rung_bell capacity b)"
    using Suc.prems by (simp_all add: rung_bell_def)
  then show ?case unfolding funpow_Suc_right comp_def using Suc.IH Suc.prems(1) by blast
qed simp

text \<open>
  C12: no wake-up is lost. In every interleaving of registry mutations with the waiter's
  registration, drain, generation read and block, if the waiter is blocked and the generation
  is no longer the one it last saw, then once the mutators on their way to ring have rung, a
  ring is waiting in its socket (so the level-triggered block ends): draining before reading
  and ringing after the bump suffice, whatever rings a full queue drops.
\<close>

theorem no_lost_wakeup:
  assumes "0 < capacity" "(bell_step capacity)\<^sup>*\<^sup>* (first_wait gen) b" "be_waiter b = Blocked"
    "be_generation b \<noteq> be_last b"
  shows "\<exists>c. (bell_step capacity)\<^sup>*\<^sup>* b c \<and> c = (rung_bell capacity ^^ be_ringers b) b \<and> be_ringers c = 0 \<and>
    be_waiter c = Blocked \<and> 0 < be_queue c"
proof -
  have "bell_inv b" by (rule bell_inv_reachable[OF assms(2,1)])
  then have "be_registered b" "0 < be_queue b \<or> 0 < be_ringers b" using assms(3,4) by (simp_all add: bell_inv_def)
  then show ?thesis using queue_kept[OF assms(1)] rings_run[of b "be_ringers b" capacity] assms(3) by auto
qed

definition missed :: bell where
  "missed = \<lparr>be_generation = 9, be_registered = True, be_queue = 0, be_last = 8, be_ringers = 1, be_waiter = Blocked\<rparr>"

theorem no_lost_wakeup_witness:
  "\<exists>c. (bell_step 3)\<^sup>*\<^sup>* missed c \<and> c = (rung_bell 3 ^^ be_ringers missed) missed \<and> be_ringers c = 0 \<and>
    be_waiter c = Blocked \<and> 0 < be_queue c"
proof (rule no_lost_wakeup[of 3 7])
  let ?b = "\<lambda>g l r w. \<lparr>be_generation = g, be_registered = True, be_queue = 0, be_last = l, be_ringers = r, be_waiter = w\<rparr>"
  have "bell_step 3 (first_wait 7) (?b 8 7 0 Draining)" using bell_step.wire[of "first_wait 7" 3] by (simp add: first_wait_def)
  moreover have "bell_step 3 (?b 8 7 0 Draining) (?b 8 7 0 Reading)" using bell_step.drain[of "?b 8 7 0 Draining" 3] by simp
  moreover have "bell_step 3 (?b 8 7 0 Reading) (?b 8 8 0 Blocked)" using bell_step.read[of "?b 8 7 0 Reading" 3] by simp
  moreover have "bell_step 3 (?b 8 8 0 Blocked) missed" using bell_step.bump[of 3 "?b 8 8 0 Blocked"] by (simp add: missed_def)
  ultimately show "(bell_step 3)\<^sup>*\<^sup>* (first_wait 7) missed"
    by (meson converse_rtranclp_into_rtranclp rtranclp.rtrancl_refl)
qed (simp_all add: missed_def)

end
