(* ===== verification/Uds_Init.thy ===== *)
theory Uds_Init
  imports Uds_Lifecycle "HOL-Library.Monad_Syntax"
begin

text \<open>
  Init options, the context's creation and its end (\<^verbatim>\<open>rmw_init.cpp\<close>). Options and contexts own
  heap blocks through raw pointers, so the heap is explicit: an address is live when the heap
  maps it, and an operation that touches a dead one has no result (\<open>None\<close>). The functions of
  the rmw and rcutils libraries that copy and free these blocks are not part of the repository:
  they are the record \<open>rmw_lib\<close>, and \<open>lib_ok\<close> is what their documentation promises.
\<close>

section \<open>The heap and what owns its blocks\<close>

datatype block = Text string | Peers "string list"

type_synonym heap = "nat \<rightharpoonup> block"

record security_options =
  so_enforce :: nat
  so_root_path :: "nat option"

record discovery_options =
  do_range :: nat
  do_static_peers :: "nat option"
  do_count :: nat

record init_options =
  io_instance_id :: u64
  io_identifier :: "string option"
  io_domain_id :: u64
  io_security :: security_options
  io_discovery :: discovery_options
  io_enclave :: "nat option"
  io_impl :: "nat option"

record rmw_context =
  rc_identifier :: "string option"
  rc_instance_id :: u64
  rc_options :: init_options
  rc_actual_domain_id :: u64
  rc_impl :: "nat option"     \<comment> \<open>pointer to a \<^verbatim>\<open>UdsContext\<close>\<close>

section \<open>The library functions\<close>

record rmw_lib =
  lb_default_domain_id :: u64
  lb_zero_security :: security_options
  lb_zero_discovery :: discovery_options
  lb_zero_options :: init_options
  lb_zero_context :: rmw_context
  lb_strdup :: "nat \<Rightarrow> heap \<Rightarrow> (nat option \<times> heap) option"
  lb_deallocate :: "nat \<Rightarrow> heap \<Rightarrow> heap option"
  lb_security_copy :: "security_options \<Rightarrow> security_options \<Rightarrow> heap \<Rightarrow> (rmw_ret \<times> security_options \<times> heap) option"
  lb_security_fini :: "security_options \<Rightarrow> heap \<Rightarrow> (rmw_ret \<times> security_options \<times> heap) option"
  lb_discovery_copy :: "discovery_options \<Rightarrow> discovery_options \<Rightarrow> heap \<Rightarrow> (rmw_ret \<times> discovery_options \<times> heap) option"
  lb_discovery_fini :: "discovery_options \<Rightarrow> heap \<Rightarrow> (rmw_ret \<times> discovery_options \<times> heap) option"

section \<open>Init options\<close>

definition rmw_init_options_init :: "rmw_lib \<Rightarrow> init_options option \<Rightarrow> rmw_ret \<times> init_options option" where
  "rmw_init_options_init lib o' =
     (case o' of
        None \<Rightarrow> (RMW_RET_INVALID_ARGUMENT, None)
      | Some io \<Rightarrow>
          if io_identifier io \<noteq> None then (RMW_RET_INVALID_ARGUMENT, Some io)
          else (RMW_RET_OK,
                Some \<lparr>io_instance_id = 0, io_identifier = Some uds_identifier, io_domain_id = lb_default_domain_id lib,
                      io_security = lb_zero_security lib, io_discovery = lb_zero_discovery lib,
                      io_enclave = None, io_impl = None\<rparr>))"

text \<open>
  The copy assigns the whole structure first, pointers included, and then replaces the pointers
  one by one. A failed \<^verbatim>\<open>strdup\<close> of the enclave is not a failure here: the copy has a null
  enclave.
\<close>

definition rmw_init_options_copy ::
    "rmw_lib \<Rightarrow> init_options option \<Rightarrow> init_options option \<Rightarrow> heap \<Rightarrow> (rmw_ret \<times> init_options option \<times> heap) option" where
  "rmw_init_options_copy lib src dst h =
     (case (src, dst) of
        (Some s, Some d0) \<Rightarrow>
          if io_identifier d0 \<noteq> None then Some (RMW_RET_INVALID_ARGUMENT, Some d0, h)
          else do {
            (r1, sec, h1) \<leftarrow> lb_security_copy lib (io_security s) (lb_zero_security lib) h;
            let d1 = s\<lparr>io_security := sec\<rparr>;
            if r1 \<noteq> RMW_RET_OK then Some (r1, Some d1, h1)
            else do {
              (r2, disc, h2) \<leftarrow> lb_discovery_copy lib (io_discovery s) (lb_zero_discovery lib) h1;
              let d2 = d1\<lparr>io_discovery := disc\<rparr>;
              if r2 \<noteq> RMW_RET_OK
              then do {
                (_, sec', h3) \<leftarrow> lb_security_fini lib sec h2;
                Some (r2, Some (d2\<lparr>io_security := sec'\<rparr>), h3)
              }
              else (case io_enclave s of
                      None \<Rightarrow> Some (RMW_RET_OK, Some d2, h2)
                    | Some e \<Rightarrow> do {
                        (p, h3) \<leftarrow> lb_strdup lib e h2;
                        Some (RMW_RET_OK, Some (d2\<lparr>io_enclave := p\<rparr>), h3)
                      })
            }
          }
      | _ \<Rightarrow> Some (RMW_RET_INVALID_ARGUMENT, dst, h))"

definition free_opt :: "rmw_lib \<Rightarrow> nat option \<Rightarrow> heap \<Rightarrow> heap option" where
  "free_opt lib p h = (case p of None \<Rightarrow> Some h | Some a \<Rightarrow> lb_deallocate lib a h)"

definition rmw_init_options_fini ::
    "rmw_lib \<Rightarrow> init_options option \<Rightarrow> heap \<Rightarrow> (rmw_ret \<times> init_options option \<times> heap) option" where
  "rmw_init_options_fini lib o' h =
     (case o' of
        None \<Rightarrow> Some (RMW_RET_INVALID_ARGUMENT, None, h)
      | Some io \<Rightarrow> do {
          h1 \<leftarrow> free_opt lib (io_enclave io) h;
          (_, _, h2) \<leftarrow> lb_security_fini lib (io_security io) h1;
          (_, _, h3) \<leftarrow> lb_discovery_fini lib (io_discovery io) h2;
          Some (RMW_RET_OK, Some (lb_zero_options lib), h3)
        })"

section \<open>What the process holds\<close>

text \<open>
  The \<^verbatim>\<open>UdsContext\<close> with its descriptors: \<open>context_state\<close> is the part the rest of the
  development works on; a closed or missing descriptor is \<open>None\<close>. Descriptors are tokens: the
  mapped registry file (descriptor and mapping go together), the send socket, and the doorbell's
  socket under the number the kernel's socket table knows.
\<close>

record full_context = context_state +
  fc_registry :: "nat option"
  fc_send_socket :: "nat option"
  fc_doorbell :: "nat option"

datatype descriptor = Registry_mapping nat | Send_socket nat | Doorbell_socket nat

record host =
  ho_world :: world
  ho_registry_file :: "(nat \<times> u32) option"   \<comment> \<open>size and version word of the domain's file; its table is the world's\<close>
  ho_open :: "descriptor set"
  ho_contexts :: "nat \<rightharpoonup> full_context"        \<comment> \<open>live \<^verbatim>\<open>UdsContext\<close> objects\<close>
  ho_next :: nat
  ho_heap :: heap

record init_env =
  iv_sys :: sys
  iv_random :: "(u32 \<times> u32) option"          \<comment> \<open>\<^verbatim>\<open>std::random_device\<close>, \<open>None\<close> when it throws\<close>
  iv_dir_ok :: bool                         \<comment> \<open>\<^verbatim>\<open>stat\<close> finds a directory\<close>
  iv_header_bytes :: nat
  iv_open :: "nat \<Rightarrow> open_env"
  iv_socket_files :: "string list option"
  iv_shm_files :: "string list option"
  iv_steady_now :: int
  iv_send_net :: net_env                    \<comment> \<open>the outcome of creating the send socket\<close>

definition new_uds_context :: full_context where
  "new_uds_context = \<lparr>cs_ids = \<lparr>cx_domain_id = 0, cx_context_id = 0\<rparr>, cs_is_shutdown = False,
     cs_last_registry_generation = 0, cs_last_cleanup_ns = 0, cs_doorbell_socket = 0, cs_doorbell_path = [],
     cs_doorbell_registered = False, cs_doorbell_registry_index = -1, cs_graph_gcs = [],
     fc_registry = None, fc_send_socket = None, fc_doorbell = None\<rparr>"

definition alloc_context :: "host \<Rightarrow> nat \<times> host" where
  "alloc_context ho =
     (ho_next ho, ho\<lparr>ho_contexts := (ho_contexts ho)(ho_next ho \<mapsto> new_uds_context), ho_next := Suc (ho_next ho)\<rparr>)"

definition delete_context :: "nat \<Rightarrow> host \<Rightarrow> host" where
  "delete_context p ho = ho\<lparr>ho_contexts := (ho_contexts ho)(p := None)\<rparr>"

definition close_descriptor :: "descriptor \<Rightarrow> host \<Rightarrow> host" where
  "close_descriptor d ho = ho\<lparr>ho_open := ho_open ho - {d}\<rparr>"

definition unlink_path :: "string \<Rightarrow> host \<Rightarrow> host" where
  "unlink_path path ho = ho\<lparr>ho_world := (ho_world ho)\<lparr>wo_net := net_unlink (wo_net (ho_world ho)) path\<rparr>\<rparr>"

definition registry_close :: "nat option \<Rightarrow> host \<Rightarrow> host" where
  "registry_close reg ho = (case reg of None \<Rightarrow> ho | Some n \<Rightarrow> close_descriptor (Registry_mapping n) ho)"

text \<open>Opening the registry maps the file; the world's table is the file's.\<close>

definition open_registry_file :: "init_env \<Rightarrow> host \<Rightarrow> nat option \<times> host" where
  "open_registry_file iv ho =
     (let w = ho_world ho;
          f = map_option (\<lambda>(size, version). \<lparr>rf_size = size, rf_version = version, rf_table = wo_reg w\<rparr>) (ho_registry_file ho)
      in case registry_open (iv_header_bytes iv) (iv_open iv) f of
           (ok, f') \<Rightarrow>
             (let ho1 = ho\<lparr>ho_registry_file := map_option (\<lambda>g. (rf_size g, rf_version g)) f',
                           ho_world := (case f' of None \<Rightarrow> w | Some g \<Rightarrow> w\<lparr>wo_reg := rf_table g\<rparr>)\<rparr>
              in if ok
                 then (Some (ho_next ho1), ho1\<lparr>ho_open := insert (Registry_mapping (ho_next ho1)) (ho_open ho1), ho_next := Suc (ho_next ho1)\<rparr>)
                 else (None, ho1)))"

section \<open>Creation\<close>

text \<open>The sweeps of the registry, the socket directory and \<^verbatim>\<open>/dev/shm\<close>.\<close>

definition init_sweeps :: "init_env \<Rightarrow> u64 \<Rightarrow> world \<Rightarrow> world" where
  "init_sweeps iv domain_id w =
     (let sy = iv_sys iv;
          w1 = sweep_entries sy w;
          w2 = w1\<lparr>wo_net := fold (\<lambda>path net. net_unlink net path)
                 (cleanup_orphan_socket_files domain_id (sy_proc sy) (iv_socket_files iv)) (wo_net w1)\<rparr>
      in w2\<lparr>wo_fs := fold (\<lambda>name fs. shm_unlink fs name)
              (shm_cleanup_orphan_segments domain_id (sy_proc sy) (iv_shm_files iv)) (wo_fs w2)\<rparr>)"

definition open_send_socket :: "init_env \<Rightarrow> host \<Rightarrow> nat option \<times> host" where
  "open_send_socket iv ho =
     (if create_send_socket (iv_send_net iv)
      then (Some (ho_next ho), ho\<lparr>ho_open := insert (Send_socket (ho_next ho)) (ho_open ho), ho_next := Suc (ho_next ho)\<rparr>)
      else (None, ho))"

definition open_doorbell :: "init_env \<Rightarrow> u64 \<Rightarrow> host \<Rightarrow> string \<times> nat option \<times> host" where
  "open_doorbell iv domain_id ho =
     (let sy = iv_sys iv; w = ho_world ho;
          path = make_socket_path domain_id ''ctl'' (sy_pid sy) (wo_path_ctr w) (se_now_us (sy_shm sy));
          w1 = w\<lparr>wo_path_ctr := wo_path_ctr w + 1\<rparr>
      in case create_bound_socket (sy_net sy) (wo_net w1) path of
           (None, net) \<Rightarrow> (path, None, ho\<lparr>ho_world := w1\<lparr>wo_net := net\<rparr>\<rparr>)
         | (Some sock, net) \<Rightarrow>
             (path, Some sock,
              ho\<lparr>ho_world := w1\<lparr>wo_net := net\<rparr>, ho_open := insert (Doorbell_socket sock) (ho_open ho)\<rparr>))"

text \<open>
  The descriptors of a half-built context: on each failure after the registry is open the code
  closes those it has, newest first, and deletes the object.
\<close>

definition undo_doorbell :: "string \<Rightarrow> nat \<Rightarrow> host \<Rightarrow> host" where
  "undo_doorbell path bell ho = close_descriptor (Doorbell_socket bell) (unlink_path path ho)"

definition undo_base :: "nat \<Rightarrow> nat \<Rightarrow> host \<Rightarrow> host" where
  "undo_base p reg ho = delete_context p (registry_close (Some reg) ho)"

definition undo_send :: "nat \<Rightarrow> nat \<Rightarrow> nat \<Rightarrow> host \<Rightarrow> host" where
  "undo_send p reg tx ho = undo_base p reg (close_descriptor (Send_socket tx) ho)"

text \<open>
  The last part of \<^verbatim>\<open>rmw_init\<close>: every descriptor is open, and the caller's context is filled.
  The security options are assigned with the rest of the structure and not copied.
\<close>

definition commit_context ::
    "rmw_lib \<Rightarrow> init_options \<Rightarrow> u64 \<Rightarrow> nat \<Rightarrow> full_context \<Rightarrow> (host \<Rightarrow> host) \<Rightarrow> rmw_context \<Rightarrow> host \<Rightarrow>
       (rmw_ret \<times> rmw_context option \<times> host) option" where
  "commit_context lib opts domain_id p ctx undo c ho = do {
     (enclave, h1) \<leftarrow> (case io_enclave opts of None \<Rightarrow> Some (None, ho_heap ho) | Some e \<Rightarrow> lb_strdup lib e (ho_heap ho));
     let ho1 = ho\<lparr>ho_heap := h1\<rparr>;
     if io_enclave opts \<noteq> None \<and> enclave = None then Some (RMW_RET_BAD_ALLOC, Some c, undo ho1)
     else do {
       (r, disc, h2) \<leftarrow> lb_discovery_copy lib (io_discovery opts) (lb_zero_discovery lib) h1;
       if r \<noteq> RMW_RET_OK
       then do {
         h3 \<leftarrow> free_opt lib enclave h2;
         Some (r, Some (lb_zero_context lib), undo (ho1\<lparr>ho_heap := h3\<rparr>))
       }
       else Some (RMW_RET_OK,
              Some \<lparr>rc_identifier = Some uds_identifier, rc_instance_id = io_instance_id opts,
                    rc_options = opts\<lparr>io_enclave := enclave, io_discovery := disc\<rparr>,
                    rc_actual_domain_id = domain_id, rc_impl = Some p\<rparr>,
              ho1\<lparr>ho_heap := h2, ho_contexts := (ho_contexts ho1)(p \<mapsto> ctx)\<rparr>)
     }
   }"

definition build_context ::
    "rmw_lib \<Rightarrow> init_env \<Rightarrow> init_options \<Rightarrow> u64 \<Rightarrow> nat \<Rightarrow> u64 \<Rightarrow> rmw_context \<Rightarrow> host \<Rightarrow>
       (rmw_ret \<times> rmw_context option \<times> host) option" where
  "build_context lib iv opts domain_id p context_id c ho1 =
     (case open_registry_file iv ho1 of
        (None, ho2) \<Rightarrow> Some (RMW_RET_ERROR, Some c, delete_context p ho2)
      | (Some reg, ho2) \<Rightarrow>
          (let ho3 = ho2\<lparr>ho_world := init_sweeps iv domain_id (ho_world ho2)\<rparr> in
           case open_send_socket iv ho3 of
             (None, ho4) \<Rightarrow> Some (RMW_RET_ERROR, Some c, undo_base p reg ho4)
           | (Some tx, ho4) \<Rightarrow>
               (case open_doorbell iv domain_id ho4 of
                  (_, None, ho5) \<Rightarrow> Some (RMW_RET_ERROR, Some c, undo_send p reg tx ho5)
                | (path, Some bell, ho5) \<Rightarrow>
                    commit_context lib opts domain_id p
                      (new_uds_context
                         \<lparr>cs_ids := \<lparr>cx_domain_id = domain_id, cx_context_id = context_id\<rparr>,
                          cs_last_registry_generation := registry_generation (wo_reg (ho_world ho5)),
                          cs_last_cleanup_ns := iv_steady_now iv,
                          cs_doorbell_socket := bell, cs_doorbell_path := path,
                          fc_registry := Some reg, fc_send_socket := Some tx, fc_doorbell := Some bell\<rparr>)
                      (\<lambda>ho. undo_send p reg tx (undo_doorbell path bell ho)) c ho5)))"

definition rmw_init ::
    "rmw_lib \<Rightarrow> init_env \<Rightarrow> init_options option \<Rightarrow> rmw_context option \<Rightarrow> host \<Rightarrow> (rmw_ret \<times> rmw_context option \<times> host) option" where
  "rmw_init lib iv options context ho =
     (case (options, context) of
        (Some opts, Some c) \<Rightarrow>
          if io_identifier opts \<noteq> Some uds_identifier then Some (RMW_RET_INCORRECT_RMW_IMPLEMENTATION, Some c, ho)
          else if rc_impl c \<noteq> None then Some (RMW_RET_INVALID_ARGUMENT, Some c, ho)
          else if \<not> sy_new_ok (iv_sys iv) then Some (RMW_RET_BAD_ALLOC, Some c, ho)
          else (case alloc_context ho of
                  (p, ho1) \<Rightarrow>
                    (let domain_id = (if io_domain_id opts = lb_default_domain_id lib then 0 else io_domain_id opts) in
                     case iv_random iv of
                       None \<Rightarrow> Some (RMW_RET_ERROR, Some c, delete_context p ho1)
                     | Some (rd1, rd2) \<Rightarrow>
                         if \<not> iv_dir_ok iv then Some (RMW_RET_ERROR, Some c, delete_context p ho1)
                         else build_context lib iv opts domain_id p (generate_context_id rd1 rd2) c ho1))
      | _ \<Rightarrow> Some (RMW_RET_INVALID_ARGUMENT, context, ho))"

section \<open>Shutdown and end\<close>

definition rmw_shutdown :: "rmw_context option \<Rightarrow> host \<Rightarrow> (rmw_ret \<times> host) option" where
  "rmw_shutdown context ho =
     (case context of
        None \<Rightarrow> Some (RMW_RET_INVALID_ARGUMENT, ho)
      | Some c \<Rightarrow>
          if rc_identifier c \<noteq> Some uds_identifier then Some (RMW_RET_INCORRECT_RMW_IMPLEMENTATION, ho)
          else (case rc_impl c of
                  None \<Rightarrow> Some (RMW_RET_OK, ho)
                | Some p \<Rightarrow>
                    (case ho_contexts ho p of
                       None \<Rightarrow> None
                     | Some ctx \<Rightarrow>
                         Some (RMW_RET_OK, ho\<lparr>ho_contexts := (ho_contexts ho)(p \<mapsto> ctx\<lparr>cs_is_shutdown := True\<rparr>)\<rparr>))))"

text \<open>The doorbell's socket file goes with its registry slot, or by hand when it never had one.\<close>

definition retire_doorbell :: "sys \<Rightarrow> full_context \<Rightarrow> host \<Rightarrow> host" where
  "retire_doorbell sy ctx ho =
     (if cs_doorbell_registry_index ctx \<ge> 0 \<and> fc_registry ctx \<noteq> None
      then ho\<lparr>ho_world := remove_entry sy (cs_doorbell_registry_index ctx) (ho_world ho)\<rparr>
      else if cs_doorbell_path ctx \<noteq> [] then unlink_path (cs_doorbell_path ctx) ho
      else ho)"

definition close_context :: "sys \<Rightarrow> nat \<Rightarrow> full_context \<Rightarrow> host \<Rightarrow> host" where
  "close_context sy p ctx ho =
     (let ho1 = retire_doorbell sy ctx ho;
          ho2 = (case fc_doorbell ctx of None \<Rightarrow> ho1 | Some n \<Rightarrow> close_descriptor (Doorbell_socket n) ho1);
          ho3 = (case fc_send_socket ctx of None \<Rightarrow> ho2 | Some n \<Rightarrow> close_descriptor (Send_socket n) ho2)
      in delete_context p (registry_close (fc_registry ctx) ho3))"

definition rmw_context_fini ::
    "rmw_lib \<Rightarrow> sys \<Rightarrow> rmw_context option \<Rightarrow> host \<Rightarrow> (rmw_ret \<times> rmw_context option \<times> host) option" where
  "rmw_context_fini lib sy context ho =
     (case context of
        None \<Rightarrow> Some (RMW_RET_INVALID_ARGUMENT, None, ho)
      | Some c \<Rightarrow>
          if rc_identifier c \<noteq> Some uds_identifier then Some (RMW_RET_INCORRECT_RMW_IMPLEMENTATION, Some c, ho)
          else do {
            ho1 \<leftarrow> (case rc_impl c of
                     None \<Rightarrow> Some ho
                   | Some p \<Rightarrow> (case ho_contexts ho p of None \<Rightarrow> None | Some ctx \<Rightarrow> Some (close_context sy p ctx ho)));
            h1 \<leftarrow> free_opt lib (io_enclave (rc_options c)) (ho_heap ho1);
            (_, _, h2) \<leftarrow> lb_discovery_fini lib (io_discovery (rc_options c)) h1;
            Some (RMW_RET_OK, Some (lb_zero_context lib), ho1\<lparr>ho_heap := h2\<rparr>)
          })"

end
