(* ===== verification/Uds_Init_Props.thy ===== *)
theory Uds_Init_Props
  imports Uds_Init
begin

text \<open>
  Ownership: which heap blocks the options and the contexts own, and that no entry point frees
  or reads a dead one. What a failed creation leaves, and that creation and end balance.
\<close>

section \<open>The contract of the library functions\<close>

definition sec_ptrs :: "security_options \<Rightarrow> nat set" where
  "sec_ptrs s = set_option (so_root_path s)"

definition disc_ptrs :: "discovery_options \<Rightarrow> nat set" where
  "disc_ptrs d = set_option (do_static_peers d)"

text \<open>
  A copy into a zeroed structure owns fresh blocks, and none if the source owns none; when it fails the structure is still zeroed
  and nothing was allocated. A fini frees what the structure owns, and has no result when that
  is dead already.
\<close>

definition copy_ok ::
    "('o \<Rightarrow> nat set) \<Rightarrow> 'o \<Rightarrow> ('o \<Rightarrow> 'o \<Rightarrow> heap \<Rightarrow> (rmw_ret \<times> 'o \<times> heap) option) \<Rightarrow> bool" where
  "copy_ok ptrs zero copy \<longleftrightarrow>
     (\<forall>s h. ptrs s \<subseteq> dom h \<longrightarrow>
        (\<exists>r s' h'. copy s zero h = Some (r, s', h') \<and> h \<subseteq>\<^sub>m h' \<and> dom h' = dom h \<union> ptrs s' \<and>
           ptrs s' \<inter> dom h = {} \<and> (ptrs s = {} \<longrightarrow> ptrs s' = {}) \<and> (r \<noteq> RMW_RET_OK \<longrightarrow> s' = zero)))"

definition fini_ok :: "('o \<Rightarrow> nat set) \<Rightarrow> 'o \<Rightarrow> ('o \<Rightarrow> heap \<Rightarrow> (rmw_ret \<times> 'o \<times> heap) option) \<Rightarrow> bool" where
  "fini_ok ptrs zero fini \<longleftrightarrow>
     (\<forall>s h. fini s h = (if ptrs s \<subseteq> dom h then Some (RMW_RET_OK, zero, h |` (- ptrs s)) else None))"

definition strdup_ok :: "(nat \<Rightarrow> heap \<Rightarrow> (nat option \<times> heap) option) \<Rightarrow> bool" where
  "strdup_ok dup \<longleftrightarrow>
     (\<forall>e h. e \<in> dom h \<longrightarrow>
        (\<exists>p h'. dup e h = Some (p, h') \<and> h \<subseteq>\<^sub>m h' \<and> dom h' = dom h \<union> set_option p \<and> set_option p \<inter> dom h = {} \<and>
           (\<forall>a. p = Some a \<longrightarrow> h' a = h e)))"

definition lib_ok :: "rmw_lib \<Rightarrow> bool" where
  "lib_ok lib \<longleftrightarrow>
     sec_ptrs (lb_zero_security lib) = {} \<and> disc_ptrs (lb_zero_discovery lib) = {} \<and>
     io_identifier (lb_zero_options lib) = None \<and> io_enclave (lb_zero_options lib) = None \<and>
     io_security (lb_zero_options lib) = lb_zero_security lib \<and> io_discovery (lb_zero_options lib) = lb_zero_discovery lib \<and>
     rc_identifier (lb_zero_context lib) = None \<and> rc_impl (lb_zero_context lib) = None \<and>
     rc_options (lb_zero_context lib) = lb_zero_options lib \<and>
     strdup_ok (lb_strdup lib) \<and> (\<forall>a h. lb_deallocate lib a h = (if a \<in> dom h then Some (h(a := None)) else None)) \<and>
     copy_ok sec_ptrs (lb_zero_security lib) (lb_security_copy lib) \<and>
     fini_ok sec_ptrs (lb_zero_security lib) (lb_security_fini lib) \<and>
     copy_ok disc_ptrs (lb_zero_discovery lib) (lb_discovery_copy lib) \<and>
     fini_ok disc_ptrs (lb_zero_discovery lib) (lb_discovery_fini lib)"

lemma lib_okD:
  assumes "lib_ok lib"
  shows "sec_ptrs (lb_zero_security lib) = {}" "disc_ptrs (lb_zero_discovery lib) = {}"
    "io_identifier (lb_zero_options lib) = None" "io_enclave (lb_zero_options lib) = None"
    "io_security (lb_zero_options lib) = lb_zero_security lib" "io_discovery (lb_zero_options lib) = lb_zero_discovery lib"
    "rc_identifier (lb_zero_context lib) = None" "rc_impl (lb_zero_context lib) = None"
    "rc_options (lb_zero_context lib) = lb_zero_options lib" "strdup_ok (lb_strdup lib)"
    "lb_deallocate lib a h = (if a \<in> dom h then Some (h(a := None)) else None)"
    "copy_ok sec_ptrs (lb_zero_security lib) (lb_security_copy lib)" "fini_ok sec_ptrs (lb_zero_security lib) (lb_security_fini lib)"
    "copy_ok disc_ptrs (lb_zero_discovery lib) (lb_discovery_copy lib)" "fini_ok disc_ptrs (lb_zero_discovery lib) (lb_discovery_fini lib)"
  using assms by (simp_all add: lib_ok_def)

lemma copy_okE:
  assumes "copy_ok ptrs zero copy" "ptrs zero = {}" "ptrs s \<subseteq> dom h"
  obtains (ok) s' h' where "copy s zero h = Some (RMW_RET_OK, s', h')" "h \<subseteq>\<^sub>m h'" "dom h' = dom h \<union> ptrs s'" "ptrs s' \<inter> dom h = {}"
      "ptrs s = {} \<Longrightarrow> ptrs s' = {}"
  | (failed) r where "r \<noteq> RMW_RET_OK" "copy s zero h = Some (r, zero, h)"
proof -
  obtain r s' h' where c: "copy s zero h = Some (r, s', h')" "h \<subseteq>\<^sub>m h'" "dom h' = dom h \<union> ptrs s'" "ptrs s' \<inter> dom h = {}"
    "ptrs s = {} \<longrightarrow> ptrs s' = {}" "r \<noteq> RMW_RET_OK \<longrightarrow> s' = zero"
    using assms(1,3) unfolding copy_ok_def by blast
  show ?thesis
  proof (cases "r = RMW_RET_OK")
    case True
    then show ?thesis using c ok by blast
  next
    case False
    then have "dom h' = dom h" using c assms(2) by simp
    then have "h' = h" using c(2) by (simp add: map_le_antisym map_le_def)
    then show ?thesis using False c failed by blast
  qed
qed

lemma free_opt_live:
  assumes "lib_ok lib" "set_option p \<subseteq> dom h"
  shows "free_opt lib p h = Some (h |` (- set_option p))"
  using assms(2) by (cases p) (auto simp: free_opt_def lib_okD[OF assms(1)] restrict_map_def fun_eq_iff)

lemma map_le_restrict: "h \<subseteq>\<^sub>m h' \<Longrightarrow> dom h' = dom h \<union> A \<Longrightarrow> A \<inter> dom h = {} \<Longrightarrow> h' |` (- A) = h"
proof (rule ext)
  fix x
  assume a: "h \<subseteq>\<^sub>m h'" "dom h' = dom h \<union> A" "A \<inter> dom h = {}"
  show "(h' |` (- A)) x = h x"
  proof (cases "x \<in> dom h")
    case True
    then show ?thesis using a by (auto simp: map_le_def restrict_map_def)
  next
    case False
    then have "x \<in> A \<or> h' x = None" using a(2) by blast
    then show ?thesis using False by (auto simp: restrict_map_def domIff)
  qed
qed

section \<open>Options\<close>

definition opt_ptrs :: "init_options \<Rightarrow> nat set" where
  "opt_ptrs io = set_option (io_enclave io) \<union> sec_ptrs (io_security io) \<union> disc_ptrs (io_discovery io)"

definition opt_sep :: "init_options \<Rightarrow> bool" where
  "opt_sep io \<longleftrightarrow> set_option (io_enclave io) \<inter> sec_ptrs (io_security io) = {} \<and>
     set_option (io_enclave io) \<inter> disc_ptrs (io_discovery io) = {} \<and> sec_ptrs (io_security io) \<inter> disc_ptrs (io_discovery io) = {}"

lemma zero_options_own [simp]:
  assumes "lib_ok lib"
  shows "opt_ptrs (lb_zero_options lib) = {}" "opt_sep (lb_zero_options lib)"
  using lib_okD[OF assms] by (simp_all add: opt_ptrs_def opt_sep_def)

lemma options_fini_live:
  assumes "lib_ok lib" "opt_ptrs io \<subseteq> dom h" "opt_sep io"
  shows "rmw_init_options_fini lib (Some io) h = Some (RMW_RET_OK, Some (lb_zero_options lib), h |` (- opt_ptrs io))"
proof -
  let ?e = "set_option (io_enclave io)" and ?s = "sec_ptrs (io_security io)" and ?d = "disc_ptrs (io_discovery io)"
  have p: "?e \<subseteq> dom h" "?s \<subseteq> dom (h |` (- ?e))" "?d \<subseteq> dom (h |` (- ?e) |` (- ?s))"
    using assms(2,3) by (auto simp: opt_ptrs_def opt_sep_def)
  have eq: "h |` (- ?e) |` (- ?s) |` (- ?d) = h |` (- opt_ptrs io)"
    by (simp add: opt_ptrs_def Int_assoc)
  have fin: "lb_security_fini lib (io_security io) (h |` (- ?e)) = Some (RMW_RET_OK, lb_zero_security lib, h |` (- ?e) |` (- ?s))"
    "lb_discovery_fini lib (io_discovery io) (h |` (- ?e) |` (- ?s)) =
       Some (RMW_RET_OK, lb_zero_discovery lib, h |` (- ?e) |` (- ?s) |` (- ?d))"
    using lib_okD(13,15)[OF assms(1)] p(2,3) unfolding fini_ok_def by presburger+
  show ?thesis
    unfolding rmw_init_options_fini_def option.case free_opt_live[OF assms(1) p(1)] bind.bind_lunit fin prod.case eq ..
qed

lemma options_copy_cases:
  assumes "lib_ok lib" "opt_ptrs s \<subseteq> dom h" "io_identifier d0 = None"
  obtains (ok) d h' where "rmw_init_options_copy lib (Some s) (Some d0) h = Some (RMW_RET_OK, Some d, h')"
      "h \<subseteq>\<^sub>m h'" "dom h' = dom h \<union> opt_ptrs d" "opt_ptrs d \<inter> dom h = {}" "opt_sep d" "io_identifier d = io_identifier s"
      "opt_ptrs s = {} \<Longrightarrow> opt_ptrs d = {}"
  | (failed) r d where "r \<noteq> RMW_RET_OK" "rmw_init_options_copy lib (Some s) (Some d0) h = Some (r, Some d, h)"
      "io_enclave d = io_enclave s" "io_security d = lb_zero_security lib"
      "io_discovery d = io_discovery s \<or> io_discovery d = lb_zero_discovery lib" "io_identifier d = io_identifier s"
proof -
  note L = lib_okD[OF assms(1)]
  have src: "sec_ptrs (io_security s) \<subseteq> dom h" "disc_ptrs (io_discovery s) \<subseteq> dom h" "set_option (io_enclave s) \<subseteq> dom h"
    using assms(2) by (auto simp: opt_ptrs_def)
  show ?thesis
  proof (cases rule: copy_okE[OF L(12) L(1) src(1), case_names sok sfail])
    case (sfail r)
    show ?thesis
      by (rule failed[of r "s\<lparr>io_security := lb_zero_security lib\<rparr>"])
        (use sfail assms(3) in \<open>simp_all add: rmw_init_options_copy_def\<close>)
  next
    case (sok sec h1)
    have src1: "disc_ptrs (io_discovery s) \<subseteq> dom h1" using src(2) sok(3) by auto
    show ?thesis
    proof (cases rule: copy_okE[OF L(14) L(2) src1, case_names dok dfail])
      case (dfail r)
      have "lb_security_fini lib sec h1 = Some (RMW_RET_OK, lb_zero_security lib, h)"
        using L(13) sok(3) map_le_restrict[OF sok(2-4)] by (simp add: fini_ok_def)
      then show ?thesis
        by (intro failed[of r "s\<lparr>io_security := lb_zero_security lib, io_discovery := lb_zero_discovery lib\<rparr>"])
          (use sok dfail assms(3) in \<open>simp_all add: rmw_init_options_copy_def\<close>)
    next
      case (dok disc h2)
      have le: "h \<subseteq>\<^sub>m h2" using sok(2) dok(2) by (rule map_le_trans)
      show ?thesis
      proof (cases "io_enclave s")
        case None
        show ?thesis
          by (rule ok[of "s\<lparr>io_security := sec, io_discovery := disc\<rparr>" h2])
            (use None sok dok le assms(3) in \<open>auto simp: rmw_init_options_copy_def opt_ptrs_def opt_sep_def\<close>)
      next
        case (Some e)
        have "e \<in> dom h2" using src(3) Some sok(3) dok(3) by auto
        then obtain p h3 where d: "lb_strdup lib e h2 = Some (p, h3)" "h2 \<subseteq>\<^sub>m h3" "dom h3 = dom h2 \<union> set_option p" "set_option p \<inter> dom h2 = {}"
          using L(10) unfolding strdup_ok_def by blast
        have le3: "h \<subseteq>\<^sub>m h3" using le d(2) by (rule map_le_trans)
        show ?thesis
          by (rule ok[of "s\<lparr>io_security := sec, io_discovery := disc, io_enclave := p\<rparr>" h3])
            (use Some sok dok d le3 assms(3) in \<open>auto simp: rmw_init_options_copy_def opt_ptrs_def opt_sep_def\<close>)
      qed
    qed
  qed
qed

text \<open>
  C21: a failed copy is a trap. When \<^verbatim>\<open>rmw_init_options_copy\<close> fails, the destination already
  carries the implementation's identifier and the source's enclave pointer. Finalizing the
  destination frees the source's enclave, and finalizing the source then frees it again.
\<close>

theorem failed_copy_double_free:
  assumes "lib_ok lib" "opt_ptrs s \<subseteq> dom h" "opt_sep s" "io_identifier d0 = None"
    and "rmw_init_options_copy lib (Some s) (Some d0) h = Some (r, Some d, h1)" "r \<noteq> RMW_RET_OK" "io_enclave s = Some e"
  shows "h1 = h \<and> io_identifier d = io_identifier s \<and> io_enclave d = Some e \<and>
    (\<exists>h2. rmw_init_options_fini lib (Some d) h1 = Some (RMW_RET_OK, Some (lb_zero_options lib), h2) \<and> h2 e = None \<and>
      rmw_init_options_fini lib (Some s) h2 = None)"
proof (cases rule: options_copy_cases[OF assms(1,2,4), case_names ok failed])
  case (ok d' h')
  then show ?thesis using assms(5,6) by simp
next
  case (failed r' d')
  have d: "d' = d" "h1 = h" using assms(5) failed(2) by simp_all
  have own: "opt_ptrs d \<subseteq> dom h" "opt_sep d" "e \<in> opt_ptrs d"
    using failed(3-5) assms(2,3,7) lib_okD(1,2)[OF assms(1)] by (auto simp: d opt_ptrs_def opt_sep_def)
  have "rmw_init_options_fini lib (Some s) (h |` (- opt_ptrs d)) = None"
    using own(3) by (simp add: rmw_init_options_fini_def free_opt_def assms(7) lib_okD(11)[OF assms(1)])
  then show ?thesis
    using options_fini_live[OF assms(1) own(1,2)] failed(3,6) own(3) assms(7) by (simp add: d)
qed

section \<open>Contexts\<close>

definition ctx_ptrs :: "rmw_context \<Rightarrow> nat set" where
  "ctx_ptrs c = set_option (io_enclave (rc_options c)) \<union> disc_ptrs (io_discovery (rc_options c))"

definition ctx_sep :: "rmw_context \<Rightarrow> bool" where
  "ctx_sep c \<longleftrightarrow> set_option (io_enclave (rc_options c)) \<inter> disc_ptrs (io_discovery (rc_options c)) = {}"

lemma zero_context_own [simp]:
  assumes "lib_ok lib"
  shows "ctx_ptrs (lb_zero_context lib) = {}" "ctx_sep (lb_zero_context lib)" "rc_impl (lb_zero_context lib) = None"
  using lib_okD[OF assms] by (simp_all add: ctx_ptrs_def ctx_sep_def)

lemma commit_cases:
  assumes "lib_ok lib" "opt_ptrs opts \<subseteq> dom (ho_heap ho)"
  obtains (ok) c' h' where
      "commit_context lib opts d p ctx undo c ho =
         Some (RMW_RET_OK, Some c', ho\<lparr>ho_heap := h', ho_contexts := (ho_contexts ho)(p \<mapsto> ctx)\<rparr>)"
      "ho_heap ho \<subseteq>\<^sub>m h'" "dom h' = dom (ho_heap ho) \<union> ctx_ptrs c'" "ctx_ptrs c' \<inter> dom (ho_heap ho) = {}" "ctx_sep c'"
      "rc_identifier c' = Some uds_identifier" "rc_impl c' = Some p" "rc_actual_domain_id c' = d"
  | (failed) r c' where "r \<noteq> RMW_RET_OK" "commit_context lib opts d p ctx undo c ho = Some (r, Some c', undo ho)"
      "c' = c \<or> c' = lb_zero_context lib"
proof -
  note L = lib_okD[OF assms(1)]
  let ?h = "ho_heap ho"
  have src: "disc_ptrs (io_discovery opts) \<subseteq> dom ?h" "set_option (io_enclave opts) \<subseteq> dom ?h"
    using assms(2) by (auto simp: opt_ptrs_def)
  obtain q h1 where e: "(case io_enclave opts of None \<Rightarrow> Some (None, ?h) | Some e \<Rightarrow> lb_strdup lib e ?h) = Some (q, h1)"
    "?h \<subseteq>\<^sub>m h1" "dom h1 = dom ?h \<union> set_option q" "set_option q \<inter> dom ?h = {}" "io_enclave opts = None \<Longrightarrow> q = None \<and> h1 = ?h"
  proof (cases "io_enclave opts")
    case None
    then show ?thesis using that[of None ?h] by simp
  next
    case (Some e)
    then have "e \<in> dom ?h" using src(2) by simp
    then obtain q h1 where "lb_strdup lib e ?h = Some (q, h1)" "?h \<subseteq>\<^sub>m h1" "dom h1 = dom ?h \<union> set_option q" "set_option q \<inter> dom ?h = {}"
      using L(10) unfolding strdup_ok_def by blast
    then show ?thesis using that[of q h1] Some by simp
  qed
  have undone: "h1 |` (- set_option q) = ?h" by (rule map_le_restrict[OF e(2-4)])
  show ?thesis
  proof (cases "io_enclave opts \<noteq> None \<and> q = None")
    case True
    then have "h1 = ?h" using undone by (simp add: restrict_map_def)
    then show ?thesis
      using True e(1) by (intro failed[of RMW_RET_BAD_ALLOC c]) (simp_all add: commit_context_def Let_def)
  next
    case False
    have src1: "disc_ptrs (io_discovery opts) \<subseteq> dom h1" using src(1) e(3) by auto
    show ?thesis
    proof (cases rule: copy_okE[OF L(14) L(2) src1, case_names dok dfail])
      case (dfail r)
      have "free_opt lib q h1 = Some ?h" using free_opt_live[OF assms(1), of q h1] e(3) undone by simp
      then show ?thesis
        using False e(1) dfail
        by (intro failed[of r "lb_zero_context lib"]) (auto simp: commit_context_def Let_def)
    next
      case (dok disc h2)
      have le: "?h \<subseteq>\<^sub>m h2" using e(2) dok(2) by (rule map_le_trans)
      show ?thesis
        by (rule ok[of "\<lparr>rc_identifier = Some uds_identifier, rc_instance_id = io_instance_id opts,
              rc_options = opts\<lparr>io_enclave := q, io_discovery := disc\<rparr>, rc_actual_domain_id = d, rc_impl = Some p\<rparr>" h2])
          (use False e dok le in \<open>auto simp: commit_context_def Let_def ctx_ptrs_def ctx_sep_def\<close>)
    qed
  qed
qed

section \<open>Building a context\<close>

text \<open>Tokens at or above the next number are unused, and the registry's table is well-formed.\<close>

definition host_ok :: "host \<Rightarrow> bool" where
  "host_ok ho \<longleftrightarrow>
     (\<forall>n \<ge> ho_next ho. ho_contexts ho n = None \<and> Registry_mapping n \<notin> ho_open ho \<and> Send_socket n \<notin> ho_open ho) \<and>
     (\<forall>n \<ge> nt_next (wo_net (ho_world ho)). Doorbell_socket n \<notin> ho_open ho) \<and> wf_registry (wo_reg (ho_world ho))"

text \<open>Nothing new in the registry, among the bound paths or among the shared objects.\<close>

definition nothing_new :: "world \<Rightarrow> world \<Rightarrow> bool" where
  "nothing_new w w' \<longleftrightarrow> entries (wo_reg w') \<subseteq>\<^sub>m entries (wo_reg w) \<and>
     nt_bound (wo_net w') \<subseteq>\<^sub>m nt_bound (wo_net w) \<and> fs_names (wo_fs w') \<subseteq>\<^sub>m fs_names (wo_fs w)"

lemma nothing_new_refl [simp]: "nothing_new w w"
  by (simp add: nothing_new_def)

lemma nothing_new_trans: "nothing_new u v \<Longrightarrow> nothing_new v w \<Longrightarrow> nothing_new u w"
  by (auto simp: nothing_new_def intro: map_le_trans)

text \<open>Everything the process held before is held as before, and nothing else.\<close>

definition restored :: "host \<Rightarrow> host \<Rightarrow> bool" where
  "restored ho ho' \<longleftrightarrow> ho_heap ho' = ho_heap ho \<and> ho_open ho' = ho_open ho \<and> ho_contexts ho' = ho_contexts ho \<and>
     nothing_new (ho_world ho) (ho_world ho')"

lemma registry_open_table:
  assumes "registry_open hb env f = (ok, f')"
  shows "ok \<Longrightarrow> f' \<noteq> None" "f' = Some g \<Longrightarrow> rf_table g = initialize_header \<or> (\<exists>g0. f = Some g0 \<and> rf_table g = rf_table g0)"
proof -
  have one: "(res = Opened \<longrightarrow> f1 \<noteq> None) \<and>
      (\<forall>g. f1 = Some g \<longrightarrow> rf_table g = initialize_header \<or> (\<exists>g0. f0 = Some g0 \<and> rf_table g = rf_table g0))"
    if "open_attempt hb e f0 = (res, f1)" for e f0 res f1
    using that by (auto simp: open_attempt_def fresh_file_def Let_def simp del: upt_Suc split: option.splits if_splits)
  obtain res1 f1 where a1: "open_attempt hb (env 1) f = (res1, f1)" by fastforce
  obtain res0 f0 where a0: "open_attempt hb (env 0) f1 = (res0, f0)" by fastforce
  have c: "(ok, f') = (case res1 of Open_failed \<Rightarrow> (False, f1) | Opened \<Rightarrow> (True, f1)
      | Open_retry \<Rightarrow> (case res0 of Open_failed \<Rightarrow> (False, f0) | Opened \<Rightarrow> (True, f0) | Open_retry \<Rightarrow> (False, f0)))"
    using assms a1 a0 by (auto simp: registry_open_def numeral_2_eq_2 split: open_result.splits)
  show "ok \<Longrightarrow> f' \<noteq> None" "f' = Some g \<Longrightarrow> rf_table g = initialize_header \<or> (\<exists>g0. f = Some g0 \<and> rf_table g = rf_table g0)"
    using c one[OF a1] one[OF a0] by (auto split: open_result.splits)
qed

lemma open_registry_file_cases:
  assumes "open_registry_file iv ho = (x, ho')" "host_ok ho"
  shows "nothing_new (ho_world ho) (ho_world ho')" "wf_registry (wo_reg (ho_world ho'))" "wo_net (ho_world ho') = wo_net (ho_world ho)"
    "wo_path_ctr (ho_world ho') = wo_path_ctr (ho_world ho)"
    "ho_heap ho' = ho_heap ho" "ho_contexts ho' = ho_contexts ho"
    "(x = None \<and> ho_open ho' = ho_open ho \<and> ho_next ho' = ho_next ho) \<or>
     (x = Some (ho_next ho) \<and> ho_open ho' = insert (Registry_mapping (ho_next ho)) (ho_open ho) \<and> ho_next ho' = Suc (ho_next ho))"
proof -
  let ?w = "ho_world ho"
  let ?f = "map_option (\<lambda>(size, version). \<lparr>rf_size = size, rf_version = version, rf_table = wo_reg ?w\<rparr>) (ho_registry_file ho)"
  obtain ok f' where o: "registry_open (iv_header_bytes iv) (iv_open iv) ?f = (ok, f')" by fastforce
  have t: "rf_table g = initialize_header \<or> rf_table g = wo_reg ?w" if "f' = Some g" for g
    using registry_open_table(2)[OF o that] by auto
  have w: "ho_world ho' = (case f' of None \<Rightarrow> ?w | Some g \<Rightarrow> ?w\<lparr>wo_reg := rf_table g\<rparr>)"
    using assms(1) by (auto simp: open_registry_file_def Let_def o split: if_splits)
  have wf: "wf_registry (wo_reg ?w)" using assms(2) by (simp add: host_ok_def)
  show "wf_registry (wo_reg (ho_world ho'))"
    using t wf wf_initialize_header by (auto simp: w split: option.splits)
  show "nothing_new ?w (ho_world ho')"
    using t by (auto simp: w nothing_new_def entries_initialize split: option.splits)
  show "wo_net (ho_world ho') = wo_net ?w" "wo_path_ctr (ho_world ho') = wo_path_ctr ?w" by (simp_all add: w split: option.splits)
  show "ho_heap ho' = ho_heap ho" "ho_contexts ho' = ho_contexts ho"
    "(x = None \<and> ho_open ho' = ho_open ho \<and> ho_next ho' = ho_next ho) \<or>
     (x = Some (ho_next ho) \<and> ho_open ho' = insert (Registry_mapping (ho_next ho)) (ho_open ho) \<and> ho_next ho' = Suc (ho_next ho))"
    using assms(1) by (auto simp: open_registry_file_def Let_def o split: if_splits)
qed

lemma unlinks_less:
  "nt_bound (fold (\<lambda>path net. net_unlink net path) ps net) \<subseteq>\<^sub>m nt_bound net"
  "nt_next (fold (\<lambda>path net. net_unlink net path) ps net) = nt_next net"
  "fs_names (fold (\<lambda>name fs. shm_unlink fs name) ns fs) \<subseteq>\<^sub>m fs_names fs"
proof -
  have one: "nt_bound (net_unlink n a) \<subseteq>\<^sub>m nt_bound n" "nt_next (net_unlink n a) = nt_next n"
    "fs_names (shm_unlink f a) \<subseteq>\<^sub>m fs_names f" for n a f
    by (auto simp: net_unlink_def shm_unlink_def map_le_def)
  show "nt_bound (fold (\<lambda>path net. net_unlink net path) ps net) \<subseteq>\<^sub>m nt_bound net"
    by (induction ps arbitrary: net) (auto intro: map_le_trans one)
  show "nt_next (fold (\<lambda>path net. net_unlink net path) ps net) = nt_next net"
    by (induction ps arbitrary: net) (simp_all add: one)
  show "fs_names (fold (\<lambda>name fs. shm_unlink fs name) ns fs) \<subseteq>\<^sub>m fs_names fs"
    by (induction ns arbitrary: fs) (auto intro: map_le_trans one)
qed

lemma sweep_entries_less:
  assumes "wf_registry (wo_reg w)"
  shows "nothing_new w (sweep_entries sy w)" "wf_registry (wo_reg (sweep_entries sy w))"
    "nt_next (wo_net (sweep_entries sy w)) = nt_next (wo_net w)"
proof -
  obtain r effs rung where c: "registry_cleanup_stale (sy_ring sy) (sy_proc sy) (wo_reg w) = (r, effs, rung)"
    by (cases "registry_cleanup_stale (sy_ring sy) (sy_proc sy) (wo_reg w)")
  have "entries r \<subseteq>\<^sub>m entries (wo_reg w)" "wf_registry r"
    using registry_cleanup_stale_props[OF assms c] by (auto simp: sweep_map_def map_le_def split: option.splits if_splits)
  then show "nothing_new w (sweep_entries sy w)" "wf_registry (wo_reg (sweep_entries sy w))"
    using apply_unlinks_less[of effs "w\<lparr>wo_reg := r\<rparr>"] by (simp_all add: sweep_entries_def c nothing_new_def)
  have "nt_next (wo_net (fold apply_unlink es v)) = nt_next (wo_net v)" for es v
    by (induction es arbitrary: v) (simp_all add: apply_unlink_def net_unlink_def split: unlink_effect.splits)
  then show "nt_next (wo_net (sweep_entries sy w)) = nt_next (wo_net w)" by (simp add: sweep_entries_def c)
qed

lemma init_sweeps_less:
  assumes "wf_registry (wo_reg w)"
  shows "nothing_new w (init_sweeps iv d w)" "wf_registry (wo_reg (init_sweeps iv d w))"
    "nt_next (wo_net (init_sweeps iv d w)) = nt_next (wo_net w)"
proof -
  note s = sweep_entries_less[OF assms, of "iv_sys iv"]
  show "wf_registry (wo_reg (init_sweeps iv d w))" "nt_next (wo_net (init_sweeps iv d w)) = nt_next (wo_net w)"
    using s by (simp_all add: init_sweeps_def Let_def unlinks_less)
  show "nothing_new w (init_sweeps iv d w)"
    by (rule nothing_new_trans[OF s(1)]) (simp add: init_sweeps_def Let_def nothing_new_def unlinks_less)
qed

lemma open_doorbell_cases:
  assumes "open_doorbell iv d ho = (path, x, ho')" "\<bar>sy_pid (iv_sys iv)\<bar> \<le> 2 ^ 31"
  shows "path \<noteq> []" "length path \<le> 107" "take 13 path \<noteq> ''/ros2_uds_tl_''" "ho_heap ho' = ho_heap ho" "ho_contexts ho' = ho_contexts ho"
    "wo_reg (ho_world ho') = wo_reg (ho_world ho)" "x = None \<Longrightarrow> nothing_new (ho_world ho) (ho_world ho') \<and> ho_open ho' = ho_open ho"
    "x = Some bell \<Longrightarrow> bell = nt_next (wo_net (ho_world ho)) \<and> ho_open ho' = insert (Doorbell_socket bell) (ho_open ho) \<and>
       nt_bound (wo_net (ho_world ho')) path = Some bell \<and> nothing_new (ho_world ho) (ho_world (unlink_path path ho'))"
proof -
  let ?w = "ho_world ho"
  let ?p = "make_socket_path d ''ctl'' (sy_pid (iv_sys iv)) (wo_path_ctr ?w) (se_now_us (sy_shm (iv_sys iv)))"
  obtain r net where b: "create_bound_socket (sy_net (iv_sys iv)) (wo_net ?w) ?p = (r, net)" by fastforce
  note o = assms(1)[unfolded open_doorbell_def Let_def, simplified, unfolded b, simplified]
  have p: "path = ?p" using o by (auto split: option.splits)
  show len: "length path \<le> 107" "path \<noteq> []"
    using make_socket_path_short[OF assms(2)] make_socket_path_nonempty by (simp_all add: p)
  show "take 13 path \<noteq> ''/ros2_uds_tl_''" by (simp add: p make_socket_path_def snprintf_def)
  show "ho_heap ho' = ho_heap ho" "ho_contexts ho' = ho_contexts ho" "wo_reg (ho_world ho') = wo_reg (ho_world ho)"
    using o by (auto split: option.splits)
  show "nothing_new ?w (ho_world ho') \<and> ho_open ho' = ho_open ho" if "x = None"
  proof -
    have "nt_bound net \<subseteq>\<^sub>m nt_bound (wo_net ?w)" if "r = None"
      using b that by (auto simp: create_bound_socket_def net_unlink_def Let_def map_le_def split: if_splits)
    then show ?thesis using o that by (auto simp: nothing_new_def split: option.splits)
  qed
  show "bell = nt_next (wo_net ?w) \<and> ho_open ho' = insert (Doorbell_socket bell) (ho_open ho) \<and>
       nt_bound (wo_net (ho_world ho')) path = Some bell \<and> nothing_new ?w (ho_world (unlink_path path ho'))" if "x = Some bell"
  proof -
    have r: "r = Some bell" using o that by (auto split: option.splits)
    have "nt_bound net = (nt_bound (wo_net ?w))(path := Some bell) \<and> bell = nt_next (wo_net ?w)"
      using b len(1) r by (auto simp: p create_bound_socket_def net_unlink_def sun_path_def Let_def split: if_splits)
    then show ?thesis
      using o r by (auto simp: nothing_new_def unlink_path_def net_unlink_def map_le_def split: if_splits)
  qed
qed

text \<open>What a context holds once it is built.\<close>

definition wired :: "host \<Rightarrow> full_context \<Rightarrow> host \<Rightarrow> bool" where
  "wired ho ctx ho' \<longleftrightarrow>
     (\<exists>reg tx bell. fc_registry ctx = Some reg \<and> fc_send_socket ctx = Some tx \<and> fc_doorbell ctx = Some bell \<and>
        Registry_mapping reg \<notin> ho_open ho \<and> Send_socket tx \<notin> ho_open ho \<and> Doorbell_socket bell \<notin> ho_open ho \<and>
        ho_open ho' = {Registry_mapping reg, Send_socket tx, Doorbell_socket bell} \<union> ho_open ho \<and>
        cs_doorbell_socket ctx = bell \<and> nt_bound (wo_net (ho_world ho')) (cs_doorbell_path ctx) = Some bell) \<and>
     cs_doorbell_path ctx \<noteq> [] \<and> take 13 (cs_doorbell_path ctx) \<noteq> ''/ros2_uds_tl_'' \<and> length (cs_doorbell_path ctx) \<le> 107 \<and>
     nothing_new (ho_world ho) (ho_world (unlink_path (cs_doorbell_path ctx) ho')) \<and>
     cs_doorbell_registry_index ctx = -1 \<and> \<not> cs_doorbell_registered ctx \<and> \<not> cs_is_shutdown ctx \<and> cs_graph_gcs ctx = [] \<and>
     cs_last_registry_generation ctx = registry_generation (wo_reg (ho_world ho')) \<and> wf_registry (wo_reg (ho_world ho'))"

lemmas undo_defs = undo_base_def undo_send_def undo_doorbell_def delete_context_def registry_close_def
  close_descriptor_def unlink_path_def

lemma build_context_cases:
  assumes "lib_ok lib" "opt_ptrs opts \<subseteq> dom (ho_heap ho)" "host_ok ho" "\<bar>sy_pid (iv_sys iv)\<bar> \<le> 2 ^ 31"
  obtains (ok) c' ho' ctx where "build_context lib iv opts d p k c ho = Some (RMW_RET_OK, Some c', ho')"
      "ho_heap ho \<subseteq>\<^sub>m ho_heap ho'" "dom (ho_heap ho') = dom (ho_heap ho) \<union> ctx_ptrs c'" "ctx_ptrs c' \<inter> dom (ho_heap ho) = {}"
      "ctx_sep c'" "rc_identifier c' = Some uds_identifier" "rc_impl c' = Some p" "rc_actual_domain_id c' = d"
      "ho_contexts ho' = (ho_contexts ho)(p \<mapsto> ctx)" "wired ho ctx ho'"
      "cs_ids ctx = \<lparr>cx_domain_id = d, cx_context_id = k\<rparr>"
  | (failed) r c' ho' where "r \<noteq> RMW_RET_OK" "build_context lib iv opts d p k c ho = Some (r, Some c', ho')"
      "c' = c \<or> c' = lb_zero_context lib" "restored (delete_context p ho) ho'"
proof -
  obtain x ho2 where a: "open_registry_file iv ho = (x, ho2)" by fastforce
  note R = open_registry_file_cases[OF a assms(3)]
  show ?thesis
  proof (cases x)
    case None
    show ?thesis
      by (rule failed[of RMW_RET_ERROR c "delete_context p ho2"])
        (use R None in \<open>auto simp: build_context_def a restored_def undo_defs\<close>)
  next
    case (Some reg)
    let ?ho3 = "ho2\<lparr>ho_world := init_sweeps iv d (ho_world ho2)\<rparr>"
    note W = init_sweeps_less[OF R(2), of iv d]
    have n3: "nothing_new (ho_world ho) (ho_world ?ho3)" using nothing_new_trans[OF R(1) W(1)] by simp
    have reg: "reg = ho_next ho" "ho_open ho2 = insert (Registry_mapping reg) (ho_open ho)" "Registry_mapping reg \<notin> ho_open ho"
      "ho_next ho2 = Suc reg"
      using R(7) Some assms(3) by (auto simp: host_ok_def)
    obtain y ho4 where b: "open_send_socket iv ?ho3 = (y, ho4)" by fastforce
    have S: "ho_world ho4 = ho_world ?ho3" "ho_heap ho4 = ho_heap ho" "ho_contexts ho4 = ho_contexts ho"
      "y = None \<and> ho_open ho4 = ho_open ho2 \<or> y = Some (Suc reg) \<and> ho_open ho4 = insert (Send_socket (Suc reg)) (ho_open ho2)"
      using b R(5,6) reg(4) by (auto simp: open_send_socket_def split: if_splits)
    show ?thesis
    proof (cases y)
      case None
      have o: "ho_open ho4 - {Registry_mapping reg} = ho_open ho" using S(4) None reg(2,3) by auto
      show ?thesis
        by (rule failed[of RMW_RET_ERROR c "undo_base p reg ho4"])
          (use S None Some n3 o in \<open>simp_all add: build_context_def a b restored_def undo_defs\<close>)
    next
      case y: (Some tx)
      have tx: "tx = Suc reg" "ho_open ho4 = insert (Send_socket tx) (ho_open ho2)" "Send_socket tx \<notin> ho_open ho"
        using S(4) y assms(3) by (auto simp: host_ok_def reg(1))
      obtain path z ho5 where e: "open_doorbell iv d ho4 = (path, z, ho5)" using prod_cases3 by blast
      note D = open_doorbell_cases[OF e assms(4)]
      show ?thesis
      proof (cases z)
        case None
        have o: "ho_open ho5 - {Send_socket tx} - {Registry_mapping reg} = ho_open ho"
          using D(7)[OF None] tx(2,3) reg(2,3) by auto
        have n: "nothing_new (ho_world ho) (ho_world ho5)" using D(7)[OF None] n3 nothing_new_trans by (auto simp: S(1))
        show ?thesis
          by (rule failed[of RMW_RET_ERROR c "undo_send p reg tx ho5"])
            (use S None Some y n o D(4,5) in \<open>simp_all add: build_context_def a b e restored_def undo_defs\<close>)
      next
        case z: (Some bell)
        note B = D(8)[OF z]
        have bell: "Doorbell_socket bell \<notin> ho_open ho"
          using B assms(3) W(3) R(3) by (simp add: S(1) host_ok_def)
        have own: "opt_ptrs opts \<subseteq> dom (ho_heap ho5)" "ho_heap ho5 = ho_heap ho" "ho_contexts ho5 = ho_contexts ho"
          using assms(2) D(4,5) S by simp_all
        have n: "nothing_new (ho_world ho) (ho_world (unlink_path path ho5))"
          using B nothing_new_trans[OF n3] by (simp add: S(1))
        let ?ctx = "new_uds_context
           \<lparr>cs_ids := \<lparr>cx_domain_id = d, cx_context_id = k\<rparr>,
            cs_last_registry_generation := registry_generation (wo_reg (ho_world ho5)),
            cs_last_cleanup_ns := iv_steady_now iv, cs_doorbell_socket := bell, cs_doorbell_path := path,
            fc_registry := Some reg, fc_send_socket := Some tx, fc_doorbell := Some bell\<rparr>"
        let ?undo = "\<lambda>ho. undo_send p reg tx (undo_doorbell path bell ho)"
        have run: "build_context lib iv opts d p k c ho = commit_context lib opts d p ?ctx ?undo c ho5"
          by (simp add: build_context_def a b e Some y z)
        have opened: "ho_open ho5 = {Registry_mapping reg, Send_socket tx, Doorbell_socket bell} \<union> ho_open ho"
          using B tx(2) reg(2) by auto
        show ?thesis
        proof (cases rule: commit_cases[OF assms(1) own(1), of d p ?ctx ?undo c, case_names ok' failed'])
          case (ok' c' h')
          have w: "wired ho ?ctx (ho5\<lparr>ho_heap := h', ho_contexts := (ho_contexts ho5)(p \<mapsto> ?ctx)\<rparr>)"
            using reg(3) tx(3) bell opened D(1-3,6) B n W(2)
            by (simp add: wired_def new_uds_context_def unlink_path_def S(1))
          show ?thesis
            by (rule ok[OF run[unfolded ok'(1)] _ _ _ ok'(5-8) _ w]) (use ok'(2-4) own(2,3) in simp_all)
        next
          case (failed' r c')
          have o: "ho_open ho5 - {Doorbell_socket bell} - {Send_socket tx} - {Registry_mapping reg} = ho_open ho"
            using opened reg(3) tx(3) bell by auto
          show ?thesis
            by (rule failed[OF failed'(1) run[unfolded failed'(2)] failed'(3)])
              (use own o n in \<open>simp add: restored_def undo_defs\<close>)
        qed
      qed
    qed
  qed
qed

lemma init_cases:
  assumes "lib_ok lib" "opt_ptrs opts \<subseteq> dom (ho_heap ho)" "host_ok ho" "\<bar>sy_pid (iv_sys iv)\<bar> \<le> 2 ^ 31"
  obtains (ok) c' ho' ctx p where "rmw_init lib iv (Some opts) (Some c) ho = Some (RMW_RET_OK, Some c', ho')"
      "rc_impl c = None" "io_identifier opts = Some uds_identifier"
      "ho_heap ho \<subseteq>\<^sub>m ho_heap ho'" "dom (ho_heap ho') = dom (ho_heap ho) \<union> ctx_ptrs c'" "ctx_ptrs c' \<inter> dom (ho_heap ho) = {}"
      "ctx_sep c'" "rc_identifier c' = Some uds_identifier" "rc_impl c' = Some p"
      "rc_actual_domain_id c' = (if io_domain_id opts = lb_default_domain_id lib then 0 else io_domain_id opts)"
      "ho_contexts ho p = None" "ho_contexts ho' = (ho_contexts ho)(p \<mapsto> ctx)" "wired ho ctx ho'"
      "cx_domain_id (cs_ids ctx) = rc_actual_domain_id c'"
  | (failed) r c' ho' where "r \<noteq> RMW_RET_OK" "rmw_init lib iv (Some opts) (Some c) ho = Some (r, Some c', ho')"
      "c' = c \<or> c' = lb_zero_context lib \<and> rc_impl c = None" "restored ho ho'"
proof -
  obtain p ho1 where a: "alloc_context ho = (p, ho1)" by fastforce
  have p: "p = ho_next ho" "ho1 = ho\<lparr>ho_contexts := (ho_contexts ho)(p \<mapsto> new_uds_context), ho_next := Suc p\<rparr>"
    using a by (auto simp: alloc_context_def)
  have free: "ho_contexts ho p = None" using assms(3) by (simp add: host_ok_def p(1))
  have ok1: "host_ok ho1" using assms(3) by (auto simp: host_ok_def p)
  have own: "opt_ptrs opts \<subseteq> dom (ho_heap ho1)" using assms(2) by (simp add: p)
  have del: "restored ho (delete_context p ho1)"
    using free by (auto simp: restored_def delete_context_def p fun_eq_iff)
  have same: "restored ho ho" by (simp add: restored_def)
  have plain: thesis if "r \<noteq> RMW_RET_OK" "rmw_init lib iv (Some opts) (Some c) ho = Some (r, Some c, v)" "v = ho \<or> v = delete_context p ho1" for r v
    using failed[OF that(1,2)] that(3) del same by blast
  let ?d = "if io_domain_id opts = lb_default_domain_id lib then 0 else io_domain_id opts"
  consider "io_identifier opts \<noteq> Some uds_identifier"
    | "io_identifier opts = Some uds_identifier" "rc_impl c \<noteq> None"
    | "io_identifier opts = Some uds_identifier" "rc_impl c = None" "\<not> sy_new_ok (iv_sys iv)"
    | "io_identifier opts = Some uds_identifier" "rc_impl c = None" "sy_new_ok (iv_sys iv)" "iv_random iv = None \<or> \<not> iv_dir_ok iv"
    | rd1 rd2 where "io_identifier opts = Some uds_identifier" "rc_impl c = None" "sy_new_ok (iv_sys iv)" "iv_random iv = Some (rd1, rd2)" "iv_dir_ok iv"
    by (cases "iv_random iv") auto
  then show thesis
  proof cases
    case 1
    then show thesis by (intro plain[of RMW_RET_INCORRECT_RMW_IMPLEMENTATION ho]) (simp_all add: rmw_init_def)
  next
    case 2
    then show thesis by (intro plain[of RMW_RET_INVALID_ARGUMENT ho]) (simp_all add: rmw_init_def)
  next
    case 3
    then show thesis by (intro plain[of RMW_RET_BAD_ALLOC ho]) (simp_all add: rmw_init_def)
  next
    case 4
    then show thesis
      by (intro plain[of RMW_RET_ERROR "delete_context p ho1"]) (auto simp: rmw_init_def a Let_def split: option.splits)
  next
    case (5 rd1 rd2)
    let ?k = "generate_context_id rd1 rd2"
    have run: "rmw_init lib iv (Some opts) (Some c) ho = build_context lib iv opts ?d p ?k c ho1"
      using 5 by (simp add: rmw_init_def a Let_def)
    show thesis
    proof (cases rule: build_context_cases[OF assms(1) own ok1 assms(4), of ?d p ?k c, case_names bok bfail])
      case (bok c' ho' ctx)
      have "wired ho ctx ho'" using bok(10) by (simp add: wired_def p)
      then show thesis
        by (intro ok[of c' ho' p ctx]) (use bok run free 5(1,2) in \<open>simp_all add: p fun_upd_upd\<close>)
    next
      case (bfail r c' ho')
      have "restored ho ho'" using bfail(4) del by (auto simp: restored_def intro: nothing_new_trans)
      then show thesis using bfail(1-3) run failed[of r c' ho'] 5(2) by auto
    qed
  qed
qed


section \<open>From creation to end\<close>

lemma remove_entry_unbinds:
  assumes "wf_registry (wo_reg w)" "0 \<le> k" "entries (wo_reg w) (nat k) = Some e"
    and "pl_socket_path (en_payload e) = path" "path \<noteq> []" "take 13 path \<noteq> ''/ros2_uds_tl_''"
  shows "nt_bound (wo_net (remove_entry sy k w)) path = None"
proof -
  obtain r effs rung where a: "registry_remove (sy_ring sy) (wo_reg w) k = (r, effs, rung)"
    by (cases "registry_remove (sy_ring sy) (wo_reg w) k")
  have "effs = [Unlink_file path]"
    using registry_remove_props[OF assms(1) a] assms(2-6) by (simp add: entry_unlinks_def Let_def)
  then show ?thesis by (simp add: remove_entry_def a apply_unlink_def net_unlink_def)
qed

text \<open>
  What may happen to a context between its creation and its end: the world moves on, and the
  context learns generations, lists guard conditions, shuts down, or registers its doorbell.
\<close>

definition used :: "host \<Rightarrow> nat \<Rightarrow> full_context \<Rightarrow> full_context \<Rightarrow> host \<Rightarrow> bool" where
  "used ho1 p ctx ctx2 ho2 \<longleftrightarrow>
     ho_heap ho2 = ho_heap ho1 \<and> ho_open ho2 = ho_open ho1 \<and> ho_contexts ho2 = (ho_contexts ho1)(p \<mapsto> ctx2) \<and>
     fc_registry ctx2 = fc_registry ctx \<and> fc_send_socket ctx2 = fc_send_socket ctx \<and> fc_doorbell ctx2 = fc_doorbell ctx \<and>
     cs_doorbell_path ctx2 = cs_doorbell_path ctx \<and> wf_registry (wo_reg (ho_world ho2)) \<and>
     (cs_doorbell_registry_index ctx2 < 0 \<or>
      map_option (\<lambda>e. pl_socket_path (en_payload e))
        (entries (wo_reg (ho_world ho2)) (nat (cs_doorbell_registry_index ctx2))) = Some (cs_doorbell_path ctx))"

lemma close_context_result:
  assumes "wired ho ctx ho1" "ho_contexts ho p = None" "ho_contexts ho1 = (ho_contexts ho)(p \<mapsto> ctx)" "used ho1 p ctx ctx2 ho2"
  shows "ho_heap (close_context sy p ctx2 ho2) = ho_heap ho2" "ho_open (close_context sy p ctx2 ho2) = ho_open ho"
    "ho_contexts (close_context sy p ctx2 ho2) = ho_contexts ho"
    "nt_bound (wo_net (ho_world (close_context sy p ctx2 ho2))) (cs_doorbell_path ctx) = None"
    "0 \<le> cs_doorbell_registry_index ctx2 \<Longrightarrow>
       entries (wo_reg (ho_world (close_context sy p ctx2 ho2))) (nat (cs_doorbell_registry_index ctx2)) = None"
proof -
  let ?k = "cs_doorbell_registry_index ctx2" and ?path = "cs_doorbell_path ctx"
  note u = assms(4)[unfolded used_def]
  obtain reg tx bell where d: "fc_registry ctx = Some reg" "fc_send_socket ctx = Some tx" "fc_doorbell ctx = Some bell"
    "Registry_mapping reg \<notin> ho_open ho" "Send_socket tx \<notin> ho_open ho" "Doorbell_socket bell \<notin> ho_open ho"
    "ho_open ho1 = {Registry_mapping reg, Send_socket tx, Doorbell_socket bell} \<union> ho_open ho"
    "?path \<noteq> []" "take 13 ?path \<noteq> ''/ros2_uds_tl_''"
    using assms(1) unfolding wired_def by blast
  let ?r = "retire_doorbell sy ctx2 ho2"
  have r: "ho_heap ?r = ho_heap ho2" "ho_open ?r = ho_open ho2" "ho_contexts ?r = ho_contexts ho2"
    by (simp_all add: retire_doorbell_def unlink_path_def)
  have c: "close_context sy p ctx2 ho2 = ?r\<lparr>ho_open := ho_open ?r - {Doorbell_socket bell} - {Send_socket tx} - {Registry_mapping reg},
      ho_contexts := (ho_contexts ?r)(p := None)\<rparr>"
    using u d(1-3) by (simp add: close_context_def Let_def close_descriptor_def registry_close_def delete_context_def)
  show "ho_heap (close_context sy p ctx2 ho2) = ho_heap ho2" by (simp add: c r)
  show "ho_open (close_context sy p ctx2 ho2) = ho_open ho" using u d(4-7) by (auto simp: c r)
  show "ho_contexts (close_context sy p ctx2 ho2) = ho_contexts ho" using u assms(2,3) by (auto simp: c r fun_eq_iff)
  have w: "ho_world (close_context sy p ctx2 ho2) = ho_world ?r" by (simp add: c)
  show "nt_bound (wo_net (ho_world (close_context sy p ctx2 ho2))) ?path = None"
  proof (cases "0 \<le> ?k")
    case True
    then obtain e where "entries (wo_reg (ho_world ho2)) (nat ?k) = Some e" "pl_socket_path (en_payload e) = ?path" using u by auto
    then have "nt_bound (wo_net (remove_entry sy ?k (ho_world ho2))) ?path = None"
      using remove_entry_unbinds[OF _ True _ _ d(8,9)] u by blast
    then show ?thesis using True u d(1) by (simp add: w retire_doorbell_def)
  next
    case False
    then show ?thesis using u d(8) by (simp add: w retire_doorbell_def unlink_path_def net_unlink_def)
  qed
  show "entries (wo_reg (ho_world (close_context sy p ctx2 ho2))) (nat ?k) = None" if "0 \<le> ?k"
    using remove_entry_cases(1)[OF _ that, of "ho_world ho2" sy] u d(1) that by (simp add: w retire_doorbell_def)
qed

lemma context_fini_live:
  assumes "lib_ok lib" "rc_identifier c = Some uds_identifier" "rc_impl c = Some p" "ho_contexts ho p = Some ctx"
    and "ctx_ptrs c \<subseteq> dom (ho_heap ho)" "ctx_sep c"
  shows "rmw_context_fini lib sy (Some c) ho =
    Some (RMW_RET_OK, Some (lb_zero_context lib), (close_context sy p ctx ho)\<lparr>ho_heap := ho_heap ho |` (- ctx_ptrs c)\<rparr>)"
proof -
  let ?e = "set_option (io_enclave (rc_options c))" and ?d = "disc_ptrs (io_discovery (rc_options c))"
  have h: "ho_heap (close_context sy p ctx ho) = ho_heap ho"
    by (simp add: close_context_def Let_def retire_doorbell_def undo_defs split: option.splits)
  have own: "?e \<subseteq> dom (ho_heap ho)" "?d \<subseteq> dom (ho_heap ho |` (- ?e))"
    using assms(5,6) by (auto simp: ctx_ptrs_def ctx_sep_def)
  have fin: "lb_discovery_fini lib (io_discovery (rc_options c)) (ho_heap ho |` (- ?e)) =
      Some (RMW_RET_OK, lb_zero_discovery lib, ho_heap ho |` (- ?e) |` (- ?d))"
    using lib_okD(15)[OF assms(1)] own(2) unfolding fini_ok_def by presburger
  have eq: "ho_heap ho |` (- ?e) |` (- ?d) = ho_heap ho |` (- ctx_ptrs c)" by (simp add: ctx_ptrs_def)
  show ?thesis
    using assms(2) free_opt_live[OF assms(1) own(1)] fin
    by (simp add: rmw_context_fini_def assms(3,4) h eq del: restrict_restrict)
qed

text \<open>
  C19: creation and end balance. Between a successful \<^verbatim>\<open>rmw_init\<close> and \<^verbatim>\<open>rmw_context_fini\<close> the
  context may be used in any way, its doorbell registered or not. The end returns OK, the
  heap, the open descriptors and the live contexts are again what they were before the
  creation, the doorbell's path is unbound, its slot is empty, and the context is zeroed, so that a second
  call is refused.
\<close>

theorem context_lifecycle_balanced:
  assumes "lib_ok lib" "opt_ptrs opts \<subseteq> dom (ho_heap ho)" "host_ok ho" "\<bar>sy_pid (iv_sys iv)\<bar> \<le> 2 ^ 31"
    and "rmw_init lib iv (Some opts) (Some c) ho = Some (RMW_RET_OK, Some c', ho1)"
    and "rc_impl c' = Some p" "ho_contexts ho1 p = Some ctx" "used ho1 p ctx ctx2 ho2"
  shows "\<exists>ho3. rmw_context_fini lib sy (Some c') ho2 = Some (RMW_RET_OK, Some (lb_zero_context lib), ho3) \<and>
    ho_heap ho3 = ho_heap ho \<and> ho_open ho3 = ho_open ho \<and> ho_contexts ho3 = ho_contexts ho \<and>
    nt_bound (wo_net (ho_world ho3)) (cs_doorbell_path ctx) = None \<and>
    (0 \<le> cs_doorbell_registry_index ctx2 \<longrightarrow> entries (wo_reg (ho_world ho3)) (nat (cs_doorbell_registry_index ctx2)) = None) \<and>
    rmw_context_fini lib sy (Some (lb_zero_context lib)) ho3 =
      Some (RMW_RET_INCORRECT_RMW_IMPLEMENTATION, Some (lb_zero_context lib), ho3)"
proof (cases rule: init_cases[OF assms(1-4), of c, case_names ok failed])
  case (failed r c'' ho')
  then show ?thesis using assms(5) by simp
next
  case (ok c'' ho' ctx' p')
  have eq: "c'' = c'" "ho' = ho1" "p' = p" using ok(1,9) assms(5,6) by simp_all
  have eqc: "ctx' = ctx" using ok(12) assms(7) by (simp add: eq)
  note ok = ok[unfolded eq eqc]
  have h2: "ho_heap ho2 = ho_heap ho1" "ho_contexts ho2 p = Some ctx2" using assms(8) by (simp_all add: used_def)
  have "ctx_ptrs c' \<subseteq> dom (ho_heap ho2)" using ok(5) by (simp add: h2)
  note f = context_fini_live[OF assms(1) ok(8) assms(6) h2(2) this ok(7), of sy]
  have "ho_heap ho2 |` (- ctx_ptrs c') = ho_heap ho" using map_le_restrict[OF ok(4-6)] by (simp add: h2(1))
  then show ?thesis
    using f close_context_result[OF ok(13,11,12) assms(8), of sy] lib_okD(7)[OF assms(1)]
    by (simp add: rmw_context_fini_def)
qed

end
