(* ===== verification/Uds_Ownership.thy ===== *)
theory Uds_Ownership
  imports Uds_Init_Props
begin

text \<open>
  A client with any number of init options and contexts calls the entry points in any order.
  The machine's steps are the entry points themselves; the invariant is that every heap block
  has at most one owner, and it makes every call of the client defined: nothing is freed twice
  and nothing is read after it was freed.
\<close>

record ownership =
  ow_options :: "nat \<Rightarrow> init_options"
  ow_contexts :: "nat \<Rightarrow> rmw_context"
  ow_host :: host

abbreviation ow_heap :: "ownership \<Rightarrow> heap" where "ow_heap s \<equiv> ho_heap (ow_host s)"

section \<open>The client's steps\<close>

text \<open>
  \<open>fills\<close>: the client stores freshly allocated blocks in options that are initialized (its
  enclave name, a security root path, static peers). After a failed copy the client drops the
  destination without finalizing it: it is zeroed.
\<close>

definition fills :: "init_options \<Rightarrow> heap \<Rightarrow> init_options \<Rightarrow> heap \<Rightarrow> bool" where
  "fills io h io' h' \<longleftrightarrow> io_identifier io \<noteq> None \<and> io_identifier io' = io_identifier io \<and> opt_sep io' \<and>
     opt_ptrs io \<subseteq> opt_ptrs io' \<and> opt_ptrs io' \<inter> dom h = opt_ptrs io \<inter> dom h \<and> dom h' = dom h \<union> opt_ptrs io'"

inductive own_step :: "rmw_lib \<Rightarrow> ownership \<Rightarrow> ownership \<Rightarrow> bool" for lib where
  options_init: "rmw_init_options_init lib (Some (ow_options s i)) = (r, Some io) \<Longrightarrow>
    own_step lib s (s\<lparr>ow_options := (ow_options s)(i := io)\<rparr>)"
| options_fill: "fills (ow_options s i) (ow_heap s) io h \<Longrightarrow>
    own_step lib s (s\<lparr>ow_options := (ow_options s)(i := io), ow_host := (ow_host s)\<lparr>ho_heap := h\<rparr>\<rparr>)"
| options_copy: "i \<noteq> j \<Longrightarrow>
    rmw_init_options_copy lib (Some (ow_options s i)) (Some (ow_options s j)) (ow_heap s) = Some (r, Some io, h) \<Longrightarrow>
    own_step lib s (s\<lparr>ow_options := (ow_options s)(j := if r = RMW_RET_OK \<or> io_identifier (ow_options s j) \<noteq> None then io else lb_zero_options lib),
      ow_host := (ow_host s)\<lparr>ho_heap := h\<rparr>\<rparr>)"
| options_fini: "rmw_init_options_fini lib (Some (ow_options s i)) (ow_heap s) = Some (r, Some io, h) \<Longrightarrow>
    own_step lib s (s\<lparr>ow_options := (ow_options s)(i := io), ow_host := (ow_host s)\<lparr>ho_heap := h\<rparr>\<rparr>)"
| context_init: "host_ok (ow_host s) \<Longrightarrow> \<bar>sy_pid (iv_sys iv)\<bar> \<le> 2 ^ 31 \<Longrightarrow>
    rmw_init lib iv (Some (ow_options s i)) (Some (ow_contexts s j)) (ow_host s) = Some (r, Some c, ho) \<Longrightarrow>
    own_step lib s (s\<lparr>ow_contexts := (ow_contexts s)(j := c), ow_host := ho\<rparr>)"
| context_shutdown: "rmw_shutdown (Some (ow_contexts s j)) (ow_host s) = Some (r, ho) \<Longrightarrow> own_step lib s (s\<lparr>ow_host := ho\<rparr>)"
| context_fini: "rmw_context_fini lib sy (Some (ow_contexts s j)) (ow_host s) = Some (r, Some c, ho) \<Longrightarrow>
    own_step lib s (s\<lparr>ow_contexts := (ow_contexts s)(j := c), ow_host := ho\<rparr>)"
| elsewhere: "ho_heap ho = ow_heap s \<Longrightarrow> dom (ho_contexts ho) = dom (ho_contexts (ow_host s)) \<Longrightarrow> own_step lib s (s\<lparr>ow_host := ho\<rparr>)"

text \<open>At first no options are initialized and there is no context.\<close>

definition own_init :: "rmw_lib \<Rightarrow> ownership \<Rightarrow> bool" where
  "own_init lib s \<longleftrightarrow> ow_options s = (\<lambda>_. lb_zero_options lib) \<and> ow_contexts s = (\<lambda>_. lb_zero_context lib)"

section \<open>One owner for every block\<close>

datatype owner = Options nat | Context nat

fun blocks :: "ownership \<Rightarrow> owner \<Rightarrow> nat set" where
  "blocks s (Options i) = opt_ptrs (ow_options s i)"
| "blocks s (Context j) = ctx_ptrs (ow_contexts s j)"

definition tidy :: "(owner \<Rightarrow> nat set) \<Rightarrow> heap \<Rightarrow> bool" where
  "tidy B h \<longleftrightarrow> (\<forall>x. B x \<subseteq> dom h) \<and> (\<forall>x y. x \<noteq> y \<longrightarrow> B x \<inter> B y = {})"

lemma tidy_gain:
  assumes "tidy B h" "A \<inter> dom h \<subseteq> B x" "dom h \<subseteq> dom h'" "A \<subseteq> dom h'"
  shows "tidy (B(x := A)) h'"
proof -
  have "A \<inter> B y = {}" if "y \<noteq> x" for y
    using assms(1,2) that unfolding tidy_def by blast
  then show ?thesis using assms by (auto simp: tidy_def) blast+
qed

lemma tidy_lose: "tidy B h \<Longrightarrow> tidy (B(x := {})) (h |` (- B x))"
  unfolding tidy_def by (simp add: dom_restrict) blast

lemma blocks_update [simp]:
  "blocks (s\<lparr>ow_options := (ow_options s)(i := io)\<rparr>) = (blocks s)(Options i := opt_ptrs io)"
  "blocks (s\<lparr>ow_contexts := (ow_contexts s)(j := c)\<rparr>) = (blocks s)(Context j := ctx_ptrs c)"
  "blocks (s\<lparr>ow_host := ho\<rparr>) = blocks s"
  "blocks (s\<lparr>ow_options := (ow_options s)(i := io), ow_host := ho\<rparr>) = (blocks s)(Options i := opt_ptrs io)"
  "blocks (s\<lparr>ow_contexts := (ow_contexts s)(j := c), ow_host := ho\<rparr>) = (blocks s)(Context j := ctx_ptrs c)"
proof -
  show "blocks (s\<lparr>ow_options := (ow_options s)(i := io)\<rparr>) = (blocks s)(Options i := opt_ptrs io)"
    "blocks (s\<lparr>ow_contexts := (ow_contexts s)(j := c)\<rparr>) = (blocks s)(Context j := ctx_ptrs c)"
    "blocks (s\<lparr>ow_host := ho\<rparr>) = blocks s"
    "blocks (s\<lparr>ow_options := (ow_options s)(i := io), ow_host := ho\<rparr>) = (blocks s)(Options i := opt_ptrs io)"
    "blocks (s\<lparr>ow_contexts := (ow_contexts s)(j := c), ow_host := ho\<rparr>) = (blocks s)(Context j := ctx_ptrs c)"
    by (rule ext; case_tac x; simp)+
qed

text \<open>The shape of each object, and that a context's object is live and its own.\<close>

definition options_ok :: "(nat \<Rightarrow> init_options) \<Rightarrow> bool" where
  "options_ok os \<longleftrightarrow> (\<forall>i. opt_sep (os i) \<and> (io_identifier (os i) = None \<longrightarrow> opt_ptrs (os i) = {}))"

definition contexts_ok :: "rmw_lib \<Rightarrow> (nat \<Rightarrow> rmw_context) \<Rightarrow> (nat \<rightharpoonup> full_context) \<Rightarrow> bool" where
  "contexts_ok lib cs live \<longleftrightarrow>
     (\<forall>j. ctx_sep (cs j)) \<and> (\<forall>j. rc_impl (cs j) = None \<longrightarrow> cs j = lb_zero_context lib) \<and>
     (\<forall>j p. rc_impl (cs j) = Some p \<longrightarrow> rc_identifier (cs j) = Some uds_identifier \<and> live p \<noteq> None) \<and>
     (\<forall>j k p. rc_impl (cs j) = Some p \<longrightarrow> rc_impl (cs k) = Some p \<longrightarrow> j = k)"

definition own_inv :: "rmw_lib \<Rightarrow> ownership \<Rightarrow> bool" where
  "own_inv lib s \<longleftrightarrow> tidy (blocks s) (ow_heap s) \<and> options_ok (ow_options s) \<and>
     contexts_ok lib (ow_contexts s) (ho_contexts (ow_host s))"

lemma options_ok_upd:
  "options_ok os \<Longrightarrow> opt_sep io \<Longrightarrow> (io_identifier io = None \<Longrightarrow> opt_ptrs io = {}) \<Longrightarrow> options_ok (os(i := io))"
  by (simp add: options_ok_def)

lemma contexts_ok_zero:
  assumes "contexts_ok lib cs live" "lib_ok lib" "rc_impl (cs j) = Some p"
  shows "contexts_ok lib (cs(j := lb_zero_context lib)) (live(p := None))"
  using assms zero_context_own[OF assms(2)] unfolding contexts_ok_def by (simp; metis)

lemma contexts_ok_live: "contexts_ok lib cs live \<Longrightarrow> dom live' = dom live \<Longrightarrow> contexts_ok lib cs live'"
  unfolding contexts_ok_def by (metis domIff)

lemma contexts_ok_new:
  assumes "contexts_ok lib cs live" "live p = None" "ctx_sep c" "rc_impl c = Some p" "rc_identifier c = Some uds_identifier"
  shows "contexts_ok lib (cs(j := c)) (live(p \<mapsto> x))"
  using assms unfolding contexts_ok_def by (simp; metis)

lemma own_invD:
  assumes "own_inv lib s"
  shows "opt_ptrs (ow_options s i) \<subseteq> dom (ow_heap s)" "opt_sep (ow_options s i)"
    "io_identifier (ow_options s i) = None \<Longrightarrow> opt_ptrs (ow_options s i) = {}"
    "ctx_ptrs (ow_contexts s j) \<subseteq> dom (ow_heap s)" "ctx_sep (ow_contexts s j)"
    "rc_impl (ow_contexts s j) = None \<Longrightarrow> ow_contexts s j = lb_zero_context lib"
    "rc_impl (ow_contexts s j) = Some p \<Longrightarrow> rc_identifier (ow_contexts s j) = Some uds_identifier \<and> ho_contexts (ow_host s) p \<noteq> None"
proof -
  have "blocks s x \<subseteq> dom (ow_heap s)" for x using assms by (simp add: own_inv_def tidy_def)
  from this[of "Options i"] this[of "Context j"]
  show "opt_ptrs (ow_options s i) \<subseteq> dom (ow_heap s)" "ctx_ptrs (ow_contexts s j) \<subseteq> dom (ow_heap s)" by simp_all
qed (use assms in \<open>simp_all add: own_inv_def options_ok_def contexts_ok_def\<close>)

lemma tidy_same: "tidy B h \<Longrightarrow> A = B x \<Longrightarrow> tidy (B(x := A)) h"
  by simp

text \<open>What each call does to its object, on a state that satisfies the invariant.\<close>

lemma copy_step:
  assumes "own_inv lib s" "lib_ok lib"
    and "rmw_init_options_copy lib (Some (ow_options s i)) (Some (ow_options s j)) (ow_heap s) = Some (r, Some io, h)"
    and "d = (if r = RMW_RET_OK \<or> io_identifier (ow_options s j) \<noteq> None then io else lb_zero_options lib)"
  shows "tidy ((blocks s)(Options j := opt_ptrs d)) h \<and> options_ok ((ow_options s)(j := d))"
proof (cases "io_identifier (ow_options s j) = None")
  case False
  then have "io = ow_options s j" "h = ow_heap s" using assms(3) by (auto simp: rmw_init_options_copy_def)
  then show ?thesis using assms(1,4) False by (simp add: own_inv_def fun_upd_idem)
next
  case True
  note I = own_invD[OF assms(1)]
  have t: "tidy (blocks s) (ow_heap s)" "options_ok (ow_options s)" using assms(1) by (simp_all add: own_inv_def)
  show ?thesis
  proof (cases rule: options_copy_cases[OF assms(2) I(1)[of i] True, case_names ok failed])
    case (ok d' h')
    then have d: "d' = io" "h' = h" "d = io" using assms(3,4) by simp_all
    have "opt_ptrs io = {}" if "io_identifier io = None"
      using that ok(6,7) I(3)[of i] d by simp
    then show ?thesis
      using ok d t(2) by (auto intro!: tidy_gain[OF t(1)] options_ok_upd dest: map_le_implies_dom_le)
  next
    case (failed r' d')
    then have "d = lb_zero_options lib" "h = ow_heap s" using assms(3,4) True by auto
    then show ?thesis using t zero_options_own[OF assms(2)] by (auto intro!: tidy_gain[OF t(1)] options_ok_upd)
  qed
qed

lemma close_context_contexts [simp]:
  "ho_contexts (close_context sy p ctx ho) = (ho_contexts ho)(p := None)"
  by (simp add: close_context_def Let_def retire_doorbell_def undo_defs split: option.splits)

lemma context_fini_step:
  assumes "own_inv lib s" "lib_ok lib" "rmw_context_fini lib sy (Some (ow_contexts s j)) (ow_host s) = Some (r, Some c, ho)"
  shows "tidy ((blocks s)(Context j := ctx_ptrs c)) (ho_heap ho) \<and> contexts_ok lib ((ow_contexts s)(j := c)) (ho_contexts ho)"
proof (cases "rc_impl (ow_contexts s j)")
  case None
  then have "ow_contexts s j = lb_zero_context lib" by (rule own_invD(6)[OF assms(1)])
  then have "c = ow_contexts s j \<and> ho = ow_host s" using assms(3) lib_okD(7)[OF assms(2)] by (simp add: rmw_context_fini_def)
  then show ?thesis using assms(1) by (simp add: own_inv_def tidy_same fun_upd_idem)
next
  case (Some p)
  note I = own_invD[OF assms(1)]
  obtain ctx where ctx: "ho_contexts (ow_host s) p = Some ctx" using I(7)[OF Some] by blast
  have id: "rc_identifier (ow_contexts s j) = Some uds_identifier" using I(7)[OF Some] by blast
  note f = context_fini_live[OF assms(2) id Some ctx I(4) I(5), of sy]
  have c: "c = lb_zero_context lib" "ho_heap ho = ow_heap s |` (- ctx_ptrs (ow_contexts s j))"
    "ho_contexts ho = (ho_contexts (ow_host s))(p := None)"
    using assms(3) unfolding f by auto
  have inv: "tidy (blocks s) (ow_heap s)" "contexts_ok lib (ow_contexts s) (ho_contexts (ow_host s))" using assms(1) by (simp_all add: own_inv_def)
  show ?thesis
    using tidy_lose[OF inv(1), of "Context j"] contexts_ok_zero[OF inv(2) assms(2) Some] by (simp add: c zero_context_own[OF assms(2)])
qed

lemma context_init_step:
  assumes "own_inv lib s" "lib_ok lib" "host_ok (ow_host s)" "\<bar>sy_pid (iv_sys iv)\<bar> \<le> 2 ^ 31"
    and "rmw_init lib iv (Some (ow_options s i)) (Some (ow_contexts s j)) (ow_host s) = Some (r, Some c, ho)"
  shows "tidy ((blocks s)(Context j := ctx_ptrs c)) (ho_heap ho) \<and> contexts_ok lib ((ow_contexts s)(j := c)) (ho_contexts ho)"
proof -
  note I = own_invD[OF assms(1)]
  have inv: "tidy (blocks s) (ow_heap s)" "contexts_ok lib (ow_contexts s) (ho_contexts (ow_host s))" using assms(1) by (simp_all add: own_inv_def)
  show ?thesis
  proof (cases rule: init_cases[OF assms(2) I(1)[of i] assms(3,4), of "ow_contexts s j", case_names ok failed])
    case (ok c' ho' ctx p)
    then have c: "c' = c" "ho' = ho" using assms(5) by simp_all
    note ok = ok[unfolded c]
    have "dom (ow_heap s) \<subseteq> dom (ho_heap ho)" using ok(4) by (rule map_le_implies_dom_le)
    then show ?thesis
      using ok tidy_gain[OF inv(1), of "ctx_ptrs c" "Context j" "ho_heap ho"] contexts_ok_new[OF inv(2) ok(11,7,9,8)] by simp
  next
    case (failed r' c' ho')
    then have c: "c' = c" "ho_heap ho = ow_heap s" "ho_contexts ho = ho_contexts (ow_host s)" using assms(5) by (simp_all add: restored_def)
    have "c = ow_contexts s j" using failed(3) I(6) c(1) by auto
    then show ?thesis using inv c by (simp add: tidy_same fun_upd_idem)
  qed
qed

lemma own_step_inv:
  assumes "own_step lib s s'" "own_inv lib s" "lib_ok lib"
  shows "own_inv lib s'"
  using assms(1)
proof cases
  case (options_init i r io)
  have "io = ow_options s i \<or> io_identifier (ow_options s i) = None \<and> opt_ptrs io = {} \<and> opt_sep io"
    using options_init(2) lib_okD(1,2)[OF assms(3)] by (auto simp: rmw_init_options_init_def opt_ptrs_def opt_sep_def split: if_splits)
  then show ?thesis
    using assms(2) own_invD(2,3)[OF assms(2), of i] unfolding options_init(1)
    by (auto simp: own_inv_def fun_upd_idem tidy_same intro!: options_ok_upd)
next
  case (options_fill i io h)
  have "tidy ((blocks s)(Options i := opt_ptrs io)) h"
    using options_fill(2) assms(2) by (intro tidy_gain[of _ "ow_heap s"]) (auto simp: fills_def own_inv_def)
  then show ?thesis
    using assms(2) options_fill by (auto simp: own_inv_def fills_def intro!: options_ok_upd)
next
  case (options_copy i j r io h)
  then show ?thesis using copy_step[OF assms(2,3) options_copy(3) refl] assms(2) by (simp add: own_inv_def)
next
  case (options_fini i r io h)
  then show ?thesis
    using options_fini_live[OF assms(3) own_invD(1,2)[OF assms(2)], of i] tidy_lose[of "blocks s" "ow_heap s" "Options i"] assms(2)
      zero_options_own[OF assms(3)]
    by (auto simp: own_inv_def intro!: options_ok_upd)
next
  case (context_init iv i j r c ho)
  then show ?thesis using context_init_step[OF assms(2,3) context_init(2-4)] assms(2) by (simp add: own_inv_def)
next
  case (context_shutdown j r ho)
  have "ho_heap ho = ow_heap s" "dom (ho_contexts ho) = dom (ho_contexts (ow_host s))"
    using context_shutdown(2) by (auto simp: rmw_shutdown_def split: option.splits if_splits)
  then show ?thesis using assms(2) contexts_ok_live by (auto simp: context_shutdown(1) own_inv_def)
next
  case (context_fini sy j r c ho)
  then show ?thesis using context_fini_step[OF assms(2,3) context_fini(2)] assms(2) by (simp add: own_inv_def)
next
  case (elsewhere ho)
  then show ?thesis using assms(2) contexts_ok_live by (auto simp: own_inv_def)
qed

lemma own_init_inv:
  assumes "own_init lib s" "lib_ok lib"
  shows "own_inv lib s"
proof -
  have "blocks s x = {}" for x
    using assms by (cases x) (simp_all add: own_init_def zero_options_own zero_context_own)
  then show ?thesis
    using assms zero_options_own[OF assms(2)] zero_context_own[OF assms(2)]
    by (auto simp: own_inv_def tidy_def own_init_def options_ok_def contexts_ok_def)
qed

interpretation owners: transition_invariant "own_step lib" "\<lambda>s. lib_ok lib \<longrightarrow> own_inv lib s" for lib
  by unfold_locales (auto intro: own_step_inv)

lemma own_reachable: "(own_step lib)\<^sup>*\<^sup>* s0 s \<Longrightarrow> own_init lib s0 \<Longrightarrow> lib_ok lib \<Longrightarrow> own_inv lib s"
  using owners.steps_keep[of lib s0 s] own_init_inv by simp


end
