(* ===== verification/Uds_Init_Examples.thy ===== *)
theory Uds_Init_Examples
  imports Uds_Ownership
begin

text \<open>
  A small allocator that meets the contract, a machine on which every call succeeds, and the
  properties of init options and contexts at concrete values.
\<close>

section \<open>An allocator\<close>

definition alloc0 :: "heap \<Rightarrow> nat option" where
  "alloc0 h = find (\<lambda>a. h a = None) [0..<16]"

definition dup0 :: "nat \<Rightarrow> heap \<Rightarrow> (nat option \<times> heap) option" where
  "dup0 e h = (if h e = None then None
     else case alloc0 h of None \<Rightarrow> Some (None, h) | Some a \<Rightarrow> Some (Some a, h(a := h e)))"

text \<open>A copier and a fini for a structure with one pointer.\<close>

definition copy_ptr0 ::
    "bool \<Rightarrow> ('o \<Rightarrow> nat option) \<Rightarrow> (nat option \<Rightarrow> 'o \<Rightarrow> 'o) \<Rightarrow> 'o \<Rightarrow> 'o \<Rightarrow> heap \<Rightarrow> (rmw_ret \<times> 'o \<times> heap) option" where
  "copy_ptr0 up get put s zero h =
     (if \<not> up then Some (RMW_RET_BAD_ALLOC, zero, h)
      else case get s of
             None \<Rightarrow> Some (RMW_RET_OK, s, h)
           | Some e \<Rightarrow>
               (case dup0 e h of
                  None \<Rightarrow> None
                | Some (None, _) \<Rightarrow> Some (RMW_RET_BAD_ALLOC, zero, h)
                | Some (Some a, h') \<Rightarrow> Some (RMW_RET_OK, put (Some a) s, h')))"

definition fini_ptr0 :: "('o \<Rightarrow> nat option) \<Rightarrow> 'o \<Rightarrow> 'o \<Rightarrow> heap \<Rightarrow> (rmw_ret \<times> 'o \<times> heap) option" where
  "fini_ptr0 get zero s h =
     (case get s of
        None \<Rightarrow> Some (RMW_RET_OK, zero, h)
      | Some a \<Rightarrow> if h a = None then None else Some (RMW_RET_OK, zero, h(a := None)))"

definition zero_sec :: security_options where "zero_sec = \<lparr>so_enforce = 0, so_root_path = None\<rparr>"
definition zero_disc :: discovery_options where "zero_disc = \<lparr>do_range = 0, do_static_peers = None, do_count = 0\<rparr>"

definition zero_opts :: init_options where
  "zero_opts = \<lparr>io_instance_id = 0, io_identifier = None, io_domain_id = 0, io_security = zero_sec, io_discovery = zero_disc,
     io_enclave = None, io_impl = None\<rparr>"

definition zero_ctx :: rmw_context where
  "zero_ctx = \<lparr>rc_identifier = None, rc_instance_id = 0, rc_options = zero_opts, rc_actual_domain_id = 0, rc_impl = None\<rparr>"

definition lib0 :: "bool \<Rightarrow> rmw_lib" where
  "lib0 discovery_up =
     \<lparr>lb_default_domain_id = -1, lb_zero_security = zero_sec, lb_zero_discovery = zero_disc, lb_zero_options = zero_opts,
      lb_zero_context = zero_ctx, lb_strdup = dup0, lb_deallocate = (\<lambda>a h. if h a = None then None else Some (h(a := None))),
      lb_security_copy = copy_ptr0 True so_root_path (\<lambda>p s. s\<lparr>so_root_path := p\<rparr>),
      lb_security_fini = fini_ptr0 so_root_path zero_sec,
      lb_discovery_copy = copy_ptr0 discovery_up do_static_peers (\<lambda>p s. s\<lparr>do_static_peers := p\<rparr>),
      lb_discovery_fini = fini_ptr0 do_static_peers zero_disc\<rparr>"

lemma alloc0_fresh: "alloc0 h = Some a \<Longrightarrow> h a = None"
  by (auto simp: alloc0_def find_Some_iff)

lemma dup0_ok: "strdup_ok dup0"
  unfolding strdup_ok_def
proof (intro allI impI)
  fix e and h :: heap
  assume "e \<in> dom h"
  then show "\<exists>p h'. dup0 e h = Some (p, h') \<and> h \<subseteq>\<^sub>m h' \<and> dom h' = dom h \<union> set_option p \<and> set_option p \<inter> dom h = {} \<and>
      (\<forall>a. p = Some a \<longrightarrow> h' a = h e)"
    by (cases "alloc0 h") (auto simp: dup0_def map_le_def dest: alloc0_fresh)
qed

lemma copy_ptr0_ok:
  assumes "\<And>s. ptrs s = set_option (get s)" "\<And>p s. get (put p s) = p" "get zero = None"
  shows "copy_ok ptrs zero (copy_ptr0 up get put)"
  unfolding copy_ok_def
proof (intro allI impI)
  fix s and h :: heap
  assume src: "ptrs s \<subseteq> dom h"
  show "\<exists>r s' h'. copy_ptr0 up get put s zero h = Some (r, s', h') \<and> h \<subseteq>\<^sub>m h' \<and> dom h' = dom h \<union> ptrs s' \<and>
      ptrs s' \<inter> dom h = {} \<and> (ptrs s = {} \<longrightarrow> ptrs s' = {}) \<and> (r \<noteq> RMW_RET_OK \<longrightarrow> s' = zero)"
  proof (cases "get s")
    case None
    then show ?thesis by (cases up) (auto simp: copy_ptr0_def assms)
  next
    case (Some e)
    then have "e \<in> dom h" using src by (simp add: assms)
    then obtain p h' where "dup0 e h = Some (p, h')" "h \<subseteq>\<^sub>m h'" "dom h' = dom h \<union> set_option p" "set_option p \<inter> dom h = {}"
      using dup0_ok unfolding strdup_ok_def by blast
    then show ?thesis by (cases up; cases p) (auto simp: copy_ptr0_def assms Some)
  qed
qed

lemma fini_ptr0_ok:
  assumes "\<And>s. ptrs s = set_option (get s)"
  shows "fini_ok ptrs zero (fini_ptr0 get zero)"
proof -
  have "h |` (- {a}) = h(a := None)" for h :: heap and a by (auto simp: restrict_map_def fun_eq_iff)
  moreover have "h |` UNIV = h" for h :: heap by (simp add: restrict_map_def)
  ultimately show ?thesis by (auto simp: fini_ok_def fini_ptr0_def assms split: option.splits)
qed

lemma lib0_ok: "lib_ok (lib0 up)"
proof -
  have "copy_ok sec_ptrs zero_sec (copy_ptr0 True so_root_path (\<lambda>p s. s\<lparr>so_root_path := p\<rparr>))"
    "copy_ok disc_ptrs zero_disc (copy_ptr0 up do_static_peers (\<lambda>p s. s\<lparr>do_static_peers := p\<rparr>))"
    by (rule copy_ptr0_ok; simp add: sec_ptrs_def disc_ptrs_def zero_sec_def zero_disc_def)+
  moreover have "fini_ok sec_ptrs zero_sec (fini_ptr0 so_root_path zero_sec)"
    "fini_ok disc_ptrs zero_disc (fini_ptr0 do_static_peers zero_disc)"
    by (rule fini_ptr0_ok; simp add: sec_ptrs_def disc_ptrs_def)+
  ultimately show ?thesis
    using dup0_ok by (simp add: lib_ok_def lib0_def zero_ctx_def zero_opts_def sec_ptrs_def disc_ptrs_def domIff)
      (simp add: zero_sec_def zero_disc_def)
qed

section \<open>A host\<close>

definition opts1 :: init_options where
  "opts1 = zero_opts\<lparr>io_identifier := Some uds_identifier, io_enclave := Some 0\<rparr>"

definition heap1 :: heap where "heap1 = [0 \<mapsto> Text ''/talker'']"

definition host1 :: host where
  "host1 = \<lparr>ho_world = world0, ho_registry_file = None, ho_open = {}, ho_contexts = Map.empty, ho_next = 0, ho_heap = heap1\<rparr>"

definition iv1 :: init_env where
  "iv1 = \<lparr>iv_sys = sys0, iv_random = Some (3, 4), iv_dir_ok = True, iv_header_bytes = 56, iv_open = (\<lambda>_. example_open_env),
     iv_socket_files = None, iv_shm_files = None, iv_steady_now = 0, iv_send_net = sy_net sys0\<rparr>"

lemma host1_ok: "host_ok host1" "opt_ptrs opts1 = {0}" "opt_sep opts1" "opt_ptrs opts1 \<subseteq> dom (ho_heap host1)"
  "\<bar>sy_pid (iv_sys iv1)\<bar> \<le> 2 ^ 31"
  using wf_reg0 env0_ok
  by (simp_all add: host_ok_def host1_def world0_def opt_ptrs_def opt_sep_def opts1_def zero_opts_def sec_ptrs_def disc_ptrs_def
      zero_sec_def zero_disc_def heap1_def iv1_def sys0_def env0_def)

lemma lib0_simps:
  "lb_security_copy (lib0 up) zero_sec z h = Some (RMW_RET_OK, zero_sec, h)"
  "lb_security_fini (lib0 up) zero_sec h = Some (RMW_RET_OK, zero_sec, h)"
  "lb_discovery_copy (lib0 True) zero_disc zd h = Some (RMW_RET_OK, zero_disc, h)"
  "lb_discovery_copy (lib0 False) zero_disc zd h = Some (RMW_RET_BAD_ALLOC, zd, h)"
  "lb_zero_security (lib0 up) = zero_sec" "lb_zero_discovery (lib0 up) = zero_disc" "lb_zero_options (lib0 up) = zero_opts"
  "lb_zero_context (lib0 up) = zero_ctx" "lb_default_domain_id (lib0 up) = -1" "lb_strdup (lib0 up) = dup0"
  "io_security opts1 = zero_sec" "io_discovery opts1 = zero_disc" "io_enclave opts1 = Some 0" "io_domain_id opts1 = 0"
  "io_identifier opts1 = Some uds_identifier" "io_identifier zero_opts = None" "rc_impl zero_ctx = None"
  by (simp_all add: lib0_def copy_ptr0_def fini_ptr0_def opts1_def zero_opts_def zero_ctx_def) (simp_all add: zero_sec_def zero_disc_def)

theorem failed_copy_double_free_witness:
  "\<exists>d h2. rmw_init_options_copy (lib0 False) (Some opts1) (Some zero_opts) heap1 = Some (RMW_RET_BAD_ALLOC, Some d, heap1) \<and>
     rmw_init_options_fini (lib0 False) (Some d) heap1 = Some (RMW_RET_OK, Some zero_opts, h2) \<and>
     rmw_init_options_fini (lib0 False) (Some opts1) h2 = None"
proof -
  let ?d = "opts1\<lparr>io_security := zero_sec, io_discovery := zero_disc\<rparr>"
  have c: "rmw_init_options_copy (lib0 False) (Some opts1) (Some zero_opts) heap1 = Some (RMW_RET_BAD_ALLOC, Some ?d, heap1)"
    by (simp add: rmw_init_options_copy_def lib0_simps)
  have own: "opt_ptrs opts1 \<subseteq> dom heap1" using host1_ok(4) by (simp add: host1_def)
  show ?thesis
    using failed_copy_double_free[OF lib0_ok own host1_ok(3) lib0_simps(16) c _ lib0_simps(13)] c by (auto simp: lib0_simps)
qed

lemma quiet_sweep: "sweep_entries sy (w\<lparr>wo_reg := initialize_header\<rparr>) = w\<lparr>wo_reg := initialize_header\<rparr>"
  by (simp add: sweep_entries_def registry_cleanup_stale_def initialize_header_def)

lemma doorbell_opens:
  "\<exists>path bell ho'. open_doorbell iv1 0 ho = (path, Some bell, ho') \<and> ho_heap ho' = ho_heap ho"
proof -
  let ?p = "make_socket_path 0 ''ctl'' (sy_pid sys0) (wo_path_ctr (ho_world ho)) (se_now_us (sy_shm sys0))"
  have "sun_path ?p = ?p"
    using make_socket_path_short[of "sy_pid sys0" "''ctl''"] host1_ok(5) by (simp add: iv1_def sun_path_def)
  then show ?thesis
    by (simp add: open_doorbell_def Let_def iv1_def create_bound_socket_def net_unlink_def) (simp add: sys0_def)
qed

lemma init_runs:
  obtains c' ho' where "rmw_init (lib0 True) iv1 (Some opts1) (Some zero_ctx) host1 = Some (RMW_RET_OK, Some c', ho')"
proof -
  obtain p ho1 where a: "alloc_context host1 = (p, ho1)" by fastforce
  have h1: "ho_registry_file ho1 = None" "ho_heap ho1 = heap1" using a by (auto simp: alloc_context_def host1_def)
  obtain reg ho2 where r: "open_registry_file iv1 ho1 = (Some reg, ho2)" "ho_heap ho2 = heap1"
    using h1 by (auto simp: open_registry_file_def iv1_def example_open_env_def registry_open_def numeral_2_eq_2 open_attempt_def Let_def)
  obtain tx ho4 where t: "open_send_socket iv1 (ho2\<lparr>ho_world := init_sweeps iv1 0 (ho_world ho2)\<rparr>) = (Some tx, ho4)" "ho_heap ho4 = heap1"
    using r(2) by (simp add: open_send_socket_def create_send_socket_def iv1_def sys0_def)
  obtain path bell ho5 where d: "open_doorbell iv1 0 ho4 = (path, Some bell, ho5)" "ho_heap ho5 = heap1"
    using doorbell_opens[of ho4] t(2) by auto
  have dup: "dup0 0 heap1 = Some (Some 1, heap1(1 \<mapsto> Text ''/talker''))"
    by (simp add: dup0_def alloc0_def heap1_def upt_conv_Cons)
  have iv: "iv_random iv1 = Some (3, 4)" "iv_dir_ok iv1" "sy_new_ok (iv_sys iv1)" by (simp_all add: iv1_def sys0_def)
  show ?thesis
    using that by (simp add: rmw_init_def lib0_simps a iv build_context_def r t d commit_context_def dup Let_def)
qed


theorem context_lifecycle_balanced_witness:
  "\<exists>c' ho1 ho3. rmw_init (lib0 True) iv1 (Some opts1) (Some zero_ctx) host1 = Some (RMW_RET_OK, Some c', ho1) \<and>
     rmw_context_fini (lib0 True) sys0 (Some c') ho1 = Some (RMW_RET_OK, Some zero_ctx, ho3) \<and>
     ho_heap ho3 = heap1 \<and> ho_open ho3 = {} \<and> ho_contexts ho3 = Map.empty"
proof -
  obtain c' ho' ctx p where r: "rmw_init (lib0 True) iv1 (Some opts1) (Some zero_ctx) host1 = Some (RMW_RET_OK, Some c', ho')"
    "rc_impl c' = Some p" "ho_contexts ho' = (ho_contexts host1)(p \<mapsto> ctx)" "wired host1 ctx ho'"
  proof (cases rule: init_cases[OF lib0_ok host1_ok(4,1,5), of True zero_ctx, case_names ok failed])
    case (ok c' ho' ctx p)
    then show ?thesis using that by blast
  next
    case (failed r c' ho')
    then show ?thesis using init_runs by (metis option.inject prod.inject)
  qed
  have p: "ho_contexts ho' p = Some ctx" using r(3) by simp
  have "used ho' p ctx ctx ho'"
    using r(3,4) by (auto simp: used_def wired_def)
  then obtain ho3 where "rmw_context_fini (lib0 True) sys0 (Some c') ho' = Some (RMW_RET_OK, Some zero_ctx, ho3)"
    "ho_heap ho3 = ho_heap host1" "ho_open ho3 = ho_open host1" "ho_contexts ho3 = ho_contexts host1"
    using context_lifecycle_balanced[OF lib0_ok host1_ok(4,1,5) r(1,2) p, of ctx ho' sys0] by (auto simp: lib0_simps)
  then show ?thesis using r(1) by (auto simp: host1_def)
qed

text \<open>Two options: the first is initialized, named, and copied into the second.\<close>

definition own1 :: ownership where
  "own1 = \<lparr>ow_options = (\<lambda>_. zero_opts), ow_contexts = (\<lambda>_. zero_ctx), ow_host = host1\<lparr>ho_heap := Map.empty\<rparr>\<rparr>"


end
