(* ===== verification/Uds_Open_Race.thy ===== *)
theory Uds_Open_Race
  imports Uds_Registry
begin

text \<open>
  \<^verbatim>\<open>registry_open\<close> system call by system call, in any number of processes at once. The name of
  the domain's registry refers to at most one inode; a process that has an inode open keeps it
  whatever happens to the name. \<open>Uds_Registry.registry_open\<close> is one process alone.
\<close>

section \<open>The opener as a state machine\<close>

text \<open>
  Program counters: the number is the attempt (0 or 1), then the open inode. \<open>Map_created\<close> and
  \<open>Map_existing\<close> are the call of \<^verbatim>\<open>mmap\<close> with \<^verbatim>\<open>we_created\<close> true and false, \<open>Spin\<close> is the
  bounded wait for the version word, \<open>Gave_up\<close> the load after it. A process that is done
  registers in the table it has mapped; \<open>initialize_header\<close> empties the table.
\<close>

datatype open_pc =
    Create nat | Truncate nat | Reopen nat | Stat nat nat | Unlink nat
  | Map_created nat | Map_existing nat nat | Initialize nat | Spin nat nat | Gave_up nat nat | Done nat | Failed

record openers =
  op_name :: "nat option"
  op_size :: "nat \<Rightarrow> nat"
  op_version :: "nat \<Rightarrow> u32"
  op_entries :: "nat \<Rightarrow> nat set"     \<comment> \<open>who is registered in the table of an inode\<close>
  op_next :: nat
  op_pc :: "nat \<Rightarrow> open_pc"

definition at_pc :: "nat \<Rightarrow> open_pc \<Rightarrow> openers \<Rightarrow> openers" where
  "at_pc t pc s = s\<lparr>op_pc := (op_pc s)(t := pc)\<rparr>"

text \<open>The next iteration of the loop over the two attempts.\<close>

definition next_attempt :: "nat \<Rightarrow> open_pc" where
  "next_attempt k = (if k = 0 then Create 1 else Failed)"

inductive open_step :: "nat \<Rightarrow> openers \<Rightarrow> openers \<Rightarrow> bool" for full where
  created: "op_pc s t = Create k \<Longrightarrow> op_name s = None \<Longrightarrow>
    open_step full s (at_pc t (Truncate (op_next s)) (s\<lparr>op_name := Some (op_next s), op_size := (op_size s)(op_next s := 0),
      op_version := (op_version s)(op_next s := 0), op_next := Suc (op_next s)\<rparr>))"
| exists: "op_pc s t = Create k \<Longrightarrow> op_name s = Some i \<Longrightarrow> open_step full s (at_pc t (Reopen k) s)"
| create_fails: "op_pc s t = Create k \<Longrightarrow> open_step full s (at_pc t Failed s)"
| truncated: "op_pc s t = Truncate i \<Longrightarrow> open_step full s (at_pc t (Map_created i) (s\<lparr>op_size := (op_size s)(i := full)\<rparr>))"
| truncate_fails: "op_pc s t = Truncate i \<Longrightarrow> open_step full s (at_pc t Failed (s\<lparr>op_name := None\<rparr>))"
| reopened: "op_pc s t = Reopen k \<Longrightarrow> op_name s = Some i \<Longrightarrow> open_step full s (at_pc t (Stat k i) s)"
| reopen_fails: "op_pc s t = Reopen k \<Longrightarrow> open_step full s (at_pc t Failed s)"
| right_size: "op_pc s t = Stat k i \<Longrightarrow> op_size s i = full \<Longrightarrow> open_step full s (at_pc t (Map_existing k i) s)"
| wrong_size: "op_pc s t = Stat k i \<Longrightarrow> op_size s i \<noteq> full \<Longrightarrow> open_step full s (at_pc t (Unlink k) s)"
| stat_fails: "op_pc s t = Stat k i \<Longrightarrow> open_step full s (at_pc t Failed s)"
| unlinked: "op_pc s t = Unlink k \<Longrightarrow> open_step full s (at_pc t (next_attempt k) (s\<lparr>op_name := None\<rparr>))"
| mapped_created: "op_pc s t = Map_created i \<Longrightarrow> open_step full s (at_pc t (Initialize i) s)"
| mapped_existing: "op_pc s t = Map_existing k i \<Longrightarrow> open_step full s (at_pc t (Spin k i) s)"
| map_fails: "op_pc s t = Map_created i \<or> op_pc s t = Map_existing k i \<Longrightarrow> open_step full s (at_pc t Failed s)"
| initialized: "op_pc s t = Initialize i \<Longrightarrow>
    open_step full s (at_pc t (Done i) (s\<lparr>op_version := (op_version s)(i := REGISTRY_VERSION), op_entries := (op_entries s)(i := {})\<rparr>))"
| attached: "op_pc s t = Spin k i \<Longrightarrow> op_version s i = REGISTRY_VERSION \<Longrightarrow> open_step full s (at_pc t (Done i) s)"
| gives_up: "op_pc s t = Spin k i \<Longrightarrow> op_version s i \<noteq> REGISTRY_VERSION \<Longrightarrow> open_step full s (at_pc t (Gave_up k i) s)"
| foreign: "op_pc s t = Gave_up k i \<Longrightarrow> op_version s i \<noteq> 0 \<Longrightarrow> op_version s i \<noteq> REGISTRY_VERSION \<Longrightarrow>
    open_step full s (at_pc t (Unlink k) s)"
| takes_over: "op_pc s t = Gave_up k i \<Longrightarrow> op_version s i = 0 \<or> op_version s i = REGISTRY_VERSION \<Longrightarrow>
    open_step full s (at_pc t (Initialize i) s)"
| registers: "op_pc s t = Done i \<Longrightarrow> open_step full s (s\<lparr>op_entries := (op_entries s)(i := insert t (op_entries s i))\<rparr>)"

text \<open>Every process is about to open.\<close>

definition newcomers :: "openers \<Rightarrow> bool" where
  "newcomers s \<longleftrightarrow> (\<forall>t. op_pc s t = Create 0)"

section \<open>A live registry is joined and kept\<close>

definition joined :: "nat \<Rightarrow> open_pc \<Rightarrow> bool" where
  "joined i pc \<longleftrightarrow> (case pc of
     Create k \<Rightarrow> True | Reopen k \<Rightarrow> True | Stat k j \<Rightarrow> j = i | Map_existing k j \<Rightarrow> j = i | Spin k j \<Rightarrow> j = i
   | Done j \<Rightarrow> j = i | Failed \<Rightarrow> True | _ \<Rightarrow> False)"

definition settled :: "nat \<Rightarrow> nat \<Rightarrow> nat set \<Rightarrow> openers \<Rightarrow> bool" where
  "settled full i es s \<longleftrightarrow> op_name s = Some i \<and> op_size s i = full \<and> op_version s i = REGISTRY_VERSION \<and>
     es \<subseteq> op_entries s i \<and> (\<forall>t. joined i (op_pc s t))"

lemma joined_simps [simp]:
  "joined i (Create k)" "joined i (Reopen k)" "joined i Failed" "joined i (Stat k j) = (j = i)" "joined i (Map_existing k j) = (j = i)"
  "joined i (Spin k j) = (j = i)" "joined i (Done j) = (j = i)" "\<not> joined i (Truncate j)" "\<not> joined i (Unlink k)"
  "\<not> joined i (Map_created j)" "\<not> joined i (Initialize j)" "\<not> joined i (Gave_up k j)"
  by (simp_all add: joined_def)

lemma settled_step:
  assumes "open_step full s s'" "settled full i es s"
  shows "settled full i es s'"
proof -
  have j: "joined i (op_pc s t)" for t using assms(2) by (simp add: settled_def)
  have keep: "settled full i es (at_pc t pc s)" if "joined i pc" for t pc
    using assms(2) that by (simp add: settled_def at_pc_def)
  show ?thesis
    using assms(1)
  proof cases
    case (created t k)
    then show ?thesis using assms(2) by (simp add: settled_def)
  next
    case (registers t k)
    then show ?thesis using assms(2) by (auto simp: settled_def)
  next
    case (reopened t k j)
    then show ?thesis using assms(2) keep by (simp add: settled_def)
  next
    case (wrong_size t k j)
    then show ?thesis using assms(2) j[of t] by (simp add: settled_def)
  next
    case (gives_up t k j)
    then show ?thesis using assms(2) j[of t] by (simp add: settled_def)
  next
    case (truncated t j)
    then show ?thesis using j[of t] by simp
  next
    case (truncate_fails t j)
    then show ?thesis using j[of t] by simp
  next
    case (unlinked t k)
    then show ?thesis using j[of t] by simp
  next
    case (mapped_created t j)
    then show ?thesis using j[of t] by simp
  next
    case (initialized t j)
    then show ?thesis using j[of t] by simp
  next
    case (foreign t k j)
    then show ?thesis using j[of t] by simp
  next
    case (takes_over t k j)
    then show ?thesis using j[of t] by simp
  next
    case (exists t k j)
    then show ?thesis using j[of t] keep by simp
  next
    case (create_fails t k)
    then show ?thesis using j[of t] keep by simp
  next
    case (reopen_fails t k)
    then show ?thesis using j[of t] keep by simp
  next
    case (stat_fails t k j)
    then show ?thesis using j[of t] keep by simp
  next
    case (mapped_existing t k j)
    then show ?thesis using j[of t] keep by simp
  next
    case (right_size t k j)
    then show ?thesis using j[of t] keep by simp
  next
    case (attached t k j)
    then show ?thesis using j[of t] keep by simp
  next
    case (map_fails t)
    then show ?thesis using keep by simp
  qed
qed

interpretation openings: transition_invariant "open_step full" "settled full i es" for full i es
  by unfold_locales (rule settled_step)

text \<open>
  C15: a live registry is joined and kept. If the file exists with this build's size and version
  when any number of processes open it concurrently, its name keeps referring to it, every
  process that gets through has mapped this very file, and nothing registered in it is lost.
\<close>

theorem live_registry_is_joined:
  assumes "(open_step full)\<^sup>*\<^sup>* s0 s" "newcomers s0"
    and "op_name s0 = Some i" "op_size s0 i = full" "op_version s0 i = REGISTRY_VERSION"
  shows "op_name s = Some i \<and> (\<forall>t j. op_pc s t = Done j \<longrightarrow> j = i) \<and> op_entries s0 i \<subseteq> op_entries s i"
proof -
  have "settled full i (op_entries s0 i) s0" using assms(2-5) by (simp add: settled_def newcomers_def)
  then have "settled full i (op_entries s0 i) s" by (rule openings.steps_keep[OF assms(1)])
  then show ?thesis by (auto simp: settled_def) (metis joined_simps(7))
qed

section \<open>Two races at the first start\<close>

text \<open>
  Processes 0 and 1 start when there is no file. In the first run, process 1 looks at the file
  between the creation and the \<^verbatim>\<open>ftruncate\<close> of process 0, takes the empty file for one of another
  build, and unlinks it. In the second, process 0 is slow between \<^verbatim>\<open>ftruncate\<close> and
  \<^verbatim>\<open>initialize_header\<close>; process 1 gives up waiting, initializes the table itself and
  registers, and then process 0 empties the table.
\<close>

definition no_file :: openers where
  "no_file = \<lparr>op_name = None, op_size = (\<lambda>_. 0), op_version = (\<lambda>_. 0), op_entries = (\<lambda>_. {}), op_next = 0, op_pc = (\<lambda>_. Create 0)\<rparr>"

text \<open>One process's next step when no call fails.\<close>

definition advance :: "nat \<Rightarrow> nat \<Rightarrow> openers \<Rightarrow> openers" where
  "advance full t s =
     (case op_pc s t of
        Create k \<Rightarrow>
          (case op_name s of
             None \<Rightarrow> at_pc t (Truncate (op_next s)) (s\<lparr>op_name := Some (op_next s), op_size := (op_size s)(op_next s := 0),
                       op_version := (op_version s)(op_next s := 0), op_next := Suc (op_next s)\<rparr>)
           | Some i \<Rightarrow> at_pc t (Reopen k) s)
      | Truncate i \<Rightarrow> at_pc t (Map_created i) (s\<lparr>op_size := (op_size s)(i := full)\<rparr>)
      | Reopen k \<Rightarrow> (case op_name s of None \<Rightarrow> at_pc t Failed s | Some i \<Rightarrow> at_pc t (Stat k i) s)
      | Stat k i \<Rightarrow> at_pc t (if op_size s i = full then Map_existing k i else Unlink k) s
      | Unlink k \<Rightarrow> at_pc t (next_attempt k) (s\<lparr>op_name := None\<rparr>)
      | Map_created i \<Rightarrow> at_pc t (Initialize i) s
      | Map_existing k i \<Rightarrow> at_pc t (Spin k i) s
      | Initialize i \<Rightarrow> at_pc t (Done i) (s\<lparr>op_version := (op_version s)(i := REGISTRY_VERSION), op_entries := (op_entries s)(i := {})\<rparr>)
      | Spin k i \<Rightarrow> at_pc t (if op_version s i = REGISTRY_VERSION then Done i else Gave_up k i) s
      | Gave_up k i \<Rightarrow> at_pc t (if op_version s i = 0 \<or> op_version s i = REGISTRY_VERSION then Initialize i else Unlink k) s
      | Done i \<Rightarrow> s\<lparr>op_entries := (op_entries s)(i := insert t (op_entries s i))\<rparr>
      | Failed \<Rightarrow> s)"

lemma advance_step: "advance full t s = s \<or> open_step full s (advance full t s)"
  by (cases "op_pc s t"; cases "op_name s") (auto simp: advance_def intro: open_step.intros)

lemma schedule_reachable: "(open_step full)\<^sup>*\<^sup>* s (fold (advance full) ts s)"
proof (induction ts arbitrary: s)
  case (Cons t ts)
  then show ?case using advance_step[of full t s]
    by (metis converse_rtranclp_into_rtranclp fold_simps(2))
qed simp

text \<open>
  C20: the first start is not safe. With no file present, two processes that open the registry
  at the same time can both succeed and end up in two different files, only one of which has the
  name: neither ever sees the other. And a process that gave up waiting for a slow creator, initialized
  the table and registered in it can be erased when the creator goes on.
\<close>

theorem first_start_races:
  "(\<exists>s. (open_step (compute_registry_size hb))\<^sup>*\<^sup>* no_file s \<and> op_pc s 0 = Done 0 \<and> op_pc s 1 = Done 1 \<and> op_name s = Some 1) \<and>
   (\<exists>s s'. (open_step (compute_registry_size hb))\<^sup>*\<^sup>* no_file s \<and> op_pc s 1 = Done 0 \<and> op_entries s 0 = {1} \<and>
      (open_step (compute_registry_size hb))\<^sup>*\<^sup>* s s' \<and> op_pc s' 0 = Done 0 \<and> op_pc s' 1 = Done 0 \<and> op_name s' = Some 0 \<and>
      op_entries s' 0 = {})"
proof (intro conjI exI)
  let ?run = "\<lambda>ts. fold (advance (compute_registry_size hb)) ts"
  let ?split = "[0, 1, 1, 1, 1, 1, 1, 1, 1, 0, 0, 0]" and ?wait = "[0, 0, 1, 1, 1, 1, 1, 1, 1, 1]"
  have pos: "compute_registry_size hb \<noteq> 0" by (simp add: compute_registry_size_def REGISTRY_MAX_ENTRIES_def)
  note ev = advance_def at_pc_def no_file_def next_attempt_def REGISTRY_VERSION_def
  show "(open_step (compute_registry_size hb))\<^sup>*\<^sup>* no_file (?run ?split no_file)" by (rule schedule_reachable)
  show "op_pc (?run ?split no_file) 0 = Done 0" "op_pc (?run ?split no_file) 1 = Done 1" "op_name (?run ?split no_file) = Some 1"
    using pos by (simp_all add: ev)
  show "(open_step (compute_registry_size hb))\<^sup>*\<^sup>* no_file (?run ?wait no_file)" by (rule schedule_reachable)
  show "op_pc (?run ?wait no_file) 1 = Done 0" "op_entries (?run ?wait no_file) 0 = {1}"
    using pos by (simp_all add: ev)
  show "(open_step (compute_registry_size hb))\<^sup>*\<^sup>* (?run ?wait no_file) (?run [0, 0] (?run ?wait no_file))" by (rule schedule_reachable)
  show "op_pc (?run [0, 0] (?run ?wait no_file)) 0 = Done 0" "op_pc (?run [0, 0] (?run ?wait no_file)) 1 = Done 0"
    "op_name (?run [0, 0] (?run ?wait no_file)) = Some 0" "op_entries (?run [0, 0] (?run ?wait no_file)) 0 = {}"
    using pos by (simp_all add: ev)
qed

text \<open>Two more processes join a live registry that process 7 is registered in.\<close>

definition live_file :: "nat \<Rightarrow> openers" where
  "live_file full = no_file\<lparr>op_name := Some 3, op_size := (\<lambda>_. full), op_version := (\<lambda>_. REGISTRY_VERSION),
     op_entries := (\<lambda>_. {7}), op_next := 4\<rparr>"

theorem live_registry_is_joined_witness:
  "op_name (fold (advance 100) [0, 1, 1, 0, 0, 0, 0, 1, 1, 0, 1, 1] (live_file 100)) = Some 3 \<and>
   7 \<in> op_entries (fold (advance 100) [0, 1, 1, 0, 0, 0, 0, 1, 1, 0, 1, 1] (live_file 100)) 3"
proof -
  have s: "newcomers (live_file 100)" "op_name (live_file 100) = Some 3" "op_size (live_file 100) 3 = 100"
    "op_version (live_file 100) 3 = REGISTRY_VERSION" "op_entries (live_file 100) 3 = {7}"
    by (simp_all add: live_file_def no_file_def newcomers_def)
  show ?thesis
    using live_registry_is_joined[OF schedule_reachable s(1-4), of "[0, 1, 1, 0, 0, 0, 0, 1, 1, 0, 1, 1]"] s(5) by simp
qed

end
