(* ===== verification/Uds_Unsupported.thy ===== *)
theory Uds_Unsupported
  imports Uds_Transport
begin

text \<open>
  The entry points this middleware does not implement (\<^verbatim>\<open>rmw_unsupported.cpp\<close>): loaned
  messages, dynamic messages and network flow endpoints answer \<^verbatim>\<open>RMW_RET_UNSUPPORTED\<close> whatever
  their arguments and write to none of them; the preallocations succeed, and the two that
  initialize clear the structure if there is one. And the check of the kernel's buffer limits,
  which only warns (\<^verbatim>\<open>transport.cpp\<close>).
\<close>

section \<open>Unsupported entry points\<close>

text \<open>The outputs are the arguments as the caller passed them.\<close>

definition rmw_borrow_loaned_message :: "'a \<Rightarrow> rmw_ret \<times> 'a" where
  "rmw_borrow_loaned_message outs = (RMW_RET_UNSUPPORTED, outs)"

definition rmw_return_loaned_message_from_publisher :: "'a \<Rightarrow> rmw_ret \<times> 'a" where
  "rmw_return_loaned_message_from_publisher outs = (RMW_RET_UNSUPPORTED, outs)"

definition rmw_publish_loaned_message :: "'a \<Rightarrow> rmw_ret \<times> 'a" where
  "rmw_publish_loaned_message outs = (RMW_RET_UNSUPPORTED, outs)"

definition rmw_take_loaned_message :: "'a \<Rightarrow> rmw_ret \<times> 'a" where
  "rmw_take_loaned_message outs = (RMW_RET_UNSUPPORTED, outs)"

definition rmw_take_loaned_message_with_info :: "'a \<Rightarrow> rmw_ret \<times> 'a" where
  "rmw_take_loaned_message_with_info outs = (RMW_RET_UNSUPPORTED, outs)"

definition rmw_return_loaned_message_from_subscription :: "'a \<Rightarrow> rmw_ret \<times> 'a" where
  "rmw_return_loaned_message_from_subscription outs = (RMW_RET_UNSUPPORTED, outs)"

definition rmw_take_dynamic_message :: "'a \<Rightarrow> rmw_ret \<times> 'a" where
  "rmw_take_dynamic_message outs = (RMW_RET_UNSUPPORTED, outs)"

definition rmw_take_dynamic_message_with_info :: "'a \<Rightarrow> rmw_ret \<times> 'a" where
  "rmw_take_dynamic_message_with_info outs = (RMW_RET_UNSUPPORTED, outs)"

definition rmw_serialization_support_init :: "'a \<Rightarrow> rmw_ret \<times> 'a" where
  "rmw_serialization_support_init outs = (RMW_RET_UNSUPPORTED, outs)"

definition rmw_publisher_get_network_flow_endpoints :: "'a \<Rightarrow> rmw_ret \<times> 'a" where
  "rmw_publisher_get_network_flow_endpoints outs = (RMW_RET_UNSUPPORTED, outs)"

definition rmw_subscription_get_network_flow_endpoints :: "'a \<Rightarrow> rmw_ret \<times> 'a" where
  "rmw_subscription_get_network_flow_endpoints outs = (RMW_RET_UNSUPPORTED, outs)"

section \<open>Preallocations\<close>

text \<open>The structure as its bytes; \<open>None\<close> is a null pointer.\<close>

definition rmw_init_publisher_allocation :: "bytes option \<Rightarrow> rmw_ret \<times> bytes option" where
  "rmw_init_publisher_allocation allocation = (RMW_RET_OK, map_option (\<lambda>bs. replicate (length bs) 0) allocation)"

definition rmw_fini_publisher_allocation :: "bytes option \<Rightarrow> rmw_ret \<times> bytes option" where
  "rmw_fini_publisher_allocation allocation = (RMW_RET_OK, allocation)"

definition rmw_init_subscription_allocation :: "bytes option \<Rightarrow> rmw_ret \<times> bytes option" where
  "rmw_init_subscription_allocation allocation = (RMW_RET_OK, map_option (\<lambda>bs. replicate (length bs) 0) allocation)"

definition rmw_fini_subscription_allocation :: "bytes option \<Rightarrow> rmw_ret \<times> bytes option" where
  "rmw_fini_subscription_allocation allocation = (RMW_RET_OK, allocation)"

section \<open>Kernel buffer limits\<close>

definition SEND_BUF_SIZE :: int where "SEND_BUF_SIZE = 48 * 1024 * 1024"
definition RECV_BUF_SIZE :: int where "RECV_BUF_SIZE = 48 * 1024 * 1024"

datatype limit_warning = Wmem_max int | Rmem_max int

text \<open>
  The two files as the integer \<^verbatim>\<open>fscanf\<close> reads, \<open>None\<close> when the file cannot be opened or holds no
  number; the check runs once per process. Result: the flag afterwards and the warnings.
\<close>

definition read_proc_int :: "int option \<Rightarrow> int" where
  "read_proc_int f = (case f of None \<Rightarrow> -1 | Some v \<Rightarrow> v)"

definition warn_if_sysctl_buffers_undersized :: "bool \<Rightarrow> int option \<Rightarrow> int option \<Rightarrow> bool \<times> limit_warning list" where
  "warn_if_sysctl_buffers_undersized once wmem rmem =
     (if once then (True, [])
      else (let wmax = read_proc_int wmem; rmax = read_proc_int rmem
            in (True, (if wmax > 0 \<and> wmax < SEND_BUF_SIZE then [Wmem_max wmax] else []) @
                      (if rmax > 0 \<and> rmax < RECV_BUF_SIZE then [Rmem_max rmax] else []))))"

end
