(* ===== verification/Uds_Crash.thy ===== *)
theory Uds_Crash
  imports Uds_Registry_Props
begin

text \<open>
  What a process that dies inside a registry operation leaves in its slot, and what the sweeps
  and the later operations make of it. Two places: between the claim of a slot and the
  publication of its type, and inside the teardown's write section.
\<close>

section \<open>Unreadable slots\<close>

definition unreadable :: "slot \<Rightarrow> bool" where
  "unreadable s \<longleftrightarrow> odd (unat (sl_seq s)) \<or> sl_state s = ENTRY_RESERVED"

lemma unreadable_snapshot:
  assumes "unreadable s"
  shows "snapshot_slot s = None"
proof -
  have "snapshot_loop n (\<lambda>_. read_still s) = None" for n
    using assms by (induction n) (auto simp: unreadable_def read_still_def Let_def)
  then show ?thesis by (simp add: snapshot_slot_def)
qed

lemma tear_out_elsewhere: "j \<noteq> i \<Longrightarrow> rg_slots (fst (tear_out r j)) ! i = rg_slots r ! i"
  by (simp add: tear_out_def set_slot_def Let_def split: prod.splits)

lemma cleanup_keeps_unreadable:
  "unreadable (rg_slots r ! i) \<Longrightarrow> rg_slots (fst (cleanup_loop proc is (r, effs, b))) ! i = rg_slots r ! i"
proof (induction "is" arbitrary: r effs b)
  case (Cons j "is")
  show ?case
  proof (cases "j = i")
    case True
    then have "snapshot_slot (rg_slots r ! j) = None" using unreadable_snapshot[OF Cons.prems] by simp
    then show ?thesis using Cons.IH[OF Cons.prems] by (simp add: Let_def)
  next
    case False
    obtain r1 eff where t: "tear_out r j = (r1, eff)" by fastforce
    have s: "rg_slots r1 ! i = rg_slots r ! i" using tear_out_elsewhere[OF False, of r] by (simp add: t)
    then have u: "unreadable (rg_slots r1 ! i)" using Cons.prems by simp
    show ?thesis using Cons.IH[OF Cons.prems] Cons.IH[OF u] s by (simp add: Let_def t split: option.splits)
  qed
qed simp

lemma sweep_keeps_unreadable:
  "unreadable (rg_slots r ! i) \<Longrightarrow> rg_slots (fst (registry_cleanup_stale env proc r)) ! i = rg_slots r ! i"
  using cleanup_keeps_unreadable[of r i proc "[0..<min (rg_high_water r) (max_entries r)]" "[]" False]
  by (auto simp: registry_cleanup_stale_def split: prod.splits)

lemma find_empty_state: "find_empty 0 ss = Some i \<Longrightarrow> i < length ss \<and> sl_state (ss ! i) = ENTRY_EMPTY"
  using find_empty_Some[of 0 ss i] by (simp add: occupied_def)

lemma try_add_elsewhere:
  assumes "try_add_once env r e = (x, r', rung)" "sl_state (rg_slots r ! i) \<noteq> ENTRY_EMPTY"
  shows "x \<noteq> Some i" "rg_slots r' ! i = rg_slots r ! i"
proof -
  have "x = Some j \<Longrightarrow> j \<noteq> i" "x = find_empty 0 (rg_slots r)" for j
    using assms find_empty_state[of "rg_slots r"] by (auto simp: try_add_once_def Let_def split: option.splits)
  then show "x \<noteq> Some i" "rg_slots r' ! i = rg_slots r ! i"
    using assms(1) by (auto simp: try_add_once_def claim_slot_def set_slot_def Let_def split: option.splits)
qed


definition dead_remover_slot :: registry where
  "dead_remover_slot = \<lparr>rg_slots = [zero_slot\<lparr>sl_seq := 5\<rparr>], rg_generation = 2, rg_high_water = 1\<rparr>"

definition quiet_ring :: ring_env where
  "quiet_ring = \<lparr>rg_fd_ok = True, rg_send = (\<lambda>_. Ring_sent), rg_recreate_ok = True\<rparr>"


end
