(* ===== verification/Uds_Typed.thy ===== *)
theory Uds_Typed
  imports Uds_Lifecycle Uds_Wait
begin

text \<open>
  The type of what discovery stores: every entry has one of the six entity types, a 16-byte
  GID, and strings that fit the slot's character arrays with their terminating null. Whatever
  the entry points of any number of processes do, the registry holds typed entries only.
\<close>

definition typed_entry :: "reg_entry \<Rightarrow> bool" where
  "typed_entry e \<longleftrightarrow>
     en_type e \<in> {ENTRY_NODE, ENTRY_PUBLISHER, ENTRY_SUBSCRIPTION, ENTRY_SERVICE, ENTRY_CLIENT, ENTRY_DOORBELL} \<and>
     length (pl_gid (en_payload e)) = 16 \<and> length (pl_node_name (en_payload e)) < 256 \<and>
     length (pl_node_namespace (en_payload e)) < 256 \<and> length (pl_topic_name (en_payload e)) < 256 \<and>
     length (pl_type_name (en_payload e)) < 256 \<and> length (pl_socket_path (en_payload e)) < 108"

definition typed_registry :: "registry \<Rightarrow> bool" where
  "typed_registry r \<longleftrightarrow> wf_registry r \<and> (\<forall>i e. entries r i = Some e \<longrightarrow> typed_entry e)"

lemma typed_registry_sub:
  "wf_registry r' \<Longrightarrow> entries r' \<subseteq>\<^sub>m entries r \<Longrightarrow> typed_registry r \<Longrightarrow> typed_registry r'"
  unfolding typed_registry_def map_le_def by (metis domI)

lemma typed_wf: "typed_entry e \<Longrightarrow> wf_entry e"
  by (auto simp: typed_entry_def wf_entry_def uds_defs)

lemma length_fit [simp]: "0 < n \<Longrightarrow> length (fit n s) < n"
  by (simp add: fit_def)

section \<open>The three operations on the registry\<close>

lemma typed_add:
  assumes "typed_registry (wo_reg w)" "typed_entry e" "add_entry sy e w = (k, w')"
  shows "typed_registry (wo_reg w')"
proof -
  have wf: "wf_registry (wo_reg w)" using assms(1) by (simp add: typed_registry_def)
  note a = add_entry_cases[OF wf typed_wf[OF assms(2)] assms(3)]
  have "entries (wo_reg w') i = Some x \<Longrightarrow> x = e \<or> entries (wo_reg w) i = Some x" for i x
    using a(2) by (auto simp: add_spec_def Let_def sweep_map_def split: option.splits if_splits)
  then show ?thesis using assms(1,2) a(1) unfolding typed_registry_def by blast
qed

lemma typed_remove: "typed_registry (wo_reg w) \<Longrightarrow> typed_registry (wo_reg (remove_entry sy k w))"
proof -
  assume t: "typed_registry (wo_reg w)"
  then have wf: "wf_registry (wo_reg w)" by (simp add: typed_registry_def)
  obtain r effs rung where a: "registry_remove (sy_ring sy) (wo_reg w) k = (r, effs, rung)"
    by (cases "registry_remove (sy_ring sy) (wo_reg w) k")
  have "wf_registry r" "entries r \<subseteq>\<^sub>m entries (wo_reg w)"
    using registry_remove_props[OF wf a] by (auto simp: map_le_def)
  then show ?thesis using typed_registry_sub t by (simp add: remove_entry_def a)
qed

lemma typed_sweep: "typed_registry (wo_reg w) \<Longrightarrow> typed_registry (wo_reg (sweep_entries sy w))"
proof -
  assume t: "typed_registry (wo_reg w)"
  then have wf: "wf_registry (wo_reg w)" by (simp add: typed_registry_def)
  obtain r effs rung where c: "registry_cleanup_stale (sy_ring sy) (sy_proc sy) (wo_reg w) = (r, effs, rung)"
    by (cases "registry_cleanup_stale (sy_ring sy) (sy_proc sy) (wo_reg w)")
  have "wf_registry r" "entries r \<subseteq>\<^sub>m entries (wo_reg w)"
    using registry_cleanup_stale_props[OF wf c] by (auto simp: map_le_def sweep_map_def split: option.splits if_splits)
  then show ?thesis using typed_registry_sub t by (simp add: sweep_entries_def c)
qed

lemma typed_initialize: "typed_registry initialize_header"
  by (simp add: typed_registry_def wf_initialize_header entries_initialize)

text \<open>What the entry points do besides leaves the table alone.\<close>

lemma other_effects [simp]:
  "wo_reg (close_entity_socket path w) = wo_reg w" "wo_reg (drop_latch pub w) = wo_reg w"
  "with_latch sy pub w = (pub', w') \<Longrightarrow> wo_reg w' = wo_reg w"
  "pc_world (destroy_guard_condition g p) = pc_world p"
  by (auto simp: close_entity_socket_def drop_latch_def with_latch_def destroy_guard_condition_def split: if_splits prod.splits)

lemma create_guard_condition_reg: "create_guard_condition nv p = (g, p') \<Longrightarrow> wo_reg (pc_world p') = wo_reg (pc_world p)"
  by (auto simp: create_guard_condition_def Let_def split: if_splits prod.splits option.splits)

section \<open>The entries of the entities\<close>

lemma typed_entity:
  "ty \<in> {ENTRY_PUBLISHER, ENTRY_SUBSCRIPTION, ENTRY_SERVICE, ENTRY_CLIENT} \<Longrightarrow> length gid = 16 \<Longrightarrow>
   typed_entry (entity_entry sy ty node gid topic type path qos)"
  by (auto simp: typed_entry_def entity_entry_def)

lemma typed_rpc:
  "ty \<in> {ENTRY_SERVICE, ENTRY_CLIENT} \<Longrightarrow> length (ep_gid ep) = 16 \<Longrightarrow> typed_entry (rpc_entry sy ty node ep)"
  by (auto simp: typed_entry_def rpc_entry_def entity_entry_def Let_def)

lemma typed_node: "typed_entry (node_entry sy name ns)"
  by (simp add: typed_entry_def node_entry_def zero_payload_def)

lemma typed_doorbell: "typed_entry (doorbell_entry sy ctx)"
  by (simp add: typed_entry_def doorbell_entry_def zero_payload_def)

lemma gid_length: "gid_generate p c n = (g, n') \<Longrightarrow> length g = 16"
  using length_gid_generate[of p c n] by simp

section \<open>Every entry point\<close>

lemma typed_create_publisher:
  assumes "typed_registry (wo_reg w)" "create_publisher sy node ts topic qos w = (p, w')"
  shows "typed_registry (wo_reg w')"
proof (cases "get_callbacks ts = None \<or> \<not> sy_new_ok sy")
  case True
  then show ?thesis using assms by (auto simp: create_publisher_def split: option.splits)
next
  case False
  then obtain cb where cb: "get_callbacks ts = Some cb" "sy_new_ok sy" by auto
  obtain gid c where g: "gid_generate (of_int (sy_pid sy)) (cx_context_id (nd_context node)) (wo_gid_ctr w) = (gid, c)" by fastforce
  obtain pub w1 where l: "with_latch sy (new_publisher (nd_context node) gid topic cb qos) (w\<lparr>wo_gid_ctr := c\<rparr>) = (pub, w1)" by fastforce
  let ?e = "entity_entry sy ENTRY_PUBLISHER node gid topic (pb_type_name pub) (tw_shm_name (pb_tl_ring pub)) (pb_qos pub)"
  obtain k w2 where a: "add_entry sy ?e w1 = (k, w2)" by fastforce
  have "typed_registry (wo_reg w2)"
    by (rule typed_add[OF _ _ a]) (use assms(1) other_effects(3)[OF l] typed_entity gid_length[OF g] in simp_all)
  then show ?thesis
    using assms(2) by (auto simp: create_publisher_def Let_def cb g l a typed_remove split: if_splits)
qed

lemma typed_register_subscription:
  assumes "typed_registry (wo_reg w)" "register_subscription sy node cb topic qos il w = (p, w')"
  shows "typed_registry (wo_reg w')"
proof -
  let ?path = "make_socket_path (cx_domain_id (nd_context node)) ''sub'' (sy_pid sy) (wo_path_ctr w) (se_now_us (sy_shm sy))"
  obtain gid gctr where g: "gid_generate (of_int (sy_pid sy)) (cx_context_id (nd_context node)) (wo_gid_ctr w) = (gid, gctr)" by fastforce
  obtain uid uctr where u: "next_entity_uid (wo_uid_ctr w) = (uid, uctr)" by fastforce
  let ?sub = "new_subscription (nd_context node) uid gid topic cb qos il ?path"
  let ?e = "entity_entry sy ENTRY_SUBSCRIPTION node gid topic (su_type_name ?sub) ?path (su_qos ?sub)"
  let ?w1 = "w\<lparr>wo_uid_ctr := uctr, wo_gid_ctr := gctr, wo_path_ctr := wo_path_ctr w + 1\<rparr>"
  obtain s net where b: "create_bound_socket (sy_net sy) (wo_net w) ?path = (s, net)" by fastforce
  obtain k w2 where a: "add_entry sy ?e (?w1\<lparr>wo_net := net\<rparr>) = (k, w2)" by fastforce
  have "typed_registry (wo_reg w2)"
    by (rule typed_add[OF _ _ a]) (use assms(1) typed_entity gid_length[OF g] in simp_all)
  then show ?thesis
    using assms by (auto simp: register_subscription_def Let_def g u b a typed_remove split: if_splits option.splits)
qed

lemma typed_create_subscription:
  assumes "typed_registry (wo_reg w)" "create_subscription sy node ts topic qos il w = (p, w')"
  shows "typed_registry (wo_reg w')"
  using assms typed_register_subscription[OF assms(1)]
  by (auto simp: create_subscription_def split: option.splits if_splits prod.splits)

lemma typed_create_endpoint:
  assumes "typed_registry (wo_reg w)" "ty \<in> {ENTRY_SERVICE, ENTRY_CLIENT}"
    and "create_endpoint sy node pfx ty name type_name qos w = (p, w')"
  shows "typed_registry (wo_reg w')"
proof -
  let ?path = "make_socket_path (cx_domain_id (nd_context node)) pfx (sy_pid sy) (wo_path_ctr w) (se_now_us (sy_shm sy))"
  obtain gid gctr where g: "gid_generate (of_int (sy_pid sy)) (cx_context_id (nd_context node)) (wo_gid_ctr w) = (gid, gctr)" by fastforce
  obtain uid uctr where u: "next_entity_uid (wo_uid_ctr w) = (uid, uctr)" by fastforce
  let ?ep = "new_endpoint (nd_context node) uid gid name type_name qos ?path"
  let ?w1 = "w\<lparr>wo_uid_ctr := uctr, wo_gid_ctr := gctr, wo_path_ctr := wo_path_ctr w + 1\<rparr>"
  obtain s net where b: "create_bound_socket (sy_net sy) (wo_net w) ?path = (s, net)" by fastforce
  obtain k w2 where a: "add_entry sy (rpc_entry sy ty node ?ep) (?w1\<lparr>wo_net := net\<rparr>) = (k, w2)" by fastforce
  have len: "length (ep_gid ?ep) = 16" using gid_length[OF g] by (simp add: new_endpoint_def)
  have "typed_registry (wo_reg w2)"
    by (rule typed_add[OF _ typed_rpc[OF assms(2) len] a]) (use assms(1) in simp)
  then show ?thesis
    using assms by (auto simp: create_endpoint_def Let_def g u b a typed_remove split: if_splits option.splits)
qed

lemma typed_create_node:
  assumes "typed_registry (wo_reg (pc_world p))" "create_node sy nv ctx name ns p = (n, ctx', p')"
  shows "typed_registry (wo_reg (pc_world p'))"
proof -
  obtain g p1 where c: "create_guard_condition nv p = (g, p1)" by fastforce
  have p1: "typed_registry (wo_reg (pc_world p1))" using create_guard_condition_reg[OF c] assms(1) by simp
  obtain k w where a: "add_entry sy (node_entry sy name ns) (pc_world p1) = (k, w)" by fastforce
  have "typed_registry (wo_reg w)" by (rule typed_add[OF p1 typed_node a])
  then show ?thesis
    using assms(2) p1 by (auto simp: create_node_def Let_def c a typed_remove split: option.splits if_splits)
qed

lemma typed_wire_doorbell:
  assumes "typed_registry (wo_reg (pc_world (wt_process s)))"
  shows "typed_registry (wo_reg (pc_world (wt_process (snd (wire_doorbell sy ca s)))))"
proof -
  obtain k w where a: "add_entry sy (doorbell_entry sy (wt_ctx s)) (pc_world (wt_process s)) = (k, w)" by fastforce
  have "typed_registry (wo_reg w)" by (rule typed_add[OF assms typed_doorbell a])
  then show ?thesis using assms by (auto simp: wire_doorbell_def Let_def a)
qed

text \<open>
  C16: the registry is typed. A freshly initialized table is; and whatever names, types and
  profiles the entities are given, every creation, destruction, doorbell registration and sweep
  by any process leads from a typed table to a typed table: well-formed, and every entry with a type
  of its own, a 16-byte GID and null-terminated strings within their arrays.
\<close>

theorem registry_stays_typed:
  assumes "typed_registry (wo_reg (pc_world p))" "ty \<in> {ENTRY_SERVICE, ENTRY_CLIENT}" "wt_process s = p"
  shows "typed_registry initialize_header \<and>
    typed_registry (wo_reg (snd (create_publisher sy node ts topic qos (pc_world p)))) \<and>
    typed_registry (wo_reg (destroy_publisher sy pub (pc_world p))) \<and>
    typed_registry (wo_reg (snd (create_subscription sy node ts topic qos ignore_local (pc_world p)))) \<and>
    typed_registry (wo_reg (destroy_subscription sy sub (pc_world p))) \<and>
    typed_registry (wo_reg (snd (create_endpoint sy node pfx ty topic type_name qos (pc_world p)))) \<and>
    typed_registry (wo_reg (destroy_endpoint sy ep (pc_world p))) \<and>
    typed_registry (wo_reg (pc_world (snd (snd (create_node sy nv ctx name ns p))))) \<and>
    typed_registry (wo_reg (pc_world (snd (destroy_node sy node ctx p)))) \<and>
    typed_registry (wo_reg (pc_world (wt_process (snd (wire_doorbell sy ca s))))) \<and>
    typed_registry (wo_reg (remove_entry sy k (pc_world p))) \<and>
    typed_registry (wo_reg (sweep_entries sy (pc_world p)))"
proof (intro conjI)
  show "typed_registry initialize_header" by (rule typed_initialize)
  show "typed_registry (wo_reg (snd (create_publisher sy node ts topic qos (pc_world p))))"
    by (rule typed_create_publisher[OF assms(1) prod.collapse[symmetric]])
  show "typed_registry (wo_reg (snd (create_subscription sy node ts topic qos ignore_local (pc_world p))))"
    by (rule typed_create_subscription[OF assms(1) prod.collapse[symmetric]])
  show "typed_registry (wo_reg (snd (create_endpoint sy node pfx ty topic type_name qos (pc_world p))))"
    by (rule typed_create_endpoint[OF assms(1,2) prod.collapse[symmetric]])
  show "typed_registry (wo_reg (pc_world (snd (snd (create_node sy nv ctx name ns p)))))"
    by (cases "create_node sy nv ctx name ns p") (simp add: typed_create_node[OF assms(1)])
  show "typed_registry (wo_reg (pc_world (wt_process (snd (wire_doorbell sy ca s)))))"
    by (rule typed_wire_doorbell) (use assms(1,3) in simp)
  show "typed_registry (wo_reg (destroy_publisher sy pub (pc_world p)))"
    "typed_registry (wo_reg (destroy_subscription sy sub (pc_world p)))"
    "typed_registry (wo_reg (destroy_endpoint sy ep (pc_world p)))"
    using assms(1) by (simp_all add: destroy_publisher_def destroy_subscription_def destroy_endpoint_def Let_def typed_remove)
  show "typed_registry (wo_reg (pc_world (snd (destroy_node sy node ctx p))))"
    using assms(1) by (simp add: destroy_node_def Let_def typed_remove split: option.splits)
qed (use assms(1) typed_remove typed_sweep in simp_all)

text \<open>A publisher whose topic name does not fit is registered under its first 255 characters.\<close>

theorem registry_stays_typed_witness:
  "typed_registry (wo_reg (snd (create_publisher sys0 node0 \<lparr>ts_cpp = Some bytes_callbacks, ts_c = None\<rparr>
     (replicate 300 CHR ''t'') zero_qos (world0\<lparr>wo_reg := initialize_header\<rparr>))))"
proof -
  define p :: process where "p = \<lparr>pc_world = world0\<lparr>wo_reg := initialize_header\<rparr>, pc_gcs = Map.empty, pc_next_gc = 0\<rparr>"
  define s :: "(unit, unit, unit) waiting" where "s = undefined\<lparr>wt_process := p\<rparr>"
  have "typed_registry (wo_reg (pc_world p))" "ENTRY_CLIENT \<in> {ENTRY_SERVICE, ENTRY_CLIENT}" "wt_process s = p"
    by (simp_all add: p_def s_def typed_initialize)
  from registry_stays_typed[OF this, THEN conjunct2, THEN conjunct1, of sys0 node0
      "\<lparr>ts_cpp = Some bytes_callbacks, ts_c = None\<rparr>" "replicate 300 CHR ''t''" zero_qos]
  show ?thesis by (simp add: p_def)
qed

end
