(* ===== verification/Spec2Isabelle.thy ===== *)
theory Spec2Isabelle
  imports Uds_Ring_Props Uds_Graph_View Uds_Slot_Race Uds_Latched_Props Uds_Late_Join Uds_Graph_Props Uds_Node_Life
    Uds_Wait_Examples Uds_Doorbell Uds_Init_Examples Uds_Open_Race Uds_Unsupported
    Uds_Crash Uds_Typed
begin

text \<open>
  A model of \<^verbatim>\<open>rmw_unix_socket_cpp\<close>, a ROS 2 middleware for the processes of one machine, and
  the theorems that make it correct. Paths below are relative to
  \<^verbatim>\<open>src/rmw_unix_socket_cpp/src/\<close>.

  \<^bold>\<open>The program.\<close> Processes find each other through one shared-memory file per domain, the
  registry: a fixed table of slots, each protected by an atomic state and a sequence number,
  and a generation counter that every change advances. Messages travel as datagrams over Unix
  sockets, one bound socket per subscription, service client and service server. A payload above
  a threshold goes through a ring in shared memory owned by the sender, and the datagram holds a
  descriptor only. A TRANSIENT_LOCAL publisher keeps its last samples in a second kind of segment,
  the latched cache, which a late joiner pulls from by itself. \<^verbatim>\<open>rmw_wait\<close> blocks in \<^verbatim>\<open>epoll\<close> on
  the caller's sockets, on guard conditions (eventfds), and on a doorbell socket which other
  processes ring after a change of the registry.

  \<^bold>\<open>Theories and the code they model.\<close>

  \<^item> \<open>Uds_Prelude\<close>: words, bytes, little-endian numbers, byte memory, power-of-two rounding,
    return codes; the collections \<open>uds_defs\<close> and \<open>mem_simps\<close> every component's proofs use; the
    locale \<open>transition_invariant\<close>, which every step relation below interprets.
  \<^item> \<open>Uds_Names\<close>: names of segments and sockets (\<^verbatim>\<open>make_segment_name\<close>, \<^verbatim>\<open>make_socket_path\<close>),
    the liveness test \<^verbatim>\<open>pid_is_alive_or_unreachable\<close>, and the two sweeps at start-up.
  \<^item> \<open>Uds_Posix\<close>: the namespace of shared-memory objects; the locale \<open>shm_namespace\<close> states what
    its users rely on.
  \<^item> \<open>Uds_Wire\<close> (\<^verbatim>\<open>types.hpp\<close>, descriptors of \<^verbatim>\<open>shm_transport.hpp\<close>): the packed datagram header,
    descriptors, GIDs, type names.
  \<^item> \<open>Uds_Shm_Ring\<close>, \<open>Uds_Ring_Props\<close> (\<^verbatim>\<open>shm_transport.cpp\<close>, first half): the payload ring, its
    writer and its reader with the mapping cache.
  \<^item> \<open>Uds_Latched\<close>, \<open>Uds_Latched_Props\<close> (\<^verbatim>\<open>shm_transport.cpp\<close>, second half): durable segments and
    the latched cache.
  \<^item> \<open>Uds_Qos\<close> (\<^verbatim>\<open>rmw_features.cpp\<close>, \<^verbatim>\<open>resolve_qos\<close>) and \<open>Uds_Serialize\<close> (\<^verbatim>\<open>serialization.cpp\<close>,
    \<^verbatim>\<open>rmw_serialize.cpp\<close>).
  \<^item> \<open>Uds_Registry\<close> (\<^verbatim>\<open>registry.cpp\<close>): slots, add, remove, sweep, query, doorbells and opening,
    as one process runs them. \<open>Uds_Registry_Props\<close> and \<open>Uds_Graph_View\<close> hold their contract:
    a finite map, and the locale \<open>versioned_view\<close>, an answer that stays valid while the
    generation does not move. The publisher's subscriber list, the client's server path and the
    server's client cache are its interpretations.
  \<^item> \<open>Uds_Slot_Race\<close>, \<open>Uds_Open_Race\<close>, \<open>Uds_Crash\<close>: the same code between processes. One slot access
    by access, \<^verbatim>\<open>registry_open\<close> system call by system call, and what a process that died in the
    middle leaves behind.
  \<^item> \<open>Uds_Transport\<close>, \<open>Uds_Transport_Props\<close> (\<^verbatim>\<open>transport.cpp\<close>): sockets, \<^verbatim>\<open>sendmsg\<close> with the
    classification of its errors, the peek-and-receive loop, placement and resolution of payloads.
  \<^item> \<open>Uds_World\<close>: what the entities of a process share (\<open>world\<close>), the answers of the system
    (\<open>sys\<close>), and the checks at the start of an entry point (\<open>guard_entry\<close>).
  \<^item> \<open>Uds_Publisher\<close> (\<^verbatim>\<open>rmw_publisher.cpp\<close>), \<open>Uds_Inbox\<close> and \<open>Uds_Subscription\<close>
    (\<^verbatim>\<open>rmw_subscription.cpp\<close>), \<open>Uds_Rpc\<close>, \<open>Uds_Client\<close> (\<^verbatim>\<open>rmw_client.cpp\<close>) and \<open>Uds_Service\<close>
    (\<^verbatim>\<open>rmw_service.cpp\<close>), with their properties in \<open>Uds_Publisher_Props\<close>, \<open>Uds_Inbox_Props\<close>,
    \<open>Uds_Pubsub_Props\<close>, \<open>Uds_Rpc_Props\<close>. The drain of a socket into a queue is the same code in
    three files and one definition here, configured by \<open>drain_cfg\<close>; creation and destruction of a
    client and of a service are the same code too (\<open>create_endpoint\<close>).
  \<^item> \<open>Uds_Late_Join\<close>: a durable publisher and a late joiner, as a step relation.
  \<^item> \<open>Uds_Node\<close> (\<^verbatim>\<open>rmw_node.cpp\<close>, \<^verbatim>\<open>rmw_guard_condition.cpp\<close>, \<^verbatim>\<open>rmw_event.cpp\<close>), \<open>Uds_Node_Life\<close>,
    \<open>Uds_Lifecycle\<close>: nodes, guard conditions, events, and creation against destruction.
  \<^item> \<open>Uds_Graph\<close>, \<open>Uds_Graph_Props\<close> (\<^verbatim>\<open>rmw_graph.cpp\<close>).
  \<^item> \<open>Uds_Wait\<close> (\<^verbatim>\<open>rmw_wait.cpp\<close>), with \<open>Uds_Wait_Props\<close>, \<open>Uds_Wait_Results\<close>, \<open>Uds_Wait_Triggers\<close>,
    \<open>Uds_Wait_Examples\<close>; \<open>Uds_Doorbell\<close>: the protocol between a waiter and those who change the
    registry.
  \<^item> \<open>Uds_Init\<close> (\<^verbatim>\<open>rmw_init.cpp\<close>), \<open>Uds_Init_Props\<close>, \<open>Uds_Ownership\<close>, \<open>Uds_Init_Examples\<close>: init
    options and contexts with the heap blocks they own.
  \<^item> \<open>Uds_Unsupported\<close> (\<^verbatim>\<open>rmw_unsupported.cpp\<close>, the limits check of \<^verbatim>\<open>transport.cpp\<close>).
  \<^item> \<open>Uds_Typed\<close>: the type of the registry's content, over every entry point that changes it.
\<close>

text \<open>
  \<^bold>\<open>How the model is made.\<close> A struct is a record, a machine integer a word of its width,
  shared memory a function from addresses to bytes, a null pointer \<open>None\<close>, a C string a
  list of characters cut to its array (\<open>fit\<close>). An entry point takes the state and returns it,
  with the return code or the handle; its guards are the code's, in the code's order. What the
  system decides is an argument: \<open>sys\<close> and the smaller environment records say which calls
  and allocations fail, with which error, and what the clocks show, so a theorem for all of them
  covers every failure branch. Undefined behaviour is a value: \<open>Dangling\<close> for the use of a
  destroyed entity in \<open>rmw_wait\<close>, \<open>None\<close> for the use or the free of a dead block in \<open>Uds_Init\<close>;
  theorems show when they do not arise.

  \<^bold>\<open>Concurrency.\<close> Where the code is written for interference, the model has steps: an
  \<open>inductive\<close> relation over the shared state with one atomic access, one system call or one
  entry point per step (\<open>race_step\<close>, \<open>open_step\<close>, \<open>bell_step\<close>, \<open>join_step\<close>, \<open>life_step\<close>,
  \<open>own_step\<close>), and invariants by rule induction over everything reachable. Interference in the
  middle of an operation is a script: a receive loop has a list of what the other readers
  and senders of the socket do between two system calls (\<open>round\<close>), and \<open>rmw_wait\<close> has a list of
  wake-ups (\<open>wake\<close>), each with what the process did meanwhile, the answer of \<^verbatim>\<open>epoll_wait\<close> and
  the time that passed. Memory accesses are sequentially consistent.

  \<^bold>\<open>Bounds.\<close> Loops that the code bounds keep their bound: 16 retries of a snapshot
  (\<open>MAX_READ_RETRIES\<close>), 10000 polls for a creator (\<open>OPEN_POLLS\<close>), one retry of a failed
  opening. The loop of \<open>rmw_wait\<close> and the receive loop have no bound in the code; they are
  structural in their scripts, a script that ends too early is the value \<open>Still_blocked\<close> (the
  thread is inside the call), and a theorem of \<open>Uds_Wait_Triggers\<close> gives the time after which a
  finite wait returns. Table sizes, ring sizes, depths and histories are arbitrary except where
  the code fixes them; generation and sequence numbers are words that wrap.

  \<^bold>\<open>What is shown.\<close>

  \<^item> Discovery: the operations on the registry refine a finite map; the table is typed; an added
    entity is found by every matching query; the sweep removes exactly what belongs to dead
    processes and rings every doorbell; a snapshot is never torn in any interleaving in which a
    slot is claimed only after its teardown; opening joins a live file and no foreign one.
  \<^item> Delivery: a datagram arrives whole or not at all; what is serialized is what is taken,
    inline or through the ring; a record survives two more stagings, even across a
    replacement of the ring; no descriptor makes a reader leave its mapping; a queue holds
    the newest admissible messages; a late joiner of a durable topic sees every retained
    sample exactly once and in order, in every interleaving with the publisher.
  \<^item> Services: a response returns to the client that asked, with its request's sequence number;
    a cached route is the registered one while the generation stands.
  \<^item> Waiting: \<open>rmw_wait\<close> touches no destroyed entity, reports exactly what is ready, loses no
    trigger and no change of the registry, and ends at the caller's deadline.
  \<^item> Ownership: the creation of every entity and of a context is all or nothing, destruction gives
    everything back, and in every history of calls each heap block has at most one owner.

  \<^bold>\<open>What is shown to fail.\<close> The teardown of a removed slot may hit the slot's next owner
  (\<open>Uds_Slot_Race\<close>). Two first starts can end in two registries, and a slow creator can erase a
  registration (\<open>Uds_Open_Race\<close>). A process killed inside an operation costs a slot for
  ever (\<open>Uds_Crash\<close>). A failed \<^verbatim>\<open>rmw_init_options_copy\<close> leaves a destination whose finalization
  frees its source's strings (\<open>Uds_Init_Props\<close>). A closed socket whose description lives on in a
  forked child makes a wait spin (\<open>Uds_Wait_Examples\<close>). A timeout may surface almost a
  millisecond early (\<open>Uds_Wait_Triggers\<close>).

  \<^bold>\<open>Parameters.\<close> The generated CDR callbacks of a message type, under the contract
  \<open>callbacks_ok\<close>: what is serialized is read back, in the announced size. The copy and
  finalization functions of the \<^verbatim>\<open>rmw\<close> and \<^verbatim>\<open>rcutils\<close> libraries, under the contract \<open>lib_ok\<close>: a copy
  owns fresh blocks, a finalization frees what it owns. \<open>Uds_Transport_Props\<close> and
  \<open>Uds_Init_Examples\<close> give instances that meet them.

  \<^bold>\<open>Not modelled.\<close> Logging (\<^verbatim>\<open>logging.hpp\<close>, \<^verbatim>\<open>entry_type_name\<close>) and the identifier string, which
  is a constant; the tests and benchmarks. The mutex in the registry's header, which the code
  initializes and never locks. The field under \<^verbatim>\<open>RMW_HAS_LOCALHOST_ONLY\<close>, copied with its record
  and never read. Weak memory orders: the code's acquire and release accesses are taken in
  program order. The user callbacks of a subscription, client or service: their
  invocations are recorded with their counts and have no effect of their own. The security
  options of a context, which alias the caller's.
\<close>

end
